(* ===== verification/Prelude.thy ===== *)
theory Prelude
  imports "HOL-Library.Word" "HOL-Library.Sublist" "HOL-Library.List_Lexorder"
    "HOL-Library.Char_ord" "HOL-Library.Product_Lexorder" "HOL-Library.Multiset"
begin

text \<open>
  Shared vocabulary of the development: the ways a C++ operation of the program can fail, the
  result type its model returns, total-correctness reasoning about such results, the arithmetic
  of \<open>size_t\<close>, the few \<open>std::string\<close> operations the sources use, and decimal printing.
\<close>

section \<open>Failures and results\<close>

text \<open>
  \<^item> \<open>OutOfRange\<close>: a \<open>std::out_of_range\<close> exception (\<open>substr\<close>, \<open>at\<close>);
  \<^item> \<open>BadVariantAccess\<close>: the exception of \<open>std::get\<close> on another alternative;
  \<^item> \<open>JsonError\<close>: an exception of the JSON library (a missing key, a wrong type);
  \<^item> \<open>Aborted\<close>: a failing \<open>assert\<close> or a call of \<open>abort\<close>;
  \<^item> \<open>Undefined\<close>: undefined behaviour (an element read outside of a vector, a dangling
    pointer that is followed);
  \<^item> \<open>OutOfFuel\<close>: the bound on a loop or recursion of the model ran out, that is, the code
    does not return within it.
\<close>

datatype error = OutOfRange | BadVariantAccess | JsonError | Aborted | Undefined | OutOfFuel

type_synonym 'a result = "error + 'a"

text \<open>An exception unwinds to a handler; the other failures end the process.\<close>

definition is_exception :: "error \<Rightarrow> bool" where
  "is_exception e \<longleftrightarrow> e = OutOfRange \<or> e = BadVariantAccess \<or> e = JsonError"

definition rbind :: "'a result \<Rightarrow> ('a \<Rightarrow> 'b result) \<Rightarrow> 'b result" where
  "rbind m f = (case m of Inl e \<Rightarrow> Inl e | Inr x \<Rightarrow> f x)"

definition check :: "bool \<Rightarrow> error \<Rightarrow> unit result" where
  "check b e = (if b then Inr () else Inl e)"

lemma rbind_simps [simp]:
  "rbind (Inl e) f = Inl e"
  "rbind (Inr x) f = f x"
  by (simp_all add: rbind_def)

lemma rbind_Inr_iff: "rbind m f = Inr y \<longleftrightarrow> (\<exists>x. m = Inr x \<and> f x = Inr y)"
  by (cases m) auto

lemma rbind_cong [fundef_cong]:
  "m = m' \<Longrightarrow> (\<And>x. m' = Inr x \<Longrightarrow> f x = f' x) \<Longrightarrow> rbind m f = rbind m' f'"
  by (cases m') auto

lemma rbind_assoc: "rbind (rbind m f) g = rbind m (\<lambda>x. rbind (f x) g)"
  by (cases m) auto

lemma check_simps [simp]:
  "check True e = Inr ()"
  "check False e = Inl e"
  by (simp_all add: check_def)

lemma check_Inr [simp]: "check b e = Inr u \<longleftrightarrow> b"
  by (simp add: check_def)

subsection \<open>Total correctness\<close>

text \<open>
  \<open>returns m P\<close>: the computation returns normally, with a value that satisfies \<open>P\<close>. A
  composition is verified by applying such facts about its operations in the order of the code.
\<close>

definition returns :: "'a result \<Rightarrow> ('a \<Rightarrow> bool) \<Rightarrow> bool" where
  "returns m P \<longleftrightarrow> (\<exists>x. m = Inr x \<and> P x)"

lemma returns_simps [simp]:
  "returns (Inr x) P \<longleftrightarrow> P x"
  "returns (Inl e) P \<longleftrightarrow> False"
  by (simp_all add: returns_def)

lemma returnsI: "m = Inr x \<Longrightarrow> P x \<Longrightarrow> returns m P"
  by (simp add: returns_def)

lemma returnsE:
  assumes "returns m P"
  obtains x where "m = Inr x" and "P x"
  using assms by (auto simp: returns_def)

lemma returns_mono: "returns m P \<Longrightarrow> (\<And>x. P x \<Longrightarrow> Q x) \<Longrightarrow> returns m Q"
  by (auto simp: returns_def)

lemma returns_rbind:
  "returns m P \<Longrightarrow> (\<And>x. P x \<Longrightarrow> returns (f x) Q) \<Longrightarrow> returns (rbind m f) Q"
  by (auto simp: returns_def)

lemma returns_rbind_Inr:
  "returns m P \<Longrightarrow> (\<And>x. m = Inr x \<Longrightarrow> P x \<Longrightarrow> returns (f x) Q) \<Longrightarrow> returns (rbind m f) Q"
  by (auto simp: returns_def)

lemma returns_if:
  "(b \<Longrightarrow> returns m P) \<Longrightarrow> (\<not> b \<Longrightarrow> returns n P) \<Longrightarrow> returns (if b then m else n) P"
  by simp

lemma returns_rbind_iff: "returns (rbind m f) Q \<longleftrightarrow> returns m (\<lambda>x. returns (f x) Q)"
  by (cases m) auto

lemma returns_check [simp]: "returns (check b e) P \<longleftrightarrow> b \<and> P ()"
  by (simp add: check_def)

lemma returns_conj: "returns m P \<Longrightarrow> returns m Q \<Longrightarrow> returns m (\<lambda>x. P x \<and> Q x)"
  by (auto simp: returns_def)

section \<open>Integers of the program\<close>

text \<open>
  \<open>size_t\<close> has 64 bits. Sizes and offsets of objects in memory are below \<open>2 ^ 64\<close> and are
  modelled by natural numbers; where the code subtracts, the wrap-around is written out.
\<close>

definition size_sub :: "nat \<Rightarrow> nat \<Rightarrow> nat" where
  "size_sub a b = (if b \<le> a then a - b else a + 2 ^ 64 - b)"

lemma size_sub_le [simp]: "b \<le> a \<Longrightarrow> size_sub a b = a - b"
  by (simp add: size_sub_def)

lemma size_sub_word:
  assumes "a < 2 ^ 64" "b < 2 ^ 64"
  shows "size_sub a b = unat ((of_nat a :: 64 word) - of_nat b)"
proof -
  have u: "unat (of_nat a :: 64 word) = a" "unat (of_nat b :: 64 word) = b"
    using assms by (simp_all add: unat_of_nat)
  show ?thesis
    by (simp add: unat_sub_if_size u size_sub_def word_size)
qed

section \<open>Strings\<close>

abbreviation newline_char :: char where "newline_char \<equiv> CHR 0x0A"
abbreviation return_char :: char where "return_char \<equiv> CHR 0x0D"

text \<open>\<open>operator[]\<close> of a \<open>std::string\<close> is defined up to and including the terminator.\<close>

definition char_at :: "string \<Rightarrow> nat \<Rightarrow> char" where
  "char_at s i = (if i < length s then s ! i else CHR 0x00)"

text \<open>\<open>substr (pos)\<close> and \<open>substr (pos, n)\<close> throw when \<open>pos\<close> is past the end.\<close>

definition substr_from :: "string \<Rightarrow> nat \<Rightarrow> string result" where
  "substr_from s pos = (if pos \<le> length s then Inr (drop pos s) else Inl OutOfRange)"

definition substr :: "string \<Rightarrow> nat \<Rightarrow> nat \<Rightarrow> string result" where
  "substr s pos n = (if pos \<le> length s then Inr (take n (drop pos s)) else Inl OutOfRange)"

text \<open>An element of a vector read with \<open>operator[]\<close>: undefined outside of the vector.\<close>

definition nth_r :: "'a list \<Rightarrow> nat \<Rightarrow> 'a result" where
  "nth_r xs i = (if i < length xs then Inr (xs ! i) else Inl Undefined)"

lemma substr_ok [simp]:
  "pos \<le> length s \<Longrightarrow> substr s pos n = Inr (take n (drop pos s))"
  "pos \<le> length s \<Longrightarrow> substr_from s pos = Inr (drop pos s)"
  by (simp_all add: substr_def substr_from_def)

lemma nth_r_ok [simp]: "i < length xs \<Longrightarrow> nth_r xs i = Inr (xs ! i)"
  by (simp add: nth_r_def)

lemma nth_r_Inr: "nth_r xs i = Inr x \<longleftrightarrow> i < length xs \<and> x = xs ! i"
  by (auto simp: nth_r_def)

subsection \<open>Decimal notation\<close>

definition digit_char :: "nat \<Rightarrow> char" where
  "digit_char d = char_of (48 + d)"

definition is_digit :: "char \<Rightarrow> bool" where
  "is_digit c \<longleftrightarrow> 48 \<le> (of_char c :: nat) \<and> (of_char c :: nat) \<le> 57"

definition digit_val :: "char \<Rightarrow> nat" where
  "digit_val c = of_char c - 48"

fun show_nat :: "nat \<Rightarrow> string" where
  "show_nat n = (if n < 10 then [digit_char n]
     else show_nat (n div 10) @ [digit_char (n mod 10)])"

declare show_nat.simps [simp del]

definition read_digits :: "string \<Rightarrow> nat" where
  "read_digits s = foldl (\<lambda>n c. 10 * n + digit_val c) 0 s"

lemma of_char_digit: "d < 10 \<Longrightarrow> (of_char (digit_char d) :: nat) = 48 + d"
  by (simp add: digit_char_def)

lemma digit_char_simps [simp]:
  assumes "d < 10"
  shows "is_digit (digit_char d)" and "digit_val (digit_char d) = d"
  using assms by (simp_all add: is_digit_def digit_val_def of_char_digit)

lemma show_nat_nonempty [simp]: "show_nat n \<noteq> []"
  by (subst show_nat.simps) simp

lemma show_nat_digits: "list_all is_digit (show_nat n)"
proof (induction n rule: show_nat.induct)
  case (1 n)
  then show ?case
    by (cases "n < 10") (simp_all add: show_nat.simps [of n])
qed

lemma read_show_nat: "read_digits (show_nat n) = n"
proof (induction n rule: show_nat.induct)
  case (1 n)
  then show ?case
    by (cases "n < 10") (simp_all add: show_nat.simps [of n] read_digits_def)
qed

section \<open>Lists\<close>

lemma find_Some_filter: "find P xs = (case filter P xs of [] \<Rightarrow> None | y # _ \<Rightarrow> Some y)"
  by (induction xs) auto

lemma list_all_concat [simp]: "list_all P (concat xss) \<longleftrightarrow> list_all (list_all P) xss"
  by (induction xss) auto

lemma take_Suc_drop: "i < length xs \<Longrightarrow> drop i xs = xs ! i # drop (Suc i) xs"
  by (simp add: Cons_nth_drop_Suc)

end
