(* ===== verification/SourceLocation.thy ===== *)
theory SourceLocation
  imports Prelude
begin

text \<open>
  Model of \<open>src/src/analyzer/source_location.cpp\<close>: source files with their table of newline
  offsets, positions, and the map from byte offsets to lines and columns. A \<open>SourceLocation\<close>
  holds the address of its \<open>SourceFile\<close> (the C++ member is a pointer), so that the lifetime of
  the file it points to can be stated.
\<close>

section \<open>Source files\<close>

record SourceFile =
  fileName :: string
  contents :: string
  newlines :: "nat list"

text \<open>The loop reads \<open>contents[i]\<close> for every \<open>i\<close> up to and including the length.\<close>

function ParseNewLines_loop :: "string \<Rightarrow> nat \<Rightarrow> nat list \<Rightarrow> nat list" where
  "ParseNewLines_loop s i nls =
     (if i \<le> length s
      then ParseNewLines_loop s (Suc i) (if char_at s i = newline_char then nls @ [i] else nls)
      else nls)"
  by pat_completeness auto
termination
  by (relation "measure (\<lambda>(s, i, nls). Suc (length s) - i)") auto

declare ParseNewLines_loop.simps [simp del]

definition ParseNewLines :: "SourceFile \<Rightarrow> SourceFile" where
  "ParseNewLines f =
     f\<lparr>newlines := ParseNewLines_loop (contents f) 0 (newlines f) @ [length (contents f)]\<rparr>"

definition make_source_file :: "string \<Rightarrow> string \<Rightarrow> SourceFile" where
  "make_source_file fn c = ParseNewLines \<lparr>fileName = fn, contents = c, newlines = []\<rparr>"

section \<open>Positions\<close>

datatype LinePos = LinePos (line: nat) (column: nat)

text \<open>The defaulted \<open>operator<=>\<close> compares the members in the order of their declaration.\<close>

definition three_way :: "LinePos \<Rightarrow> LinePos \<Rightarrow> int" where
  "three_way p q =
     (if line p < line q then -1 else if line q < line p then 1
      else if column p < column q then -1 else if column q < column p then 1 else 0)"

instantiation LinePos :: linorder
begin

definition less_eq_LinePos :: "LinePos \<Rightarrow> LinePos \<Rightarrow> bool" where
  "less_eq_LinePos p q \<longleftrightarrow> three_way p q \<le> 0"

definition less_LinePos :: "LinePos \<Rightarrow> LinePos \<Rightarrow> bool" where
  "less_LinePos p q \<longleftrightarrow> three_way p q < 0"

instance
  by standard (auto simp: less_eq_LinePos_def less_LinePos_def three_way_def intro: LinePos.expand split: if_splits)

end

lemma LinePos_order:
  "p \<le> q \<longleftrightarrow> line p < line q \<or> line p = line q \<and> column p \<le> column q"
  "p < q \<longleftrightarrow> line p < line q \<or> line p = line q \<and> column p < column q"
  by (auto simp: less_eq_LinePos_def less_LinePos_def three_way_def)

definition show_LinePos :: "LinePos \<Rightarrow> string" where
  "show_LinePos p = show_nat (line p + 1) @ '':'' @ show_nat (column p + 1)"

text \<open>
  The loop over the newline table; the \<open>assert\<close> after it fails for an offset past the end.
\<close>

function OffsetToLineByte_loop :: "nat list \<Rightarrow> nat \<Rightarrow> nat \<Rightarrow> LinePos result" where
  "OffsetToLineByte_loop nls offset i =
     (if i < length nls
      then (if nls ! i \<ge> offset
            then (let start_of_line = (if i = 0 then 0 else nls ! (i - 1) + 1)
                  in Inr (LinePos i (size_sub offset start_of_line)))
            else OffsetToLineByte_loop nls offset (Suc i))
      else Inl Aborted)"
  by pat_completeness auto
termination
  by (relation "measure (\<lambda>(nls, offset, i). length nls - i)") auto

declare OffsetToLineByte_loop.simps [simp del]

definition OffsetToLineByte :: "SourceFile \<Rightarrow> nat \<Rightarrow> LinePos result" where
  "OffsetToLineByte f offset = OffsetToLineByte_loop (newlines f) offset 0"

section \<open>Locations\<close>

type_synonym addr = nat

record SourceLocation =
  sourceFile :: addr
  loc_offset :: nat
  loc_line :: nat
  loc_column :: nat

text \<open>
  The reference parameter \<open>sourceFile\<close> is the address of the file and the file itself. The
  overload that takes a \<open>const char*\<close> subtracts \<open>contents.data ()\<close>; pointers into the
  contents are modelled by their offsets, for which both overloads agree.
\<close>

definition make_source_location :: "addr \<Rightarrow> SourceFile \<Rightarrow> nat \<Rightarrow> SourceLocation result" where
  "make_source_location a f offset =
     rbind (OffsetToLineByte f offset) (\<lambda>p.
     Inr \<lparr>sourceFile = a, loc_offset = offset, loc_line = line p, loc_column = column p\<rparr>)"

definition loc_pos :: "SourceLocation \<Rightarrow> LinePos" where
  "loc_pos l = LinePos (loc_line l) (loc_column l)"

text \<open>Printing follows the pointer to the file, which \<open>files\<close> resolves.\<close>

definition show_location :: "(addr \<rightharpoonup> SourceFile) \<Rightarrow> SourceLocation \<Rightarrow> string result" where
  "show_location files l =
     (case files (sourceFile l) of
        None \<Rightarrow> Inl Undefined
      | Some f \<Rightarrow> Inr (fileName f @ '':'' @ show_nat (loc_line l + 1)
                          @ '':'' @ show_nat (loc_column l + 1)))"

section \<open>The newline table\<close>

definition newline_offsets :: "string \<Rightarrow> nat list" where
  "newline_offsets s = filter (\<lambda>i. s ! i = newline_char) [0..<length s]"

lemma ParseNewLines_loop_eq:
  "i \<le> length s \<Longrightarrow>
   ParseNewLines_loop s i nls = nls @ filter (\<lambda>j. s ! j = newline_char) [i..<length s]"
proof (induction s i nls rule: ParseNewLines_loop.induct)
  case (1 s i nls)
  show ?case
  proof (cases "i = length s")
    case True
    then show ?thesis
      by (simp add: ParseNewLines_loop.simps [of s "length s"]
          ParseNewLines_loop.simps [of s "Suc (length s)"] char_at_def)
  next
    case False
    with "1.prems" have lt: "i < length s" by simp
    have "ParseNewLines_loop s i nls
        = ParseNewLines_loop s (Suc i) (if char_at s i = newline_char then nls @ [i] else nls)"
      using lt by (simp add: ParseNewLines_loop.simps [of s i])
    also have "\<dots> = (if char_at s i = newline_char then nls @ [i] else nls)
        @ filter (\<lambda>j. s ! j = newline_char) [Suc i..<length s]"
      using "1.IH" lt by simp
    finally show ?thesis
      using lt by (simp add: upt_conv_Cons char_at_def)
  qed
qed

lemma newlines_make_source_file:
  "newlines (make_source_file fn c) = newline_offsets c @ [length c]"
  by (simp add: make_source_file_def ParseNewLines_def ParseNewLines_loop_eq newline_offsets_def)

lemma make_source_file_simps [simp]:
  "fileName (make_source_file fn c) = fn"
  "contents (make_source_file fn c) = c"
  by (simp_all add: make_source_file_def ParseNewLines_def)

definition well_formed_file :: "SourceFile \<Rightarrow> bool" where
  "well_formed_file f \<longleftrightarrow> newlines f = newline_offsets (contents f) @ [length (contents f)]"

lemma well_formed_make_source_file [simp]: "well_formed_file (make_source_file fn c)"
  by (simp add: well_formed_file_def newlines_make_source_file)

section \<open>Lines and columns of an offset\<close>

text \<open>
  The specification counts: the line is the number of newlines before the offset, the column
  the number of bytes since the last of them.
\<close>

definition line_of :: "string \<Rightarrow> nat \<Rightarrow> nat" where
  "line_of s off = count_list (take off s) newline_char"

definition column_of :: "string \<Rightarrow> nat \<Rightarrow> nat" where
  "column_of s off = length (takeWhile (\<lambda>c. c \<noteq> newline_char) (rev (take off s)))"

definition pos_of :: "string \<Rightarrow> nat \<Rightarrow> LinePos" where
  "pos_of s off = LinePos (line_of s off) (column_of s off)"

lemma line_of_0 [simp]: "line_of s 0 = 0"
  by (simp add: line_of_def)

lemma column_of_0 [simp]: "column_of s 0 = 0"
  by (simp add: column_of_def)

lemma pos_of_Suc:
  assumes "off < length s"
  shows "line_of s (Suc off) = line_of s off + (if s ! off = newline_char then 1 else 0)"
    and "column_of s (Suc off) = (if s ! off = newline_char then 0 else column_of s off + 1)"
  using assms by (simp_all add: line_of_def column_of_def take_Suc_conv_app_nth)

lemma column_of_le: "off \<le> length s \<Longrightarrow> column_of s off \<le> off"
  using length_takeWhile_le [of _ "rev (take off s)"] by (simp add: column_of_def)

lemma pos_of_step: "off < length s \<Longrightarrow> pos_of s off < pos_of s (Suc off)"
  by (simp add: pos_of_def LinePos_order pos_of_Suc)

lemma pos_of_strict_mono: "off < off' \<Longrightarrow> off' \<le> length s \<Longrightarrow> pos_of s off < pos_of s off'"
proof (induction off')
  case (Suc n)
  then have "pos_of s n < pos_of s (Suc n)" by (simp add: pos_of_step)
  with Suc show ?case
    by (cases "off = n") (auto intro: less_trans)
qed simp

lemma pos_of_mono: "off \<le> off' \<Longrightarrow> off' \<le> length s \<Longrightarrow> pos_of s off \<le> pos_of s off'"
  using pos_of_strict_mono [of off off' s] by (cases "off = off'") (auto intro: less_imp_le)

text \<open>The newlines before an offset are the first entries of the table.\<close>

lemma newline_offsets_bound: "x \<in> set (newline_offsets s) \<Longrightarrow> x < length s"
  by (auto simp: newline_offsets_def)

lemma newline_offsets_split:
  assumes "off \<le> length s"
  shows "newline_offsets s = filter (\<lambda>i. s ! i = newline_char) [0..<off]
    @ filter (\<lambda>i. s ! i = newline_char) [off..<length s]"
proof -
  have "[0..<length s] = [0..<off] @ [off..<length s]"
    using assms by (metis le_add_diff_inverse upt_add_eq_append zero_le)
  then show ?thesis by (simp add: newline_offsets_def)
qed

lemma line_of_eq_filter:
  "off \<le> length s \<Longrightarrow> line_of s off = length (filter (\<lambda>i. s ! i = newline_char) [0..<off])"
proof (induction off)
  case (Suc n)
  then show ?case by (simp add: pos_of_Suc)
qed simp

lemma table_before:
  assumes "off \<le> length s" "i < line_of s off"
  shows "(newline_offsets s @ [length s]) ! i < off"
proof -
  let ?xs = "filter (\<lambda>i. s ! i = newline_char) [0..<off]"
  have i: "i < length ?xs" using assms by (simp add: line_of_eq_filter)
  then have "(newline_offsets s @ [length s]) ! i = ?xs ! i"
    using assms by (simp add: newline_offsets_split [of off] nth_append)
  moreover have "?xs ! i \<in> set ?xs" using i by (rule nth_mem)
  ultimately show ?thesis by simp
qed

lemma table_at:
  assumes "off \<le> length s"
  shows "line_of s off < length (newline_offsets s @ [length s])"
    and "off \<le> (newline_offsets s @ [length s]) ! line_of s off"
proof -
  let ?xs = "filter (\<lambda>i. s ! i = newline_char) [0..<off]"
  let ?ys = "filter (\<lambda>i. s ! i = newline_char) [off..<length s] @ [length s]"
  have eq: "newline_offsets s @ [length s] = ?xs @ ?ys"
    using assms by (simp add: newline_offsets_split [of off])
  have len: "line_of s off = length ?xs" using assms by (rule line_of_eq_filter)
  show "line_of s off < length (newline_offsets s @ [length s])"
    by (simp only: eq len) simp
  have "?ys ! 0 \<in> set ?ys" by (rule nth_mem) simp
  then have "off \<le> ?ys ! 0" using assms by auto
  then show "off \<le> (newline_offsets s @ [length s]) ! line_of s off"
    using eq len by (metis add.right_neutral nth_append_length_plus)
qed

lemma table_newline:
  assumes "off < length s" "s ! off = newline_char"
  shows "(newline_offsets s @ [length s]) ! line_of s off = off"
  using assms by (simp add: newline_offsets_split [of off] line_of_eq_filter upt_conv_Cons nth_append)

lemma column_from_table:
  assumes "off \<le> length s"
  shows "off = column_of s off +
    (if line_of s off = 0 then 0 else (newline_offsets s @ [length s]) ! (line_of s off - 1) + 1)"
  using assms
proof (induction off)
  case (Suc n)
  then show ?case
    using table_newline [of n s] by (auto simp: pos_of_Suc)
qed simp

section \<open>The loop computes the position\<close>

lemma OffsetToLineByte_loop_at:
  assumes "i \<le> n" "n < length nls" "\<And>j. i \<le> j \<Longrightarrow> j < n \<Longrightarrow> nls ! j < off" "off \<le> nls ! n"
  shows "OffsetToLineByte_loop nls off i
    = Inr (LinePos n (size_sub off (if n = 0 then 0 else nls ! (n - 1) + 1)))"
  using assms
proof (induction "n - i" arbitrary: i)
  case 0
  then have "i = n" by simp
  with 0 show ?case by (simp add: OffsetToLineByte_loop.simps [of nls off n])
next
  case (Suc k)
  then have "i < n" by simp
  with Suc.prems Suc.hyps(1) [of "Suc i"] Suc.hyps(2) show ?case
    by (simp add: OffsetToLineByte_loop.simps [of nls off i] not_le)
qed

lemma OffsetToLineByte_loop_abort:
  assumes "\<And>j. i \<le> j \<Longrightarrow> j < length nls \<Longrightarrow> nls ! j < off"
  shows "OffsetToLineByte_loop nls off i = Inl Aborted"
  using assms
proof (induction nls off i rule: OffsetToLineByte_loop.induct)
  case (1 nls off i)
  then show ?case
    by (fastforce simp: OffsetToLineByte_loop.simps [of nls off i] not_le dest: "1.prems" [of i])
qed

lemma OffsetToLineByte_pos_of:
  assumes "well_formed_file f" "off \<le> length (contents f)"
  shows "OffsetToLineByte f off = Inr (pos_of (contents f) off)"
proof -
  let ?s = "contents f"
  let ?nls = "newline_offsets ?s @ [length ?s]"
  let ?start = "if line_of ?s off = 0 then 0 else ?nls ! (line_of ?s off - 1) + 1"
  have "OffsetToLineByte_loop ?nls off 0 = Inr (LinePos (line_of ?s off) (size_sub off ?start))"
    by (intro OffsetToLineByte_loop_at table_at table_before assms(2)) auto
  moreover have "size_sub off ?start = column_of ?s off"
    using column_from_table [OF assms(2)] by (simp split: if_splits)
  ultimately show ?thesis
    using assms(1) by (simp only: OffsetToLineByte_def well_formed_file_def pos_of_def)
qed

lemma OffsetToLineByte_past_end:
  assumes "well_formed_file f" "length (contents f) < off"
  shows "OffsetToLineByte f off = Inl Aborted"
proof -
  have "newlines f ! j < off" if "j < length (newlines f)" for j
  proof -
    have "newlines f ! j \<in> set (newlines f)" using that by (rule nth_mem)
    then show ?thesis
      using assms by (auto simp: well_formed_file_def dest: newline_offsets_bound)
  qed
  then show ?thesis
    by (simp add: OffsetToLineByte_def OffsetToLineByte_loop_abort)
qed

section \<open>The program's own test\<close>

text \<open>\<open>TestOffsetToLineByte\<close>: the table of cases, and the loop that aborts at a mismatch.\<close>

fun run_offset_tests :: "(SourceFile \<times> nat \<times> LinePos) list \<Rightarrow> unit result" where
  "run_offset_tests [] = Inr ()"
| "run_offset_tests ((f, offset, pos) # tests) =
     rbind (OffsetToLineByte f offset) (\<lambda>result.
     if result \<noteq> pos then Inl Aborted else run_offset_tests tests)"

definition TestOffsetToLineByte :: "unit result" where
  "TestOffsetToLineByte =
     (let nl = [newline_char];
          digits = ''1'' @ nl @ ''2'' @ nl @ ''3'' @ nl @ ''4'';
          file = make_source_file ''test''
      in run_offset_tests
        [(file ''this is some text'', 0, LinePos 0 0),
         (file [], 0, LinePos 0 0),
         (file digits, 0, LinePos 0 0),
         (file digits, 1, LinePos 0 1),
         (file digits, 2, LinePos 1 0),
         (file digits, 3, LinePos 1 1),
         (file digits, 4, LinePos 2 0),
         (file digits, 5, LinePos 2 1),
         (file (''aaaa'' @ nl @ ''bbbb'' @ nl @ ''cccc''), 8, LinePos 1 3)])"

end
