(* ===== verification/Names.thy ===== *)
theory Names
  imports Prelude
begin

text \<open>
  Model of the qualified names of \<open>src/src/analyzer/script.cpp\<close>: \<open>SplitPath\<close>, the structure
  \<open>QualifiedName\<close> with its members, and \<open>SplitName\<close>.
\<close>

section \<open>Operations\<close>

text \<open>
  The loop of \<open>SplitPath\<close>: \<open>cur\<close> is advanced by the body when a separator is found and once more
  by the loop itself. Both calls of \<open>substr\<close> are the checked ones of \<open>std::string_view\<close>.
\<close>

function SplitPath_loop :: "string \<Rightarrow> nat \<Rightarrow> nat \<Rightarrow> string list \<Rightarrow> string list result" where
  "SplitPath_loop path start cur vec =
     (if cur < length path
      then (if path ! cur = CHR '':'' \<and> cur + 1 < length path \<and> path ! (cur + 1) = CHR '':''
            then rbind (substr path start (size_sub cur start)) (\<lambda>part.
                 SplitPath_loop path (cur + 2) (cur + 2) (vec @ [part]))
            else SplitPath_loop path start (cur + 1) vec)
      else rbind (substr_from path start) (\<lambda>part. Inr (vec @ [part])))"
  by pat_completeness auto
termination
  by (relation "measure (\<lambda>(path, start, cur, vec). length path - cur)") auto

declare SplitPath_loop.simps [simp del]

definition SplitPath :: "string \<Rightarrow> string list result" where
  "SplitPath path = SplitPath_loop path 0 0 []"

record QualifiedName =
  ns :: "string option"
  qname :: string
  absolute :: bool

text \<open>
  A name built with designated initialisers and no \<open>.absolute\<close> is not absolute: the member is
  value-initialised.
\<close>

definition AbsPath :: "QualifiedName \<Rightarrow> string \<Rightarrow> QualifiedName" where
  "AbsPath qn current_path =
     (if absolute qn then qn
      else if current_path = []
      then \<lparr>ns = Some (case ns qn of Some n \<Rightarrow> ''::'' @ n | None \<Rightarrow> ''''),
            qname = qname qn, absolute = False\<rparr>
      else \<lparr>ns = Some (current_path @ (case ns qn of Some n \<Rightarrow> n | None \<Rightarrow> '''')),
            qname = qname qn, absolute = False\<rparr>)"

definition Path :: "QualifiedName \<Rightarrow> string" where
  "Path qn = (case ns qn of Some n \<Rightarrow> n @ ''::'' @ qname qn | None \<Rightarrow> qname qn)"

definition Namespace_str :: "QualifiedName \<Rightarrow> string" where
  "Namespace_str qn = (case ns qn of Some n \<Rightarrow> n | None \<Rightarrow> '''')"

definition NamespaceParts :: "QualifiedName \<Rightarrow> string list result" where
  "NamespaceParts qn =
     (case ns qn of
        None \<Rightarrow> Inr []
      | Some n \<Rightarrow>
          if absolute qn \<and> n \<noteq> [] then rbind (substr_from n 2) SplitPath
          else if absolute qn then Inr []
          else SplitPath n)"

definition Parts :: "QualifiedName \<Rightarrow> string list result" where
  "Parts qn =
     rbind (NamespaceParts qn) (\<lambda>parts.
     if qname qn = [] then Inr parts else Inr (parts @ [qname qn]))"

definition show_QualifiedName :: "QualifiedName \<Rightarrow> string" where
  "show_QualifiedName qn =
     (case ns qn of Some n \<Rightarrow> n @ ''::'' | None \<Rightarrow> '''') @ qname qn"

text \<open>\<open>name.rfind ("::")\<close>: the last position at which the separator occurs.\<close>

definition sep_at :: "string \<Rightarrow> nat \<Rightarrow> bool" where
  "sep_at s i \<longleftrightarrow> take 2 (drop i s) = ''::''"

fun rfind_sep_from :: "string \<Rightarrow> nat \<Rightarrow> nat option" where
  "rfind_sep_from s 0 = (if sep_at s 0 then Some 0 else None)"
| "rfind_sep_from s (Suc i) = (if sep_at s (Suc i) then Some (Suc i) else rfind_sep_from s i)"

definition rfind_sep :: "string \<Rightarrow> nat option" where
  "rfind_sep s = rfind_sep_from s (length s)"

definition SplitName :: "string \<Rightarrow> QualifiedName result" where
  "SplitName name =
     (let pos = rfind_sep name in
      if name = [] then Inr \<lparr>ns = Some '''', qname = '''', absolute = True\<rparr>
      else case pos of
        None \<Rightarrow> Inr \<lparr>ns = None, qname = name, absolute = False\<rparr>
      | Some pos \<Rightarrow>
          if length name \<ge> 2 \<and> take 2 name = ''::'' then
            (if length name > 2
             then rbind (substr_from name (pos + 2)) (\<lambda>n.
                  rbind (substr name 0 pos) (\<lambda>p.
                  Inr \<lparr>ns = Some p, qname = n, absolute = True\<rparr>))
             else Inr \<lparr>ns = Some '''', qname = '''', absolute = True\<rparr>)
          else
            rbind (substr_from name (pos + 2)) (\<lambda>n.
            rbind (substr name 0 pos) (\<lambda>p.
            Inr \<lparr>ns = Some p, qname = n, absolute = False\<rparr>)))"

section \<open>Splitting at separators\<close>

text \<open>The specification of \<open>SplitPath\<close>: cut at the leftmost separator, again and again.\<close>

fun split_sep :: "string \<Rightarrow> string list" where
  "split_sep [] = [[]]"
| "split_sep [c] = [[c]]"
| "split_sep (c # d # s) =
     (if c = CHR '':'' \<and> d = CHR '':'' then [] # split_sep s
      else (c # hd (split_sep (d # s))) # tl (split_sep (d # s)))"

fun join_sep :: "string list \<Rightarrow> string" where
  "join_sep [] = ''''"
| "join_sep [p] = p"
| "join_sep (p # q # ps) = p @ ''::'' @ join_sep (q # ps)"

lemma split_sep_nonempty [simp]: "split_sep s \<noteq> []"
  by (induction s rule: split_sep.induct) auto

lemma join_sep_Cons: "ps \<noteq> [] \<Longrightarrow> join_sep (p # ps) = p @ ''::'' @ join_sep ps"
  by (cases ps) auto

lemma join_sep_snoc: "ps \<noteq> [] \<Longrightarrow> join_sep (ps @ [p]) = join_sep ps @ ''::'' @ p"
  by (induction ps rule: join_sep.induct) (auto simp: join_sep_Cons)

lemma join_split_sep [simp]: "join_sep (split_sep s) = s"
proof (induction s rule: split_sep.induct)
  case (3 c d s)
  show ?case
  proof (cases "c = CHR '':'' \<and> d = CHR '':''")
    case True
    with 3 show ?thesis by (simp add: join_sep_Cons)
  next
    case False
    obtain p ps where "split_sep (d # s) = p # ps"
      by (cases "split_sep (d # s)") auto
    with 3 False show ?thesis by (cases ps) auto
  qed
qed auto

definition sep_free :: "string \<Rightarrow> bool" where
  "sep_free s \<longleftrightarrow> (\<forall>i. \<not> sep_at s i)"

lemma sep_at_Suc [simp]: "sep_at (c # s) (Suc i) = sep_at s i"
  by (simp add: sep_at_def)

lemma sep_at_Nil [simp]: "\<not> sep_at [] i"
  by (simp add: sep_at_def)

lemma sep_at_0 [simp]: "sep_at (c # s) 0 \<longleftrightarrow> c = CHR '':'' \<and> s \<noteq> [] \<and> hd s = CHR '':''"
  by (cases s) (auto simp: sep_at_def)

lemma sep_at_bound: "sep_at s i \<Longrightarrow> i + 2 \<le> length s"
  by (auto simp: sep_at_def dest!: arg_cong [where f = length])

lemma sep_at_iff: "sep_at s i \<longleftrightarrow> i + 1 < length s \<and> s ! i = CHR '':'' \<and> s ! (i + 1) = CHR '':''"
proof (induction s arbitrary: i)
  case (Cons c s)
  then show ?case by (cases i; cases s) auto
qed simp

lemma sep_free_Cons:
  "sep_free (c # s) \<longleftrightarrow> sep_free s \<and> \<not> (c = CHR '':'' \<and> s \<noteq> [] \<and> hd s = CHR '':'')"
  unfolding sep_free_def
  by (metis sep_at_0 sep_at_Suc not0_implies_Suc)

lemma sep_free_Nil [simp]: "sep_free []"
  by (simp add: sep_free_def)

lemma hd_split_sep_hd: "s \<noteq> [] \<Longrightarrow> hd (split_sep s) \<noteq> [] \<Longrightarrow> hd (hd (split_sep s)) = hd s"
  by (cases s rule: split_sep.cases) auto

lemma split_sep_free: "p \<in> set (split_sep s) \<Longrightarrow> sep_free p"
proof (induction s arbitrary: p rule: split_sep.induct)
  case (3 c d s)
  show ?case
  proof (cases "c = CHR '':'' \<and> d = CHR '':''")
    case True
    with 3 show ?thesis by auto
  next
    case False
    then have IH: "p \<in> set (split_sep (d # s)) \<Longrightarrow> sep_free p" for p
      using "3.IH"(2) by blast
    obtain q qs where q: "split_sep (d # s) = q # qs"
      by (cases "split_sep (d # s)") auto
    then have "q \<noteq> [] \<Longrightarrow> hd q = d"
      using hd_split_sep_hd [of "d # s"] by simp
    with False q IH have "sep_free (c # q)"
      by (auto simp: sep_free_Cons)
    with "3.prems" False q IH show ?thesis by auto
  qed
qed (auto simp: sep_free_Cons)

lemma split_sep_single: "sep_free s \<Longrightarrow> split_sep s = [s]"
  by (induction s rule: split_sep.induct) (auto simp: sep_free_Cons)

lemma split_sep_append:
  "CHR '':'' \<notin> set p \<Longrightarrow> split_sep (p @ ''::'' @ s) = p # split_sep s"
proof (induction p)
  case (Cons c p)
  then show ?case by (cases p) auto
qed simp

lemma split_join_sep:
  "ps \<noteq> [] \<Longrightarrow> list_all (\<lambda>p. CHR '':'' \<notin> set p) ps \<Longrightarrow> split_sep (join_sep ps) = ps"
proof (induction ps rule: join_sep.induct)
  case (2 p)
  then have "sep_free p"
    by (auto simp: sep_free_def sep_at_iff dest: nth_mem)
  then show ?case by (simp add: split_sep_single)
next
  case (3 p q ps)
  then show ?case using split_sep_append [of p "join_sep (q # ps)"] by simp
qed simp

subsection \<open>The loop meets its specification\<close>

lemma split_sep_no_sep_prefix:
  assumes "\<And>i. i < length p \<Longrightarrow> \<not> sep_at (p @ s) i"
  shows "split_sep (p @ s) = (p @ hd (split_sep s)) # tl (split_sep s)"
  using assms
proof (induction p)
  case (Cons c p)
  have "\<not> sep_at (c # p @ s) 0" using Cons.prems [of 0] by simp
  then have nc: "\<not> (c = CHR '':'' \<and> p @ s \<noteq> [] \<and> hd (p @ s) = CHR '':'')"
    by simp
  have IH: "split_sep (p @ s) = (p @ hd (split_sep s)) # tl (split_sep s)"
  proof (rule Cons.IH)
    fix i assume "i < length p"
    then show "\<not> sep_at (p @ s) i" using Cons.prems [of "Suc i"] by simp
  qed
  have "split_sep ((c # p) @ s) = (c # hd (split_sep (p @ s))) # tl (split_sep (p @ s))"
    using nc by (cases "p @ s") auto
  with IH show ?case by simp
qed simp

text \<open>Up to a position without a separator in front of it, the first part is extended.\<close>

lemma split_sep_until:
  assumes "start \<le> cur" "cur \<le> length path" "\<And>i. start \<le> i \<Longrightarrow> i < cur \<Longrightarrow> \<not> sep_at path i"
  shows "split_sep (drop start path) = (take (cur - start) (drop start path) @ hd (split_sep (drop cur path)))
    # tl (split_sep (drop cur path))"
proof -
  let ?p = "take (cur - start) (drop start path)"
  have d: "drop start path = ?p @ drop cur path"
    using assms(1) by (metis append_take_drop_id drop_drop le_add_diff_inverse2)
  have free: "\<not> sep_at (?p @ drop cur path) i" if "i < length ?p" for i
  proof -
    have "\<not> sep_at path (start + i)" using that assms by auto
    then show ?thesis by (simp add: d [symmetric] sep_at_def add.commute)
  qed
  show ?thesis by (subst d) (rule split_sep_no_sep_prefix, rule free)
qed

lemma drop_at_sep: "sep_at path cur \<Longrightarrow> drop cur path = CHR '':'' # CHR '':'' # drop (cur + 2) path"
  by (metis Cons_nth_drop_Suc Suc_eq_plus1 Suc_lessD add_2_eq_Suc' sep_at_iff)

lemma SplitPath_loop_eq:
  assumes "start \<le> cur" "cur \<le> length path"
    "\<And>i. start \<le> i \<Longrightarrow> i < cur \<Longrightarrow> \<not> sep_at path i"
  shows "SplitPath_loop path start cur vec = Inr (vec @ split_sep (drop start path))"
  using assms
proof (induction path start cur vec rule: SplitPath_loop.induct)
  case (1 path start cur vec)
  note split = split_sep_until [OF "1.prems"]
  show ?case
  proof (cases "cur < length path")
    case False
    with "1.prems" have "cur = length path" by simp
    with "1.prems" split show ?thesis
      by (simp add: SplitPath_loop.simps [of path start "length path" vec])
  next
    case True
    show ?thesis
    proof (cases "sep_at path cur")
      case sep: True
      then have len: "cur + 1 < length path" "path ! cur = CHR '':''" "path ! (cur + 1) = CHR '':''"
        by (simp_all add: sep_at_iff)
      let ?vec = "vec @ [take (cur - start) (drop start path)]"
      have "SplitPath_loop path (cur + 2) (cur + 2) ?vec = Inr (?vec @ split_sep (drop (cur + 2) path))"
        using True len "1.prems" by (intro "1.IH"(1)) auto
      with True len "1.prems" split show ?thesis
        by (simp add: SplitPath_loop.simps [of path start cur vec] drop_at_sep [OF sep])
    next
      case nosep: False
      then have "\<not> (path ! cur = CHR '':'' \<and> cur + 1 < length path \<and> path ! (cur + 1) = CHR '':'')"
        by (auto simp: sep_at_iff)
      moreover have "SplitPath_loop path start (cur + 1) vec
          = Inr (vec @ split_sep (drop start path))"
        using True calculation "1.prems" nosep
        by (intro "1.IH"(2)) (auto simp: less_Suc_eq)
      ultimately show ?thesis
        using True by (subst SplitPath_loop.simps) (simp only: if_False if_True)
    qed
  qed
qed

lemma SplitPath_eq [simp]: "SplitPath path = Inr (split_sep path)"
  by (simp add: SplitPath_def SplitPath_loop_eq)

section \<open>Splitting a name\<close>

lemma rfind_sep_from_None: "rfind_sep_from s n = None \<longleftrightarrow> (\<forall>i \<le> n. \<not> sep_at s i)"
  by (induction n) (auto simp: le_Suc_eq)

lemma rfind_sep_from_Some:
  "rfind_sep_from s n = Some i \<Longrightarrow> i \<le> n \<and> sep_at s i \<and> (\<forall>j. i < j \<longrightarrow> j \<le> n \<longrightarrow> \<not> sep_at s j)"
  by (induction n) (auto simp: le_Suc_eq split: if_splits)

lemma rfind_sep_None: "rfind_sep s = None \<longleftrightarrow> sep_free s"
proof -
  have "sep_at s i \<Longrightarrow> i \<le> length s" for i
    using sep_at_bound [of s i] by simp
  then show ?thesis
    by (auto simp: rfind_sep_def rfind_sep_from_None sep_free_def)
qed

lemma rfind_sep_Some:
  assumes "rfind_sep s = Some i"
  shows "sep_at s i" and "i + 2 \<le> length s" and "\<And>j. i < j \<Longrightarrow> \<not> sep_at s j"
proof -
  have i: "sep_at s i" "\<And>j. i < j \<Longrightarrow> j \<le> length s \<Longrightarrow> \<not> sep_at s j"
    using rfind_sep_from_Some assms unfolding rfind_sep_def by blast+
  from i(1) show "sep_at s i" "i + 2 \<le> length s" using sep_at_bound [of s i] by blast+
  show "\<not> sep_at s j" if "i < j" for j
    using i(2) [OF that] sep_at_bound [of s j] by linarith
qed

lemma sep_split:
  assumes "sep_at s i"
  shows "s = take i s @ ''::'' @ drop (i + 2) s"
proof -
  have "drop i s = ''::'' @ drop (i + 2) s"
    using assms append_take_drop_id [of 2 "drop i s"] by (simp add: sep_at_def add.commute)
  then show ?thesis by (metis append_take_drop_id)
qed

lemma sep_at_prefix: "length s \<ge> 2 \<and> take 2 s = ''::'' \<longleftrightarrow> sep_at s 0"
  using sep_at_bound [of s 0] by (auto simp: sep_at_def)

lemma SplitName_cases:
  shows "SplitName [] = Inr \<lparr>ns = Some [], qname = [], absolute = True\<rparr>"
    and "s \<noteq> [] \<Longrightarrow> rfind_sep s = None \<Longrightarrow>
      SplitName s = Inr \<lparr>ns = None, qname = s, absolute = False\<rparr>"
    and "rfind_sep s = Some i \<Longrightarrow>
      SplitName s = Inr \<lparr>ns = Some (take i s), qname = drop (i + 2) s, absolute = sep_at s 0\<rparr>"
proof -
  show "SplitName [] = Inr \<lparr>ns = Some [], qname = [], absolute = True\<rparr>"
    by (simp add: SplitName_def)
  show "s \<noteq> [] \<Longrightarrow> rfind_sep s = None \<Longrightarrow>
      SplitName s = Inr \<lparr>ns = None, qname = s, absolute = False\<rparr>"
    by (simp add: SplitName_def)
  assume i: "rfind_sep s = Some i"
  then have le: "i + 2 \<le> length s" by (rule rfind_sep_Some)
  then have ne: "s \<noteq> []" by auto
  show "SplitName s = Inr \<lparr>ns = Some (take i s), qname = drop (i + 2) s, absolute = sep_at s 0\<rparr>"
  proof (cases "length s > 2")
    case True
    with i le ne show ?thesis
      by (simp add: SplitName_def sep_at_def)
  next
    case False
    with le have "i = 0" "length s = 2" by auto
    with i ne rfind_sep_Some(1) [OF i] show ?thesis
      by (simp add: SplitName_def sep_at_def)
  qed
qed

lemma SplitName_total: obtains qn where "SplitName s = Inr qn"
  using SplitName_cases by (cases "rfind_sep s"; cases "s = []") blast+

lemma SplitName_returns:
  assumes "s \<noteq> []"
  shows "returns (SplitName s) (\<lambda>qn. Path qn = s \<and> sep_free (qname qn)
    \<and> absolute qn = sep_at s 0)"
proof (cases "rfind_sep s")
  case None
  with assms show ?thesis
    by (auto simp: SplitName_cases rfind_sep_None Path_def sep_free_def)
next
  case (Some i)
  have "sep_free (drop (i + 2) s)"
    using rfind_sep_Some(2,3) [OF Some] by (auto simp: sep_free_def sep_at_iff add.assoc)
  with Some show ?thesis
    using sep_split [OF rfind_sep_Some(1) [OF Some]]
    by (simp add: SplitName_cases Path_def)
qed

lemma SplitName_absolute: "SplitName s = Inr qn \<Longrightarrow> absolute qn \<longleftrightarrow> s = [] \<or> sep_at s 0"
  by (cases "rfind_sep s"; cases "s = []")
    (auto simp: SplitName_cases rfind_sep_None sep_free_def)

lemma SplitName_Path: "SplitName s = Inr qn \<Longrightarrow> s \<noteq> [] \<Longrightarrow> Path qn = s"
  using SplitName_returns [of s] by (auto simp: returns_def)

section \<open>The parts of a name\<close>

lemma colon_free_last_sep:
  assumes "CHR '':'' \<notin> set p"
  shows "rfind_sep (n @ ''::'' @ p) = Some (length n)"
proof -
  let ?s = "n @ ''::'' @ p"
  have at: "sep_at ?s (length n)" by (simp add: sep_at_def)
  have no: "\<not> sep_at ?s j" if "length n < j" for j
  proof
    assume "sep_at ?s j"
    then have "j + 1 < length ?s" "?s ! (j + 1) = CHR '':''" by (simp_all add: sep_at_iff)
    then have "p ! (j + 1 - (length n + 2)) = CHR '':''" "j + 1 - (length n + 2) < length p"
      using that by (auto simp: nth_append nth_Cons' numeral_2_eq_2 split: if_splits)
    with assms show False by (metis nth_mem)
  qed
  obtain i where i: "rfind_sep ?s = Some i"
    using at by (cases "rfind_sep ?s") (auto simp: rfind_sep_None sep_free_def)
  have "i = length n"
    using rfind_sep_Some(1,3) [OF i] no at by (metis linorder_neqE_nat)
  with i show ?thesis by simp
qed

lemma SplitName_qualified:
  assumes "CHR '':'' \<notin> set p"
  shows "SplitName (n @ ''::'' @ p)
    = Inr \<lparr>ns = Some n, qname = p, absolute = sep_at (n @ ''::'' @ p) 0\<rparr>"
  using SplitName_cases(3) [OF colon_free_last_sep [OF assms, of n]] by simp

lemma colon_free_sep_free: "CHR '':'' \<notin> set p \<Longrightarrow> sep_free p"
  unfolding sep_free_def sep_at_iff by (metis Suc_eq_plus1 Suc_lessD nth_mem)

lemma SplitName_unqualified:
  assumes "CHR '':'' \<notin> set p" "p \<noteq> []"
  shows "SplitName p = Inr \<lparr>ns = None, qname = p, absolute = False\<rparr>"
proof -
  have "sep_free p" using assms(1) by (rule colon_free_sep_free)
  with assms(2) show ?thesis by (simp add: SplitName_cases rfind_sep_None)
qed

definition simple_names :: "string list \<Rightarrow> bool" where
  "simple_names ps \<longleftrightarrow> list_all (\<lambda>p. p \<noteq> [] \<and> CHR '':'' \<notin> set p) ps"

lemma simple_names_snoc [simp]:
  "simple_names (ps @ [p]) \<longleftrightarrow> simple_names ps \<and> p \<noteq> [] \<and> CHR '':'' \<notin> set p"
  by (simp add: simple_names_def)

lemma split_join_simple: "ps \<noteq> [] \<Longrightarrow> simple_names ps \<Longrightarrow> split_sep (join_sep ps) = ps"
  by (intro split_join_sep) (auto simp: simple_names_def list_all_iff)

lemma join_sep_simple_start:
  assumes "ps \<noteq> []" "simple_names ps"
  shows "join_sep ps \<noteq> [] \<and> hd (join_sep ps) \<noteq> CHR '':''"
proof -
  obtain p qs where ps: "ps = p # qs" using assms(1) by (cases ps) auto
  with assms(2) have p: "p \<noteq> []" "CHR '':'' \<notin> set p" by (auto simp: simple_names_def)
  obtain r where "join_sep ps = p @ r" by (cases qs) (auto simp: ps)
  moreover have "hd p \<noteq> CHR '':''" using p by (metis hd_in_set)
  ultimately show ?thesis using p by simp
qed

text \<open>The absolute name with the given components.\<close>

definition abs_name :: "string list \<Rightarrow> string" where
  "abs_name ps = ''::'' @ join_sep ps"

lemma sep_at_abs_name [simp]: "sep_at (abs_name ps) 0"
  by (simp add: abs_name_def)

lemma SplitName_abs_name:
  assumes "simple_names (ps @ [p])"
  shows "SplitName (abs_name (ps @ [p]))
    = Inr \<lparr>ns = Some (if ps = [] then [] else abs_name ps), qname = p, absolute = True\<rparr>"
proof (cases "ps = []")
  case True
  with assms show ?thesis
    using SplitName_qualified [of p "[]"] by (simp add: abs_name_def simple_names_def)
next
  case False
  then have eq: "abs_name (ps @ [p]) = abs_name ps @ ''::'' @ p"
    by (simp add: abs_name_def join_sep_snoc)
  have "sep_at (abs_name (ps @ [p])) 0" by simp
  with False assms show ?thesis
    using SplitName_qualified [of p "abs_name ps"] unfolding eq by simp
qed

lemma NamespaceParts_abs_name:
  assumes "simple_names ps"
  shows "NamespaceParts \<lparr>ns = Some (if ps = [] then [] else abs_name ps), qname = p, absolute = True\<rparr>
    = Inr ps"
  using assms by (simp add: NamespaceParts_def abs_name_def split_join_simple)

lemma Parts_abs_name:
  assumes "simple_names (ps @ [p])"
  shows "rbind (SplitName (abs_name (ps @ [p]))) Parts = Inr (ps @ [p])"
  using assms by (simp add: SplitName_abs_name Parts_def NamespaceParts_abs_name)

lemma NamespaceParts_relative:
  "SplitName s = Inr qn \<Longrightarrow> \<not> absolute qn \<Longrightarrow>
   NamespaceParts qn = Inr (case ns qn of None \<Rightarrow> [] | Some n \<Rightarrow> split_sep n)"
  by (simp add: NamespaceParts_def split: option.split)

text \<open>
  The parts of an absolute name start after its leading separator; the code skips two characters
  of the namespace and so throws when it has only one, that is, when the last separator of the
  name starts at its second character.
\<close>

lemma NamespaceParts_throws:
  assumes "SplitName s = Inr qn"
  shows "(\<exists>e. NamespaceParts qn = Inl e) \<longleftrightarrow> sep_at s 0 \<and> rfind_sep s = Some 1"
proof (cases "rfind_sep s")
  case None
  with assms show ?thesis
    by (cases "s = []") (auto simp: SplitName_cases NamespaceParts_def)
next
  case (Some i)
  with assms have qn: "qn = \<lparr>ns = Some (take i s), qname = drop (i + 2) s, absolute = sep_at s 0\<rparr>"
    by (simp add: SplitName_cases)
  have "i + 2 \<le> length s" using Some by (rule rfind_sep_Some)
  then have "(\<exists>e. NamespaceParts qn = Inl e) \<longleftrightarrow> sep_at s 0 \<and> i = 1"
    by (auto simp: qn NamespaceParts_def substr_from_def)
  with Some show ?thesis by simp
qed

lemma NamespaceParts_absolute_short:
  assumes "SplitName s = Inr qn" "sep_at s 0" "rfind_sep s = Some 1"
  shows "absolute qn" and "NamespaceParts qn = Inl OutOfRange"
proof -
  have qn: "qn = \<lparr>ns = Some (take 1 s), qname = drop 3 s, absolute = True\<rparr>"
    using assms by (simp add: SplitName_cases eval_nat_numeral)
  have "3 \<le> length s" using rfind_sep_Some(2) [OF assms(3)] by simp
  then show "absolute qn" "NamespaceParts qn = Inl OutOfRange"
    by (auto simp: qn NamespaceParts_def substr_from_def)
qed

lemma NamespaceParts_returns:
  "SplitName s = Inr qn \<Longrightarrow> rfind_sep s \<noteq> Some 1 \<Longrightarrow> \<exists>ps. NamespaceParts qn = Inr ps"
  using NamespaceParts_throws [of s qn] by (cases "NamespaceParts qn") auto

section \<open>Resolution against a namespace\<close>

lemma AbsPath_Path:
  assumes "SplitName s = Inr qn" "s \<noteq> []"
  shows "Path (AbsPath qn cur) =
    (if sep_at s 0 then s
     else if cur = [] then ''::'' @ s
     else if sep_free s then cur @ ''::'' @ s
     else cur @ s)"
proof (cases "rfind_sep s")
  case None
  then have "sep_free s" by (simp add: rfind_sep_None)
  then have "\<not> sep_at s 0" by (simp add: sep_free_def)
  with None assms \<open>sep_free s\<close> show ?thesis
    by (auto simp: SplitName_cases AbsPath_def Path_def)
next
  case (Some i)
  then have sep: "\<not> sep_free s" by (simp flip: rfind_sep_None)
  from Some assms have qn: "qn = \<lparr>ns = Some (take i s), qname = drop (i + 2) s, absolute = sep_at s 0\<rparr>"
    by (simp add: SplitName_cases)
  have "take i s @ ''::'' @ drop (i + 2) s = s"
    using sep_split [OF rfind_sep_Some(1) [OF Some]] by simp
  with sep show ?thesis
    by (auto simp: qn AbsPath_def Path_def)
qed

text \<open>The namespace of a resolved name is empty or starts at the global namespace.\<close>

definition rooted :: "string \<Rightarrow> bool" where
  "rooted s \<longleftrightarrow> s = [] \<or> sep_at s 0"

lemma sep_at_append: "sep_at s 0 \<Longrightarrow> sep_at (s @ t) 0"
  by (cases s; cases "tl s") auto

lemma AbsPath_rooted:
  assumes "SplitName s = Inr qn" "rooted cur"
  shows "s \<noteq> [] \<Longrightarrow> rooted (Path (AbsPath qn cur))"
    and "rfind_sep s \<noteq> Some 1 \<Longrightarrow> rooted (Namespace_str (AbsPath qn cur))"
proof -
  assume "s \<noteq> []"
  then show "rooted (Path (AbsPath qn cur))"
    using assms AbsPath_Path [of s qn cur] by (auto simp: rooted_def sep_at_append)
next
  assume ne1: "rfind_sep s \<noteq> Some 1"
  show "rooted (Namespace_str (AbsPath qn cur))"
  proof (cases "absolute qn")
    case False
    with assms(2) show ?thesis
      by (auto simp: rooted_def AbsPath_def Namespace_str_def sep_at_append split: option.split)
  next
    case True
    show ?thesis
    proof (cases "rfind_sep s")
      case None
      with True assms show ?thesis
        by (cases "s = []") (auto simp: SplitName_cases AbsPath_def Namespace_str_def rooted_def)
    next
      case (Some i)
      with assms have qn: "qn = \<lparr>ns = Some (take i s), qname = drop (i + 2) s, absolute = sep_at s 0\<rparr>"
        by (simp add: SplitName_cases)
      have "i = 0 \<or> i \<ge> 2" using Some ne1 by (cases i rule: nat.exhaust) auto
      moreover have "i \<ge> 2 \<Longrightarrow> sep_at (take i s) 0"
        using True by (simp add: qn sep_at_def min_def)
      ultimately show ?thesis
        using True by (auto simp: qn AbsPath_def Namespace_str_def rooted_def)
    qed
  qed
qed

section \<open>The program's own test\<close>

text \<open>
  \<open>TestQualifiedName\<close>: a case has the name, the expected structure, its path and its absolute
  path; the number of mismatches is counted, and the program aborts when there is any.
\<close>

definition qualified_name_failures :: "string \<times> QualifiedName \<times> string \<times> string \<Rightarrow> nat result" where
  "qualified_name_failures t =
     (case t of (lexeme, expect, path, abspath) \<Rightarrow>
        rbind (SplitName lexeme) (\<lambda>qn.
        Inr (length (filter id
          [ns qn \<noteq> ns expect, qname qn \<noteq> qname expect, Path qn \<noteq> path,
           absolute qn \<noteq> absolute expect, Path (AbsPath qn []) \<noteq> abspath]))))"

fun count_failures :: "(string \<times> QualifiedName \<times> string \<times> string) list \<Rightarrow> nat \<Rightarrow> nat result" where
  "count_failures [] fail = Inr fail"
| "count_failures (t # tests) fail =
     rbind (qualified_name_failures t) (\<lambda>n. count_failures tests (fail + n))"

definition qualified_name_tests :: "(string \<times> QualifiedName \<times> string \<times> string) list" where
  "qualified_name_tests =
     [(''::'', \<lparr>ns = Some [], qname = [], absolute = True\<rparr>, ''::'', ''::''),
      ([], \<lparr>ns = Some [], qname = [], absolute = True\<rparr>, ''::'', ''::''),
      (''Test'', \<lparr>ns = None, qname = ''Test'', absolute = False\<rparr>, ''Test'', ''::Test''),
      (''::Test'', \<lparr>ns = Some [], qname = ''Test'', absolute = True\<rparr>, ''::Test'', ''::Test''),
      (''Test::Sub'', \<lparr>ns = Some ''Test'', qname = ''Sub'', absolute = False\<rparr>,
         ''Test::Sub'', ''::Test::Sub''),
      (''::Test::Sub'', \<lparr>ns = Some ''::Test'', qname = ''Sub'', absolute = True\<rparr>,
         ''::Test::Sub'', ''::Test::Sub'')]"

definition TestQualifiedName :: "unit result" where
  "TestQualifiedName =
     rbind (count_failures qualified_name_tests 0) (\<lambda>fail.
     if fail > 0 then Inl Aborted else Inr ())"

end
