(* ===== verification/SourceProperties.thy ===== *)
theory SourceProperties
  imports SourceLocation Names
begin

text \<open>
  The properties of source positions and of qualified names.
\<close>

text \<open>C37: the line and the column of an offset are the number of newlines before it and the
  distance to the last of them; an offset past the end of the text fails the assertion.\<close>

theorem OffsetToLineByte_correct:
  "OffsetToLineByte (make_source_file n c) off
    = (if off \<le> length c then Inr (pos_of c off) else Inl Aborted)"
  by (simp add: OffsetToLineByte_pos_of OffsetToLineByte_past_end)

lemma located_offset:
  assumes "make_source_location a (make_source_file n c) i = Inr l"
  shows "i \<le> length c \<and> loc_pos l = pos_of c i \<and> loc_offset l = i"
proof (cases "i \<le> length c")
  case True
  with assms show ?thesis
    by (auto simp: make_source_location_def OffsetToLineByte_pos_of loc_pos_def)
next
  case False
  with assms show ?thesis
    by (simp add: make_source_location_def OffsetToLineByte_past_end)
qed

text \<open>The order of positions (lines first, then columns) is the order of the offsets.\<close>

lemma position_order:
  assumes "make_source_location a (make_source_file n c) i = Inr l"
    and "make_source_location b (make_source_file n c) j = Inr m"
  shows "loc_pos l < loc_pos m \<longleftrightarrow> loc_offset l < loc_offset m"
  using assms [THEN located_offset] pos_of_strict_mono [of i j c] pos_of_mono [of j i c]
  by (auto simp: not_less [symmetric])

lemma position_order_example:
  "loc_pos \<lparr>sourceFile = 1, loc_offset = 1, loc_line = 0, loc_column = 1\<rparr>
     < loc_pos \<lparr>sourceFile = 1, loc_offset = 2, loc_line = 1, loc_column = 0\<rparr>"
proof -
  have 1: "make_source_location 1 (make_source_file ''f'' [CHR ''a'', newline_char, CHR ''b'']) 1
      = Inr \<lparr>sourceFile = 1, loc_offset = 1, loc_line = 0, loc_column = 1\<rparr>" by code_simp
  have 2: "make_source_location 1 (make_source_file ''f'' [CHR ''a'', newline_char, CHR ''b'']) 2
      = Inr \<lparr>sourceFile = 1, loc_offset = 2, loc_line = 1, loc_column = 0\<rparr>" by code_simp
  show ?thesis unfolding position_order [OF 1 2] by simp
qed

text \<open>The program's tests of positions and of names pass: the program does not abort there.\<close>

lemma own_tests_pass:
  "TestOffsetToLineByte = Inr () \<and> TestQualifiedName = Inr ()"
  by code_simp

text \<open>\<open>SplitPath\<close> cuts a path at its separators, leftmost first; joining the parts with the
  separator gives the path back, and no part has a separator.\<close>

lemma SplitPath_roundtrip:
  "returns (SplitPath path) (\<lambda>parts. join_sep parts = path \<and> list_all sep_free parts \<and>
     (parts = [path] \<longleftrightarrow> sep_free path))"
  using split_sep_free [where s = path] split_sep_single [of path]
  by (auto simp: list_all_iff)

text \<open>\<open>SplitName\<close> takes a name apart at its last separator: \<open>Path\<close> puts it together again,
  the name part has no separator, and the name is absolute exactly when it starts with one.\<close>

lemma SplitName_roundtrip:
  "returns (SplitName s) (\<lambda>qn. Path qn = (if s = [] then ''::'' else s) \<and> sep_free (qname qn) \<and>
     (absolute qn \<longleftrightarrow> s = [] \<or> sep_at s 0))"
  using SplitName_returns [of s] by (cases "s = []") (auto simp: SplitName_cases Path_def sep_free_def)

text \<open>The components of an absolute name are those it was written with.\<close>

lemma Parts_roundtrip:
  assumes "simple_names (ps @ [p])"
  shows "rbind (SplitName (abs_name (ps @ [p]))) Parts = Inr (ps @ [p])"
  using assms by (rule Parts_abs_name)

text \<open>Taking the parts of the namespace of a name throws \<open>std::out_of_range\<close> exactly for the
  absolute names whose last separator starts at the second character, such as \<open>:::x\<close>.\<close>

lemma NamespaceParts_out_of_range:
  "rbind (SplitName s) NamespaceParts = Inl OutOfRange \<longleftrightarrow> sep_at s 0 \<and> rfind_sep s = Some 1"
proof -
  obtain qn where qn: "SplitName s = Inr qn" by (rule SplitName_total)
  have "NamespaceParts qn \<noteq> Inl e" if "e \<noteq> OutOfRange" for e
    using that by (auto simp: NamespaceParts_def substr_from_def split: option.split)
  then show ?thesis using NamespaceParts_throws [OF qn] qn by (cases "NamespaceParts qn") auto
qed

text \<open>C38: resolving a name against a namespace gives the absolute name itself, or the name below
  the namespace with a separator in between, except for a qualified relative name in a namespace
  that is not the global one, where the separator is missing.\<close>

theorem AbsPath_resolves:
  "returns (SplitName s) (\<lambda>qn. Path (AbsPath qn cur) =
    (if s = [] then ''::'' else if sep_at s 0 then s
     else if cur = [] then ''::'' @ s
     else if sep_free s then cur @ ''::'' @ s
     else cur @ s))"
proof -
  obtain qn where qn: "SplitName s = Inr qn" by (rule SplitName_total)
  show ?thesis
  proof (cases "s = []")
    case True
    then show ?thesis by (simp add: SplitName_cases AbsPath_def Path_def)
  next
    case False
    then show ?thesis using AbsPath_Path [OF qn False, of cur] qn by simp
  qed
qed

end
