(* ===== verification/Script.thy ===== *)
theory Script
  imports Names SourceLocation
begin

text \<open>
  Model of the parser of \<open>src/src/analyzer/script.cpp\<close>: the syntax tree (\<open>Word\<close>, \<open>Call\<close>,
  \<open>Script\<close>) and the functions that build it from the tokens of Tcl's own parser. Tcl is not
  part of the repository (\<open>vendor/tcl\<close> is a submodule): its two entry points that the parser
  calls are the fields of the record \<open>tcl\<close>, an argument of every definition that uses them.
  Pointers into the text of the file are modelled by offsets.
\<close>

section \<open>The interface of Tcl's parser\<close>

datatype token_type =
    TCL_TOKEN_WORD | TCL_TOKEN_SIMPLE_WORD | TCL_TOKEN_EXPAND_WORD | TCL_TOKEN_TEXT
  | TCL_TOKEN_BS | TCL_TOKEN_COMMAND | TCL_TOKEN_VARIABLE | TCL_TOKEN_SUB_EXPR
  | TCL_TOKEN_OPERATOR

record Tcl_Token =
  tok_type :: token_type
  tok_start :: nat
  tok_size :: nat
  numComponents :: nat

record Tcl_Parse =
  commentSize :: nat
  commandStart :: nat
  commandSize :: nat
  numWords :: nat
  tokenPtr :: "Tcl_Token list"

text \<open>
  \<open>Tcl_ParseCommand c off n\<close> parses the first command of the \<open>n\<close> bytes at offset \<open>off\<close> of the
  text \<open>c\<close>; \<open>TclFindElement c off n\<close> finds the first list element there and gives its start,
  the start of the rest of the list, and its size. \<open>None\<close> is a return value other than
  \<open>TCL_OK\<close>.
\<close>

record tcl =
  Tcl_ParseCommand :: "string \<Rightarrow> nat \<Rightarrow> nat \<Rightarrow> Tcl_Parse option"
  TclFindElement :: "string \<Rightarrow> nat \<Rightarrow> nat \<Rightarrow> (nat \<times> nat \<times> nat) option"

section \<open>The syntax tree\<close>

text \<open>
  A \<open>std::string_view\<close> refers to characters of the file (at an offset) or to a string literal of
  the program.
\<close>

datatype string_view = View nat string | Literal string

primrec view_str :: "string_view \<Rightarrow> string" where
  "view_str (View off s) = s"
| "view_str (Literal s) = s"

definition make_view :: "string \<Rightarrow> nat \<Rightarrow> nat \<Rightarrow> string_view result" where
  "make_view c off n =
     (if off + n \<le> length c then Inr (View off (take n (drop off c))) else Inl Undefined)"

datatype word_type =
    TEXT | VARIABLE | ARRAY_ACCESS | SCRIPT | TOKEN_LIST | EXPAND | LIST | ERROR

datatype call_type = PROC | WHILE | FOR | FOREACH | NAMESPACE_EVAL | IF | USER

datatype Word =
    Word (word_type: word_type) (word_location: SourceLocation) (word_text: string_view)
      (word_data: word_data)
and word_data =
    Nothing
  | ArrayAccess string "Word list"
  | ScriptPtr Script
  | WordVec "Word list"
  | WordPtr Word
and Call = Call (call_type: call_type) (call_words: "Word list") (call_ns: string)
and Script = Script (script_location: SourceLocation) (commands: "Call list")

abbreviation word_str :: "Word \<Rightarrow> string" where
  "word_str w \<equiv> view_str (word_text w)"

definition set_type :: "word_type \<Rightarrow> Word \<Rightarrow> Word" where
  "set_type t w = Word t (word_location w) (word_text w) (word_data w)"

definition set_data :: "word_data \<Rightarrow> Word \<Rightarrow> Word" where
  "set_data d w = Word (word_type w) (word_location w) (word_text w) d"

lemma set_type_simps [simp]:
  "word_type (set_type t w) = t"
  "word_location (set_type t w) = word_location w"
  "word_text (set_type t w) = word_text w"
  "word_data (set_type t w) = word_data w"
  "word_type (set_data d w) = word_type w"
  "word_location (set_data d w) = word_location w"
  "word_text (set_data d w) = word_text w"
  "word_data (set_data d w) = d"
  by (simp_all add: set_type_def set_data_def)

text \<open>\<open>std::get\<close> on the variant member of a word.\<close>

definition get_WordVec :: "Word \<Rightarrow> Word list result" where
  "get_WordVec w = (case word_data w of WordVec ws \<Rightarrow> Inr ws | _ \<Rightarrow> Inl BadVariantAccess)"

record ParseContext =
  ctx_file :: SourceFile
  file_addr :: addr \<comment> \<open>the address of the member \<open>file\<close>, which locations point to\<close>
  cur_ns :: string

definition location_at :: "ParseContext \<Rightarrow> nat \<Rightarrow> SourceLocation result" where
  "location_at ctx off = make_source_location (file_addr ctx) (ctx_file ctx) off"

definition view_at :: "ParseContext \<Rightarrow> nat \<Rightarrow> nat \<Rightarrow> string_view result" where
  "view_at ctx off n = make_view (contents (ctx_file ctx)) off n"

section \<open>Words\<close>

type_synonym word_parser = "ParseContext \<Rightarrow> Tcl_Parse \<Rightarrow> nat \<Rightarrow> (Word \<times> nat \<times> ParseContext) result"
type_synonym script_parser = "ParseContext \<Rightarrow> nat \<Rightarrow> nat \<Rightarrow> (Script \<times> ParseContext) result"

text \<open>
  The loops \<open>while (nextToken < maxToken) v.emplace_back (ParseWord (...))\<close>. Every iteration
  consumes a token, so that as many iterations as there are tokens are enough.
\<close>

fun parse_components ::
  "word_parser \<Rightarrow> nat \<Rightarrow> ParseContext \<Rightarrow> Tcl_Parse \<Rightarrow> nat \<Rightarrow> nat \<Rightarrow> (Word list \<times> nat \<times> ParseContext) result"
where
  "parse_components PW k ctx pr nextToken maxToken =
     (if nextToken < maxToken
      then (case k of
              0 \<Rightarrow> Inl OutOfFuel
            | Suc k \<Rightarrow>
                rbind (PW ctx pr nextToken) (\<lambda>(w, nextToken, ctx).
                rbind (parse_components PW k ctx pr nextToken maxToken) (\<lambda>(ws, nextToken, ctx).
                Inr (w # ws, nextToken, ctx))))
      else Inr ([], nextToken, ctx))"

declare parse_components.simps [simp del]

text \<open>
  \<open>ParseWord\<close>; the parser of nested scripts is its first argument, the second bounds the nesting
  of tokens.
\<close>

fun ParseWord :: "script_parser \<Rightarrow> nat \<Rightarrow> word_parser" where
  "ParseWord PS 0 ctx pr nextToken = Inl OutOfFuel"
| "ParseWord PS (Suc k) ctx pr nextToken =
     rbind (nth_r (tokenPtr pr) nextToken) (\<lambda>token.
     let nextToken = nextToken + 1 in
     case tok_type token of
       TCL_TOKEN_SIMPLE_WORD \<Rightarrow>
         rbind (check (numComponents token = 1) Aborted) (\<lambda>_.
         ParseWord PS k ctx pr nextToken)
     | TCL_TOKEN_WORD \<Rightarrow>
         rbind (location_at ctx (tok_start token)) (\<lambda>loc.
         rbind (view_at ctx (tok_start token) (tok_size token)) (\<lambda>text.
         rbind (parse_components (ParseWord PS k) (numComponents token) ctx pr nextToken
                  (nextToken + numComponents token)) (\<lambda>(vec, nextToken, ctx).
         Inr (Word TOKEN_LIST loc text (WordVec vec), nextToken, ctx))))
     | TCL_TOKEN_EXPAND_WORD \<Rightarrow>
         rbind (location_at ctx (tok_start token)) (\<lambda>loc.
         rbind (view_at ctx (tok_start token) (tok_size token)) (\<lambda>text.
         rbind (parse_components (ParseWord PS k) (numComponents token) ctx pr nextToken
                  (nextToken + numComponents token)) (\<lambda>(vec, nextToken, ctx).
         Inr (Word EXPAND loc text (WordVec vec), nextToken, ctx))))
     | TCL_TOKEN_TEXT \<Rightarrow>
         rbind (view_at ctx (tok_start token) (tok_size token)) (\<lambda>text.
         rbind (location_at ctx (tok_start token)) (\<lambda>loc.
         Inr (Word TEXT loc text Nothing, nextToken, ctx)))
     | TCL_TOKEN_BS \<Rightarrow>
         rbind (view_at ctx (tok_start token) (tok_size token)) (\<lambda>text.
         rbind (location_at ctx (tok_start token)) (\<lambda>loc.
         Inr (Word TEXT loc text Nothing, nextToken, ctx)))
     | TCL_TOKEN_COMMAND \<Rightarrow>
         rbind (view_at ctx (tok_start token) (tok_size token)) (\<lambda>text.
         rbind (location_at ctx (tok_start token)) (\<lambda>loc.
         rbind (PS ctx (tok_start token + 1) (size_sub (tok_size token) 2)) (\<lambda>(script, ctx).
         Inr (Word SCRIPT loc text (ScriptPtr script), nextToken, ctx))))
     | TCL_TOKEN_VARIABLE \<Rightarrow>
         if numComponents token = 1
         then rbind (ParseWord PS k ctx pr nextToken) (\<lambda>(word, nextToken, ctx).
              Inr (set_type VARIABLE word, nextToken, ctx))
         else
           rbind (view_at ctx (tok_start token) (tok_size token)) (\<lambda>text.
           rbind (location_at ctx (tok_start token)) (\<lambda>loc.
           let maxToken = nextToken + numComponents token in
           rbind (ParseWord PS k ctx pr nextToken) (\<lambda>(name, nextToken, ctx).
           rbind (check (word_type name = TEXT) Aborted) (\<lambda>_.
           rbind (parse_components (ParseWord PS k) (numComponents token) ctx pr nextToken
                    maxToken) (\<lambda>(index, nextToken, ctx).
           Inr (Word ARRAY_ACCESS loc text (ArrayAccess (word_str name) index),
                nextToken, ctx))))))
     | TCL_TOKEN_SUB_EXPR \<Rightarrow> Inl Aborted
     | TCL_TOKEN_OPERATOR \<Rightarrow> Inl Aborted)"

declare ParseWord.simps [simp del]

section \<open>Lists\<close>

text \<open>
  The loop of \<open>WordToList\<close>; \<open>None\<close> is the early return that leaves the word as it is. Every
  iteration but the last finds an element, so that one more iteration than the text has
  characters is enough.
\<close>

fun WordToList_loop ::
  "tcl \<Rightarrow> nat \<Rightarrow> ParseContext \<Rightarrow> nat \<Rightarrow> nat \<Rightarrow> nat \<Rightarrow> Word list \<Rightarrow> Word list option result"
where
  "WordToList_loop T 0 ctx list n last_pos vec = Inl OutOfFuel"
| "WordToList_loop T (Suc k) ctx list n last_pos vec =
     (let prevList = list in
      case TclFindElement T (contents (ctx_file ctx)) list n of
        None \<Rightarrow> Inr None
      | Some (element, list, sz) \<Rightarrow>
          (let n = size_sub n (size_sub list prevList) in
           if element \<ge> last_pos then Inr (Some vec)
           else
             rbind (location_at ctx element) (\<lambda>loc.
             rbind (view_at ctx element sz) (\<lambda>text.
             WordToList_loop T k ctx list n last_pos (vec @ [Word TEXT loc text Nothing])))))"

declare WordToList_loop.simps [simp del]

definition WordToList :: "tcl \<Rightarrow> ParseContext \<Rightarrow> Word \<Rightarrow> Word result" where
  "WordToList T ctx word =
     (case word_text word of
        Literal _ \<Rightarrow> Inl Undefined
      | View list s \<Rightarrow>
          rbind (WordToList_loop T (Suc (length s)) ctx list (length s) (list + length s) [])
            (\<lambda>r. case r of
                   None \<Rightarrow> Inr word
                 | Some vec \<Rightarrow>
                     if length vec = 1 then Inr word
                     else Inr (set_data (WordVec vec) (set_type LIST word))))"

fun WordToList_all :: "tcl \<Rightarrow> ParseContext \<Rightarrow> Word list \<Rightarrow> Word list result" where
  "WordToList_all T ctx [] = Inr []"
| "WordToList_all T ctx (arg # args) =
     rbind (WordToList T ctx arg) (\<lambda>w.
     rbind (WordToList_all T ctx args) (\<lambda>ws.
     Inr (w # ws)))"

section \<open>Commands\<close>

text \<open>
  The local state of \<open>ParseCommand\<close> that its closures share: the words of the call so far, the
  index of the next token, and the context. A closure returns the word it appended.
\<close>

record CommandState =
  words :: "Word list"
  tokenIndex :: nat
  pctx :: ParseContext

definition push_word :: "Word \<Rightarrow> CommandState \<Rightarrow> CommandState" where
  "push_word w st = st\<lparr>words := words st @ [w]\<rparr>"

definition set_ns :: "string \<Rightarrow> CommandState \<Rightarrow> CommandState" where
  "set_ns n st = st\<lparr>pctx := (pctx st)\<lparr>cur_ns := n\<rparr>\<rparr>"

definition error_word :: "ParseContext \<Rightarrow> Tcl_Parse \<Rightarrow> string \<Rightarrow> Word result" where
  "error_word ctx pr msg =
     rbind (location_at ctx (commandStart pr + commentSize pr)) (\<lambda>loc.
     Inr (Word ERROR loc (Literal msg) Nothing))"

definition parseRest :: "word_parser \<Rightarrow> Tcl_Parse \<Rightarrow> CommandState \<Rightarrow> CommandState result" where
  "parseRest PW pr st =
     rbind (parse_components PW (length (tokenPtr pr)) (pctx st) pr (tokenIndex st)
              (length (tokenPtr pr))) (\<lambda>(ws, i, ctx).
     Inr \<lparr>words = words st @ ws, tokenIndex = i, pctx = ctx\<rparr>)"

definition parseWord ::
  "word_parser \<Rightarrow> Tcl_Parse \<Rightarrow> CommandState \<Rightarrow> (Word \<times> CommandState) result" where
  "parseWord PW pr st =
     (if tokenIndex st \<ge> length (tokenPtr pr)
      then rbind (error_word (pctx st) pr ''Expected word!'') (\<lambda>w.
           Inr (w, push_word w st))
      else rbind (PW (pctx st) pr (tokenIndex st)) (\<lambda>(w, i, ctx).
           Inr (w, push_word w (st\<lparr>tokenIndex := i, pctx := ctx\<rparr>))))"

text \<open>
  The word that \<open>parseArgs\<close> builds: a list, whose elements are lists again where they can be.
\<close>

definition list_of_lists :: "tcl \<Rightarrow> ParseContext \<Rightarrow> Word \<Rightarrow> Word result" where
  "list_of_lists T ctx w =
     rbind (WordToList T ctx w) (\<lambda>word.
     if word_type word = LIST
     then rbind (get_WordVec word) (\<lambda>vec.
          rbind (WordToList_all T ctx vec) (\<lambda>parsedArgs.
          Inr (set_data (WordVec parsedArgs) word)))
     else Inr word)"

definition parseArgs ::
  "tcl \<Rightarrow> word_parser \<Rightarrow> Tcl_Parse \<Rightarrow> CommandState \<Rightarrow> (Word \<times> CommandState) result" where
  "parseArgs T PW pr st =
     (if tokenIndex st \<ge> length (tokenPtr pr)
      then rbind (error_word (pctx st) pr ''Expected list!'') (\<lambda>w.
           Inr (w, push_word w st))
      else
        rbind (PW (pctx st) pr (tokenIndex st)) (\<lambda>(w, i, ctx).
        rbind (list_of_lists T ctx w) (\<lambda>word.
        Inr (word, push_word word (st\<lparr>tokenIndex := i, pctx := ctx\<rparr>)))))"

definition parseBody ::
  "script_parser \<Rightarrow> word_parser \<Rightarrow> Tcl_Parse \<Rightarrow> CommandState \<Rightarrow> (Word \<times> CommandState) result" where
  "parseBody PS PW pr st =
     (if tokenIndex st \<ge> length (tokenPtr pr)
      then rbind (error_word (pctx st) pr ''Expected body!'') (\<lambda>w.
           Inr (w, push_word w st))
      else
        rbind (PW (pctx st) pr (tokenIndex st)) (\<lambda>(w, i, ctx).
        rbind (if word_type w = TEXT
               then (case word_text w of
                       Literal _ \<Rightarrow> Inl Undefined
                     | View off s \<Rightarrow>
                         rbind (PS ctx off (length s)) (\<lambda>(script, ctx).
                         Inr (set_data (ScriptPtr script) (set_type SCRIPT w), ctx)))
               else Inr (w, ctx)) (\<lambda>(w, ctx).
        Inr (w, push_word w (st\<lparr>tokenIndex := i, pctx := ctx\<rparr>)))))"

text \<open>The branches for the commands that define procedures and namespaces.\<close>

definition parse_proc ::
  "tcl \<Rightarrow> script_parser \<Rightarrow> word_parser \<Rightarrow> Tcl_Parse \<Rightarrow> CommandState \<Rightarrow> CommandState result" where
  "parse_proc T PS PW pr st =
     rbind (parseWord PW pr st) (\<lambda>(name, st).
     rbind (parseArgs T PW pr st) (\<lambda>(_, st).
     let old_ns = cur_ns (pctx st) in
     rbind (if word_type name = TEXT
            then rbind (SplitName (word_str name)) (\<lambda>qn.
                 Inr (set_ns (Namespace_str (AbsPath qn (cur_ns (pctx st)))) st))
            else Inr st) (\<lambda>st.
     rbind (parseBody PS PW pr st) (\<lambda>(_, st).
     Inr (set_ns old_ns st)))))"

definition parse_namespace_eval ::
  "script_parser \<Rightarrow> word_parser \<Rightarrow> Tcl_Parse \<Rightarrow> CommandState \<Rightarrow> CommandState result" where
  "parse_namespace_eval PS PW pr st =
     rbind (parseWord PW pr st) (\<lambda>(arg, st).
     let old_ns = cur_ns (pctx st) in
     rbind (if word_type arg = TEXT
            then rbind (SplitName (word_str arg)) (\<lambda>qn.
                 Inr (set_ns (Path (AbsPath qn (cur_ns (pctx st)))) st))
            else Inr st) (\<lambda>st.
     rbind (parseBody PS PW pr st) (\<lambda>(_, st).
     Inr (set_ns old_ns st))))"

text \<open>The chain of tests on the command word, with the type given to the call.\<close>

definition parse_known ::
  "tcl \<Rightarrow> script_parser \<Rightarrow> word_parser \<Rightarrow> Tcl_Parse \<Rightarrow> Word \<Rightarrow> CommandState
    \<Rightarrow> (call_type \<times> CommandState) result" where
  "parse_known T PS PW pr cmdWord st =
     (if word_type cmdWord = TEXT then
        if word_str cmdWord = ''proc'' \<and> numWords pr = 4 then
          rbind (parse_proc T PS PW pr st) (\<lambda>st. Inr (PROC, st))
        else if word_str cmdWord = ''while'' \<and> numWords pr = 3 then
          rbind (parseWord PW pr st) (\<lambda>(_, st).
          rbind (parseBody PS PW pr st) (\<lambda>(_, st). Inr (WHILE, st)))
        else if word_str cmdWord = ''for'' \<and> numWords pr = 5 then
          rbind (parseBody PS PW pr st) (\<lambda>(_, st).
          rbind (parseWord PW pr st) (\<lambda>(_, st).
          rbind (parseBody PS PW pr st) (\<lambda>(_, st).
          rbind (parseBody PS PW pr st) (\<lambda>(_, st). Inr (FOR, st)))))
        else if word_str cmdWord = ''foreach'' \<and> numWords pr = 4 then
          rbind (parseWord PW pr st) (\<lambda>(_, st).
          rbind (parseWord PW pr st) (\<lambda>(_, st).
          rbind (parseBody PS PW pr st) (\<lambda>(_, st). Inr (FOREACH, st))))
        else if word_str cmdWord = ''namespace'' \<and> numWords pr > 1 then
          rbind (parseWord PW pr st) (\<lambda>(subCmd, st).
          if word_type subCmd = TEXT \<and> word_str subCmd = ''eval'' \<and> numWords pr = 4
          then rbind (parse_namespace_eval PS PW pr st) (\<lambda>st. Inr (NAMESPACE_EVAL, st))
          else Inr (USER, st))
        else Inr (USER, st)
      else Inr (USER, st))"

definition ParseCommand ::
  "tcl \<Rightarrow> script_parser \<Rightarrow> ParseContext \<Rightarrow> Tcl_Parse \<Rightarrow> Script \<Rightarrow> (Script \<times> ParseContext) result" where
  "ParseCommand T PS ctx pr s =
     (if numWords pr < 1 then Inr (s, ctx)
      else
        let PW = ParseWord PS (length (tokenPtr pr)) in
        rbind (parseWord PW pr \<lparr>words = [], tokenIndex = 0, pctx = ctx\<rparr>) (\<lambda>(cmdWord, st).
        rbind (parse_known T PS PW pr cmdWord st) (\<lambda>(ty, st).
        rbind (parseRest PW pr st) (\<lambda>st.
        Inr (Script (script_location s) (commands s @ [Call ty (words st) (cur_ns ctx)]),
             pctx st)))))"

section \<open>Scripts\<close>

text \<open>
  The loop \<open>while (script.size () > 0)\<close>: every command Tcl parses is a part of the text, so that
  as many iterations as there are characters are enough.
\<close>

fun ParseScript_loop ::
  "tcl \<Rightarrow> script_parser \<Rightarrow> nat \<Rightarrow> ParseContext \<Rightarrow> nat \<Rightarrow> nat \<Rightarrow> Script \<Rightarrow> (Script \<times> ParseContext) result"
where
  "ParseScript_loop T PS k ctx off n s =
     (if n > 0
      then (case k of
              0 \<Rightarrow> Inl OutOfFuel
            | Suc k \<Rightarrow>
                (case Tcl_ParseCommand T (contents (ctx_file ctx)) off n of
                   None \<Rightarrow> Inr (s, ctx)
                 | Some pr \<Rightarrow>
                     rbind (ParseCommand T PS ctx pr s) (\<lambda>(s, ctx).
                     let end_pos = off + n; start_pos = commandStart pr + commandSize pr in
                     rbind (check (end_pos \<ge> start_pos) Aborted) (\<lambda>_.
                     ParseScript_loop T PS k ctx start_pos (end_pos - start_pos) s))))
      else Inr (s, ctx))"

declare ParseScript_loop.simps [simp del]

text \<open>
  The first argument bounds the nesting of scripts. A nested script is a proper part of the text
  around it, so that the length of the text is enough.
\<close>

fun ParseScript :: "tcl \<Rightarrow> nat \<Rightarrow> script_parser" where
  "ParseScript T 0 ctx off n = Inl OutOfFuel"
| "ParseScript T (Suc k) ctx off n =
     rbind (location_at ctx off) (\<lambda>loc.
     ParseScript_loop T (ParseScript T k) n ctx off n (Script loc []))"

definition parse_file :: "tcl \<Rightarrow> ParseContext \<Rightarrow> (Script \<times> ParseContext) result" where
  "parse_file T ctx =
     ParseScript T (Suc (length (contents (ctx_file ctx)))) ctx 0 (length (contents (ctx_file ctx)))"

end
