(* ===== verification/ScriptProps.thy ===== *)
theory ScriptProps
  imports Script
begin

text \<open>
  What the parser of \<open>Script\<close> promises: the well-formedness and the completeness of the trees it builds, what it
  relies on of Tcl's parser, and the proof that it returns such a tree for every text.
\<close>

section \<open>The words and calls of a tree\<close>

text \<open>All words of a tree in the order of the text, a word before the words inside it.\<close>

primrec words_in :: "Word \<Rightarrow> Word list"
  and words_in_data :: "word_data \<Rightarrow> Word list"
  and words_in_call :: "Call \<Rightarrow> Word list"
  and words_in_script :: "Script \<Rightarrow> Word list"
where
  "words_in (Word t l x d) = Word t l x d # words_in_data d"
| "words_in_data Nothing = []"
| "words_in_data (ArrayAccess n ws) = concat (map words_in ws)"
| "words_in_data (ScriptPtr s) = words_in_script s"
| "words_in_data (WordVec ws) = concat (map words_in ws)"
| "words_in_data (WordPtr w) = words_in w"
| "words_in_call (Call t ws n) = concat (map words_in ws)"
| "words_in_script (Script l cs) = concat (map words_in_call cs)"

primrec calls_in :: "Word \<Rightarrow> Call list"
  and calls_in_data :: "word_data \<Rightarrow> Call list"
  and calls_in_call :: "Call \<Rightarrow> Call list"
  and calls_in_script :: "Script \<Rightarrow> Call list"
where
  "calls_in (Word t l x d) = calls_in_data d"
| "calls_in_data Nothing = []"
| "calls_in_data (ArrayAccess n ws) = concat (map calls_in ws)"
| "calls_in_data (ScriptPtr s) = calls_in_script s"
| "calls_in_data (WordVec ws) = concat (map calls_in ws)"
| "calls_in_data (WordPtr w) = calls_in w"
| "calls_in_call (Call t ws n) = Call t ws n # concat (map calls_in ws)"
| "calls_in_script (Script l cs) = concat (map calls_in_call cs)"

lemma words_in_eq: "words_in w = w # words_in_data (word_data w)"
  by (cases w) simp

lemma calls_in_eq: "calls_in w = calls_in_data (word_data w)"
  by (cases w) simp

lemma words_in_set [simp]:
  "words_in (set_type t w) = set_type t w # words_in_data (word_data w)"
  "words_in (set_data d w) = set_data d w # words_in_data d"
  "calls_in (set_type t w) = calls_in w"
  "calls_in (set_data d w) = calls_in_data d"
  by (simp_all add: words_in_eq calls_in_eq)

abbreviation word_off :: "Word \<Rightarrow> nat" where
  "word_off w \<equiv> loc_offset (word_location w)"

abbreviation word_end :: "Word \<Rightarrow> nat" where
  "word_end w \<equiv> word_off w + length (word_str w)"

section \<open>Well-formed trees\<close>

text \<open>A word lies where its location says, and its text is the text of the file there.\<close>

definition located :: "SourceFile \<Rightarrow> addr \<Rightarrow> Word \<Rightarrow> bool" where
  "located f a w \<longleftrightarrow>
     sourceFile (word_location w) = a \<and>
     word_end w \<le> length (contents f) \<and>
     loc_pos (word_location w) = pos_of (contents f) (word_off w) \<and>
     word_text w = View (word_off w) (take (length (word_str w)) (drop (word_off w) (contents f)))"

text \<open>The data of a word is the alternative that goes with its type.\<close>

definition shaped :: "Word \<Rightarrow> bool" where
  "shaped w =
     (case word_type w of
        TEXT \<Rightarrow> word_data w = Nothing
      | VARIABLE \<Rightarrow> word_data w = Nothing
      | ARRAY_ACCESS \<Rightarrow> (case word_data w of ArrayAccess _ _ \<Rightarrow> True | _ \<Rightarrow> False)
      | SCRIPT \<Rightarrow> (case word_data w of ScriptPtr _ \<Rightarrow> True | _ \<Rightarrow> False)
      | TOKEN_LIST \<Rightarrow> (case word_data w of WordVec _ \<Rightarrow> True | _ \<Rightarrow> False)
      | EXPAND \<Rightarrow> (case word_data w of WordVec _ \<Rightarrow> True | _ \<Rightarrow> False)
      | LIST \<Rightarrow> (case word_data w of
          WordVec ws \<Rightarrow> length ws \<noteq> 1 \<and> list_all (\<lambda>v. word_type v = TEXT \<or> word_type v = LIST) ws
        | _ \<Rightarrow> False)
      | ERROR \<Rightarrow> False)"

text \<open>
  The type of a command is determined by its words: the first word, the number of words and, for
  \<open>namespace\<close>, the second word.
\<close>

definition call_kind :: "Word list \<Rightarrow> nat \<Rightarrow> call_type" where
  "call_kind ws n =
     (if word_type (hd ws) = TEXT then
        if word_str (hd ws) = ''proc'' \<and> n = 4 then PROC
        else if word_str (hd ws) = ''while'' \<and> n = 3 then WHILE
        else if word_str (hd ws) = ''for'' \<and> n = 5 then FOR
        else if word_str (hd ws) = ''foreach'' \<and> n = 4 then FOREACH
        else if word_str (hd ws) = ''namespace'' \<and> n = 4 \<and> word_type (ws ! 1) = TEXT
          \<and> word_str (ws ! 1) = ''eval'' then NAMESPACE_EVAL
        else USER
      else USER)"

definition shaped_call :: "Call \<Rightarrow> bool" where
  "shaped_call c \<longleftrightarrow> call_words c \<noteq> [] \<and> call_type c = call_kind (call_words c) (length (call_words c))"

text \<open>So a type fixes the number of words.\<close>

definition arity_ok :: "call_type \<Rightarrow> nat \<Rightarrow> bool" where
  "arity_ok ty n =
     (case ty of
        PROC \<Rightarrow> n = 4 | WHILE \<Rightarrow> n = 3 | FOR \<Rightarrow> n = 5 | FOREACH \<Rightarrow> n = 4
      | NAMESPACE_EVAL \<Rightarrow> n = 4 | IF \<Rightarrow> False | USER \<Rightarrow> n > 0)"

lemma shaped_call_arity: "shaped_call (Call ty ws n) \<Longrightarrow> arity_ok ty (length ws)"
  by (auto simp: shaped_call_def arity_ok_def call_kind_def)

text \<open>The places of the bodies of a command: a body that is plain text was parsed.\<close>

definition body_places :: "call_type \<Rightarrow> nat list" where
  "body_places ty =
     (case ty of PROC \<Rightarrow> [3] | WHILE \<Rightarrow> [2] | FOR \<Rightarrow> [1, 3, 4] | FOREACH \<Rightarrow> [3] | NAMESPACE_EVAL \<Rightarrow> [3] | _ \<Rightarrow> [])"

definition bodies_parsed :: "call_type \<Rightarrow> Word list \<Rightarrow> bool" where
  "bodies_parsed ty ws \<longleftrightarrow> list_all (\<lambda>i. word_type (ws ! i) \<noteq> TEXT) (body_places ty)"

definition parsed_call :: "Call \<Rightarrow> bool" where
  "parsed_call c \<longleftrightarrow> shaped_call c \<and> bodies_parsed (call_type c) (call_words c)"

section \<open>Complete trees\<close>

text \<open>
  The places of the words of a command in its token array: a simple word stands for its text
  sub-token.
\<close>

function word_spans :: "Tcl_Token list \<Rightarrow> (nat \<times> nat) list" where
  "word_spans [] = []"
| "word_spans (t # ts) =
     (case ts of
        c # _ \<Rightarrow> if tok_type t = TCL_TOKEN_SIMPLE_WORD then (tok_start c, tok_size c) else (tok_start t, tok_size t)
      | [] \<Rightarrow> (tok_start t, tok_size t)) # word_spans (drop (numComponents t) ts)"
  by pat_completeness auto

termination
  by (relation "measure length") auto

text \<open>
  The commands that Tcl's parser finds one after the other in \<open>n\<close> characters from \<open>off\<close> on, each as
  the places of its words; empty commands are left out.
\<close>

function command_spans :: "tcl \<Rightarrow> string \<Rightarrow> nat \<Rightarrow> nat \<Rightarrow> (nat \<times> nat) list list" where
  "command_spans T c off n =
     (if n = 0 then []
      else case Tcl_ParseCommand T c off n of
        None \<Rightarrow> []
      | Some pr \<Rightarrow>
          let e = commandStart pr + commandSize pr in
          (if numWords pr = 0 then [] else [word_spans (tokenPtr pr)]) @
          (if off < e \<and> e \<le> off + n then command_spans T c e (off + n - e) else []))"
  by pat_completeness auto

termination
  by (relation "measure (\<lambda>(T, c, off, n). n)") auto

text \<open>The elements that Tcl finds in a list, if it is one.\<close>

function list_spans :: "tcl \<Rightarrow> string \<Rightarrow> nat \<Rightarrow> nat \<Rightarrow> (nat \<times> nat) list option" where
  "list_spans T c off n =
     (case TclFindElement T c off n of
        None \<Rightarrow> None
      | Some (e, nx, sz) \<Rightarrow>
          if off + n \<le> e then Some []
          else if off < nx \<and> nx \<le> off + n then map_option ((#) (e, sz)) (list_spans T c nx (off + n - nx))
          else None)"
  by pat_completeness auto

termination
  by (relation "measure (\<lambda>(T, c, off, n). n)") auto

declare command_spans.simps [simp del] list_spans.simps [simp del]

lemma command_spans_step:
  assumes "Tcl_ParseCommand T c off n = Some pr" "n > 0"
    and "off < commandStart pr + commandSize pr" "commandStart pr + commandSize pr \<le> off + n"
  shows "command_spans T c off n = (if numWords pr = 0 then [] else [word_spans (tokenPtr pr)]) @
    command_spans T c (commandStart pr + commandSize pr) (off + n - (commandStart pr + commandSize pr))"
  using assms by (subst command_spans.simps) (simp add: Let_def)

lemma list_spans_step:
  assumes "TclFindElement T c off n = Some (e, nx, sz)" "e < off + n" "off < nx" "nx \<le> off + n"
  shows "list_spans T c off n = map_option ((#) (e, sz)) (list_spans T c nx (off + n - nx))"
  using assms by (subst list_spans.simps) simp

definition word_span :: "Word \<Rightarrow> nat \<times> nat" where
  "word_span w = (word_off w, length (word_str w))"

definition call_spans :: "Call \<Rightarrow> (nat \<times> nat) list" where
  "call_spans c = map word_span (call_words c)"

lemma word_span_simps [simp]:
  "word_span (set_type t w) = word_span w" "word_span (set_data d w) = word_span w"
  by (simp_all add: word_span_def)

lemma call_spans_simp [simp]: "call_spans (Call ty ws n) = map word_span ws"
  by (simp add: call_spans_def)

text \<open>A script that has exactly the commands, with exactly the words, that Tcl finds in a text.\<close>

definition mirrors :: "tcl \<Rightarrow> string \<Rightarrow> nat \<Rightarrow> nat \<Rightarrow> Script \<Rightarrow> bool" where
  "mirrors T c off n s \<longleftrightarrow> loc_offset (script_location s) = off \<and>
     map call_spans (commands s) = command_spans T c off n"

text \<open>
  The script of a word is that of its text, or of its text without brackets; the elements of a list
  are those of its text.
\<close>

definition complete :: "tcl \<Rightarrow> string \<Rightarrow> Word \<Rightarrow> bool" where
  "complete T c w =
     (case word_data w of
        ScriptPtr s \<Rightarrow> mirrors T c (word_off w) (length (word_str w)) s \<or>
          2 \<le> length (word_str w) \<and> mirrors T c (word_off w + 1) (length (word_str w) - 2) s
      | WordVec ws \<Rightarrow> word_type w = LIST \<longrightarrow> list_spans T c (word_off w) (length (word_str w)) = Some (map word_span ws)
      | _ \<Rightarrow> True)"

section \<open>Trees in a part of a text\<close>

definition span :: "nat \<Rightarrow> nat \<Rightarrow> Word list \<Rightarrow> bool" where
  "span lo hi ws \<longleftrightarrow> sorted (map word_off ws) \<and> (\<forall>w \<in> set ws. lo \<le> word_off w \<and> word_off w \<le> hi)"

definition good :: "tcl \<Rightarrow> SourceFile \<Rightarrow> addr \<Rightarrow> nat \<Rightarrow> nat \<Rightarrow> Word list \<Rightarrow> Call list \<Rightarrow> bool" where
  "good T f a lo hi ws cs \<longleftrightarrow>
     span lo hi ws \<and> (\<forall>w \<in> set ws. located f a w \<and> shaped w \<and> complete T (contents f) w) \<and> (\<forall>c \<in> set cs. parsed_call c)"

lemma span_Nil [simp]: "span lo hi []"
  by (simp add: span_def)

lemma span_append: "span lo m xs \<Longrightarrow> span m hi ys \<Longrightarrow> lo \<le> m \<Longrightarrow> m \<le> hi \<Longrightarrow> span lo hi (xs @ ys)"
  unfolding span_def by (auto simp: sorted_append) (meson le_trans)+

lemma span_Cons: "lo \<le> word_off w \<Longrightarrow> span (word_off w) hi ws \<Longrightarrow> word_off w \<le> hi \<Longrightarrow> span lo hi (w # ws)"
  unfolding span_def by auto

lemma span_mono: "span lo hi ws \<Longrightarrow> lo' \<le> lo \<Longrightarrow> hi \<le> hi' \<Longrightarrow> span lo' hi' ws"
  unfolding span_def by (meson le_trans)

lemma good_Nil [simp]: "good T f a lo hi [] []"
  by (simp add: good_def)

lemma good_append:
  "good T f a lo m xs cs \<Longrightarrow> good T f a m hi ys ds \<Longrightarrow> lo \<le> m \<Longrightarrow> m \<le> hi
    \<Longrightarrow> good T f a lo hi (xs @ ys) (cs @ ds)"
  unfolding good_def by (auto intro: span_append)

lemma good_mono: "good T f a lo hi ws cs \<Longrightarrow> lo' \<le> lo \<Longrightarrow> hi \<le> hi' \<Longrightarrow> good T f a lo' hi' ws cs"
  unfolding good_def by (auto intro: span_mono)

lemma good_Cons:
  "located f a w \<Longrightarrow> shaped w \<Longrightarrow> complete T (contents f) w \<Longrightarrow> lo \<le> word_off w \<Longrightarrow> word_off w \<le> hi \<Longrightarrow>
   good T f a (word_off w) hi ws cs \<Longrightarrow> good T f a lo hi (w # ws) cs"
  unfolding good_def by (auto intro: span_Cons)

section \<open>Induction over well-formed trees\<close>

lemma shaped_cases:
  assumes "shaped (Word ty loc x d)"
  obtains ws where "ty = EXPAND \<or> ty = TOKEN_LIST" "d = WordVec ws"
    | ws where "ty = LIST" "d = WordVec ws"
    | s where "ty = SCRIPT" "d = ScriptPtr s"
    | n ws where "ty = ARRAY_ACCESS" "d = ArrayAccess n ws"
    | "ty = TEXT \<or> ty = VARIABLE" "d = Nothing"
  using assms by (cases ty; cases d) (auto simp: shaped_def)

text \<open>All words are shaped and all calls satisfy \<open>G\<close>.\<close>

definition tree_all :: "(Call \<Rightarrow> bool) \<Rightarrow> Word list \<Rightarrow> Call list \<Rightarrow> bool" where
  "tree_all G ws cs \<longleftrightarrow> list_all shaped ws \<and> list_all G cs"

lemma tree_all_simps [simp]:
  "tree_all G [] []"
  "tree_all G (w # ws) cs \<longleftrightarrow> shaped w \<and> tree_all G ws cs"
  "tree_all G ws (c # cs) \<longleftrightarrow> G c \<and> tree_all G ws cs"
  "tree_all G (ws @ ws') (cs @ cs') \<longleftrightarrow> tree_all G ws cs \<and> tree_all G ws' cs'"
  by (auto simp: tree_all_def)

text \<open>What the induction over a tree shows of the data of a word.\<close>

definition data_inv :: "(Word \<Rightarrow> bool) \<Rightarrow> (Script \<Rightarrow> bool) \<Rightarrow> word_data \<Rightarrow> bool" where
  "data_inv P Q d =
     (case d of Nothing \<Rightarrow> True | ArrayAccess n ws \<Rightarrow> list_all P ws | WordVec ws \<Rightarrow> list_all P ws
      | ScriptPtr s \<Rightarrow> Q s | WordPtr w \<Rightarrow> P w)"

lemma tree_induct:
  assumes word: "\<And>ty loc x d. shaped (Word ty loc x d) \<Longrightarrow> data_inv P S d \<Longrightarrow> P (Word ty loc x d)"
    and call: "\<And>ty ws cns. G (Call ty ws cns) \<Longrightarrow> list_all P ws \<Longrightarrow> C (Call ty ws cns)"
    and script: "\<And>loc cs. list_all C cs \<Longrightarrow> S (Script loc cs)"
    and safe: "tree_all G (words_in_script s) (calls_in_script s)"
  shows "S s"
proof -
  have "(tree_all G (words_in w) (calls_in w) \<longrightarrow> P w) \<and>
    (tree_all G (words_in_data d) (calls_in_data d) \<longrightarrow> data_inv P S d) \<and>
    (tree_all G (words_in_call c) (calls_in_call c) \<longrightarrow> C c) \<and>
    (tree_all G (words_in_script s) (calls_in_script s) \<longrightarrow> S s)" for w d c
  proof (induction rule: Word_word_data_Call_Script.induct)
    case (Word ty loc x d)
    then show ?case using word by simp
  next
    case (Call ty ws cns)
    then show ?case using call [of ty ws cns] by (auto simp: list_all_iff tree_all_def)
  next
    case (Script loc cs)
    then show ?case using script [of cs loc] by (auto simp: list_all_iff tree_all_def)
  qed (auto simp: data_inv_def list_all_iff tree_all_def)
  with safe show ?thesis by simp
qed

section \<open>What the parser relies on\<close>

text \<open>
  The token array of a command, as the documentation of \<open>Tcl_ParseCommand\<close> describes it. The
  sub-tokens of a word lie in the order of the text inside it. Text and backslash tokens have no
  sub-tokens; a command token includes its brackets; the first sub-token of a variable token is
  the text of its name, further ones make up an array index.
\<close>

inductive components :: "nat \<Rightarrow> nat \<Rightarrow> Tcl_Token list \<Rightarrow> bool" where
  components_nil: "lo \<le> hi \<Longrightarrow> components lo hi []"
| components_text:
    "tok_type t = TCL_TOKEN_TEXT \<or> tok_type t = TCL_TOKEN_BS \<Longrightarrow> lo \<le> tok_start t \<Longrightarrow>
     components (tok_start t + tok_size t) hi ts \<Longrightarrow> components lo hi (t # ts)"
| components_command:
    "tok_type t = TCL_TOKEN_COMMAND \<Longrightarrow> 2 \<le> tok_size t \<Longrightarrow> lo \<le> tok_start t \<Longrightarrow>
     components (tok_start t + tok_size t) hi ts \<Longrightarrow> components lo hi (t # ts)"
| components_variable:
    "tok_type t = TCL_TOKEN_VARIABLE \<Longrightarrow> numComponents t = Suc (length vs) \<Longrightarrow> lo \<le> tok_start t \<Longrightarrow>
     tok_type n = TCL_TOKEN_TEXT \<Longrightarrow> tok_start t \<le> tok_start n \<Longrightarrow>
     components (tok_start n + tok_size n) (tok_start t + tok_size t) vs \<Longrightarrow>
     components (tok_start t + tok_size t) hi ts \<Longrightarrow> components lo hi (t # n # vs @ ts)"

text \<open>
  The tokens of the words of a command: a simple word has one text sub-token, the other words
  have the sub-tokens that follow them.
\<close>

inductive command_words :: "nat \<Rightarrow> nat \<Rightarrow> nat \<Rightarrow> Tcl_Token list \<Rightarrow> bool" where
  command_words_nil: "lo \<le> hi \<Longrightarrow> command_words lo hi 0 []"
| command_words_simple:
    "tok_type t = TCL_TOKEN_SIMPLE_WORD \<Longrightarrow> numComponents t = 1 \<Longrightarrow> lo \<le> tok_start t \<Longrightarrow>
     tok_type c = TCL_TOKEN_TEXT \<Longrightarrow> tok_start t \<le> tok_start c \<Longrightarrow>
     tok_start c + tok_size c \<le> tok_start t + tok_size t \<Longrightarrow>
     command_words (tok_start t + tok_size t) hi m ts \<Longrightarrow> command_words lo hi (Suc m) (t # c # ts)"
| command_words_word:
    "tok_type t = TCL_TOKEN_WORD \<or> tok_type t = TCL_TOKEN_EXPAND_WORD \<Longrightarrow>
     numComponents t = length cs \<Longrightarrow> lo \<le> tok_start t \<Longrightarrow>
     components (tok_start t) (tok_start t + tok_size t) cs \<Longrightarrow>
     command_words (tok_start t + tok_size t) hi m ts \<Longrightarrow> command_words lo hi (Suc m) (t # cs @ ts)"

inductive_cases command_words_0: "command_words lo hi 0 ts"
inductive_cases command_words_Suc: "command_words lo hi (Suc m) ts"

text \<open>
  Tcl's functions on the text \<open>c\<close>: a command that is parsed is a non-empty part at the start of
  the bytes given and its words lie in it; a list element that is found lies between the start
  and the end of the list, in front of the rest.
\<close>

definition tcl_documented :: "tcl \<Rightarrow> string \<Rightarrow> bool" where
  "tcl_documented T c \<longleftrightarrow>
     (\<forall>off n pr. 0 < n \<longrightarrow> off + n \<le> length c \<longrightarrow> Tcl_ParseCommand T c off n = Some pr \<longrightarrow>
        off < commandStart pr + commandSize pr \<and> commandStart pr + commandSize pr \<le> off + n \<and>
        command_words off (commandStart pr + commandSize pr) (numWords pr) (tokenPtr pr)) \<and>
     (\<forall>off n e nx sz. off + n \<le> length c \<longrightarrow> TclFindElement T c off n = Some (e, nx, sz) \<longrightarrow>
        off \<le> nx \<and> nx \<le> off + n \<and>
        (off + n \<le> e \<or> off \<le> e \<and> e + sz \<le> nx \<and> off < nx))"

lemma components_bounds: "components lo hi ts \<Longrightarrow> lo \<le> hi"
  by (induction rule: components.induct) auto

lemma command_words_bounds: "command_words lo hi m ts \<Longrightarrow> lo \<le> hi"
  by (induction rule: command_words.induct) auto

section \<open>Locations and texts\<close>

definition ctx_ok :: "SourceFile \<Rightarrow> addr \<Rightarrow> ParseContext \<Rightarrow> bool" where
  "ctx_ok f a ctx \<longleftrightarrow> ctx_file ctx = f \<and> file_addr ctx = a \<and> well_formed_file f"

lemma location_at_returns:
  assumes "ctx_ok f a ctx" "off \<le> length (contents f)"
  shows "returns (location_at ctx off) (\<lambda>l. sourceFile l = a \<and> loc_offset l = off
    \<and> loc_pos l = pos_of (contents f) off)"
  using assms
  by (simp add: ctx_ok_def location_at_def make_source_location_def OffsetToLineByte_pos_of
      loc_pos_def)

lemma view_at_returns:
  assumes "ctx_ok f a ctx" "off + n \<le> length (contents f)"
  shows "returns (view_at ctx off n) (\<lambda>v. v = View off (take n (drop off (contents f)))
    \<and> length (view_str v) = n)"
  using assms by (auto simp: ctx_ok_def view_at_def make_view_def)

lemma locatedI:
  assumes "sourceFile l = a" "loc_offset l = off" "loc_pos l = pos_of (contents f) off"
    "v = View off (take n (drop off (contents f)))" "off + n \<le> length (contents f)"
  shows "located f a (Word t l v d)"
  using assms by (simp add: located_def)

section \<open>Words\<close>

text \<open>The parser of nested scripts is correct on every text shorter than \<open>L\<close>.\<close>

definition PS_ok :: "tcl \<Rightarrow> SourceFile \<Rightarrow> addr \<Rightarrow> nat \<Rightarrow> script_parser \<Rightarrow> bool" where
  "PS_ok T f a L PS \<longleftrightarrow>
     (\<forall>ctx off n. ctx_ok f a ctx \<longrightarrow> n < L \<longrightarrow> off + n \<le> length (contents f) \<longrightarrow>
        returns (PS ctx off n) (\<lambda>(s, ctx'). ctx' = ctx \<and>
          mirrors T (contents f) off n s \<and> good T f a off (off + n) (words_in_script s) (calls_in_script s)))"

lemma PS_okD:
  "PS_ok T f a L PS \<Longrightarrow> ctx_ok f a ctx \<Longrightarrow> n < L \<Longrightarrow> off + n \<le> length (contents f) \<Longrightarrow>
   returns (PS ctx off n) (\<lambda>(s, ctx'). ctx' = ctx \<and>
     mirrors T (contents f) off n s \<and> good T f a off (off + n) (words_in_script s) (calls_in_script s))"
  unfolding PS_ok_def by blast

text \<open>What parsing the token at index \<open>i\<close> gives: a good word, in the bounds of the token.\<close>

definition word_post ::
  "tcl \<Rightarrow> SourceFile \<Rightarrow> addr \<Rightarrow> nat \<Rightarrow> nat \<Rightarrow> ParseContext \<Rightarrow> nat \<Rightarrow> Word \<times> nat \<times> ParseContext \<Rightarrow> bool"
where
  "word_post T f a lo hi ctx j r \<longleftrightarrow>
     (case r of (w, j', ctx') \<Rightarrow> ctx' = ctx \<and> j' = j \<and>
        good T f a lo hi (words_in w) (calls_in w) \<and> lo \<le> word_off w \<and> word_end w \<le> hi)"

lemma word_post_mono:
  "word_post T f a lo hi ctx j r \<Longrightarrow> lo' \<le> lo \<Longrightarrow> hi \<le> hi' \<Longrightarrow> word_post T f a lo' hi' ctx j r"
  unfolding word_post_def by (auto intro: good_mono)

lemma good_leaf:
  assumes "sourceFile l = a" "loc_offset l = off" "loc_pos l = pos_of (contents f) off"
    "v = View off (take n (drop off (contents f)))" "off + n \<le> length (contents f)"
    "shaped (Word t l v Nothing)"
  shows "good T f a off (off + n) [Word t l v Nothing] []"
  using assms by (auto simp: good_def span_def located_def complete_def)

lemma ParseWord_text_span:
  assumes ctx: "ctx_ok f a ctx" and i: "nth_r (tokenPtr pr) i = Inr t"
    and ty: "tok_type t = TCL_TOKEN_TEXT \<or> tok_type t = TCL_TOKEN_BS"
    and le: "tok_start t + tok_size t \<le> length (contents f)"
  shows "returns (ParseWord PS (Suc k) ctx pr i)
    (\<lambda>r. word_post T f a (tok_start t) (tok_start t + tok_size t) ctx (Suc i) r
       \<and> word_type (fst r) = TEXT \<and> word_span (fst r) = (tok_start t, tok_size t))"
proof -
  let ?post = "\<lambda>r. word_post T f a (tok_start t) (tok_start t + tok_size t) ctx (Suc i) r
       \<and> word_type (fst r) = TEXT \<and> word_span (fst r) = (tok_start t, tok_size t)"
  have "returns (rbind (view_at ctx (tok_start t) (tok_size t)) (\<lambda>text.
         rbind (location_at ctx (tok_start t)) (\<lambda>loc.
         Inr (Word TEXT loc text Nothing, i + 1, ctx)))) ?post"
    using le
    by (intro returns_rbind [OF view_at_returns [OF ctx]] returns_rbind [OF location_at_returns [OF ctx]])
      (auto simp: word_post_def shaped_def word_span_def intro!: good_leaf)
  with ty show ?thesis by (auto simp: i ParseWord.simps(2))
qed

lemma ParseWord_text:
  assumes "ctx_ok f a ctx" "nth_r (tokenPtr pr) i = Inr t"
    and "tok_type t = TCL_TOKEN_TEXT \<or> tok_type t = TCL_TOKEN_BS"
    and "tok_start t + tok_size t \<le> length (contents f)"
  shows "returns (ParseWord PS (Suc k) ctx pr i)
    (\<lambda>r. word_post T f a (tok_start t) (tok_start t + tok_size t) ctx (Suc i) r \<and> word_type (fst r) = TEXT)"
  by (rule returns_mono [OF ParseWord_text_span [where T = T, OF assms]]) simp

lemma parse_components_done:
  "\<not> i < m \<Longrightarrow> parse_components PW k ctx pr i m = Inr ([], i, ctx)"
  by (simp add: parse_components.simps [of PW k])

lemma parse_components_step:
  assumes "i < m" "returns (PW ctx pr i) (\<lambda>(w, j', ctx'). j' = j \<and> ctx' = ctx \<and> P w)"
    and "\<And>w. P w \<Longrightarrow> returns (parse_components PW k ctx pr j m) (\<lambda>(ws, j, ctx). Q (w # ws, j, ctx))"
  shows "returns (parse_components PW (Suc k) ctx pr i m) Q"
  using assms(1)
  by (subst parse_components.simps)
    (auto intro!: returns_rbind [OF assms(2)] returns_rbind [OF assms(3)])

text \<open>The result of a loop over the sub-tokens of a word.\<close>

definition words_post ::
  "tcl \<Rightarrow> SourceFile \<Rightarrow> addr \<Rightarrow> nat \<Rightarrow> nat \<Rightarrow> ParseContext \<Rightarrow> nat \<Rightarrow> Word list \<times> nat \<times> ParseContext \<Rightarrow> bool"
where
  "words_post T f a lo hi ctx j r \<longleftrightarrow>
     (case r of (ws, j', ctx') \<Rightarrow> ctx' = ctx \<and> j' = j \<and>
        good T f a lo hi (concat (map words_in ws)) (concat (map calls_in ws)))"

lemma components_step:
  assumes "i < m" "returns (PW ctx pr i) (word_post T f a lo' mid ctx j)"
    and "returns (parse_components PW k ctx pr j m) (words_post T f a mid hi ctx m)"
    and "lo \<le> lo'" "lo' \<le> mid" "mid \<le> hi"
  shows "returns (parse_components PW (Suc k) ctx pr i m) (words_post T f a lo hi ctx m)"
proof (rule parse_components_step [where j = j and P = "\<lambda>w. good T f a lo' mid (words_in w) (calls_in w)"])
  show "returns (PW ctx pr i) (\<lambda>(w, j', ctx'). j' = j \<and> ctx' = ctx
      \<and> good T f a lo' mid (words_in w) (calls_in w))"
    using assms(2) by (rule returns_mono) (auto simp: word_post_def)
next
  fix w assume "good T f a lo' mid (words_in w) (calls_in w)"
  then have "good T f a lo mid (words_in w) (calls_in w)"
    using assms(4) by (rule good_mono) simp
  then show "returns (parse_components PW k ctx pr j m)
      (\<lambda>(ws, j, ctx'). words_post T f a lo hi ctx m (w # ws, j, ctx'))"
    using assms(3-6)
    by (elim returns_mono) (auto simp: words_post_def intro: good_append)
qed (rule assms(1))

lemma drop_eq_ConsD:
  assumes "drop i xs = y # ys"
  shows "nth_r xs i = Inr y" and "drop (Suc i) xs = ys" and "i < length xs"
proof -
  show "i < length xs" using assms by (metis drop_all list.distinct(1) not_le_imp_less)
  then show "nth_r xs i = Inr y" "drop (Suc i) xs = ys"
    using assms by (simp_all add: take_Suc_drop)
qed

lemma drop_eq_appendD: "drop i xs = ys @ zs \<Longrightarrow> drop (i + length ys) xs = zs"
  by (metis add.commute append_eq_conv_conj drop_drop)

lemma word_post_parent:
  assumes "sourceFile l = a \<and> loc_offset l = off \<and> loc_pos l = pos_of (contents f) off"
    "v = View off (take n (drop off (contents f))) \<and> length (view_str v) = n"
    "off + n \<le> length (contents f)" "shaped (Word t l v d)" "complete T (contents f) (Word t l v d)"
    "good T f a lo hi (words_in_data d) (calls_in_data d)" "off \<le> lo" "hi \<le> off + n"
  shows "word_post T f a off (off + n) ctx j (Word t l v d, j, ctx)"
proof -
  have "located f a (Word t l v d)"
    using assms(1-3) by (auto intro: locatedI)
  moreover have "good T f a off (off + n) (words_in_data d) (calls_in_data d)"
    using assms(6-8) by (rule good_mono)
  ultimately show ?thesis
    using assms(1,2,4,5) by (auto simp: word_post_def intro!: good_Cons)
qed

lemma ParseWord_command:
  assumes ctx: "ctx_ok f a ctx" and PS: "PS_ok T f a L PS" and i: "nth_r (tokenPtr pr) i = Inr t"
    and ty: "tok_type t = TCL_TOKEN_COMMAND" "2 \<le> tok_size t"
    and le: "tok_start t + tok_size t \<le> length (contents f)" "tok_size t \<le> L"
  shows "returns (ParseWord PS (Suc k) ctx pr i)
    (word_post T f a (tok_start t) (tok_start t + tok_size t) ctx (Suc i))"
proof -
  have "returns (rbind (view_at ctx (tok_start t) (tok_size t)) (\<lambda>text.
         rbind (location_at ctx (tok_start t)) (\<lambda>loc.
         rbind (PS ctx (tok_start t + 1) (size_sub (tok_size t) 2)) (\<lambda>(script, ctx).
         Inr (Word SCRIPT loc text (ScriptPtr script), i + 1, ctx)))))
    (word_post T f a (tok_start t) (tok_start t + tok_size t) ctx (Suc i))"
  proof (intro returns_rbind [OF view_at_returns [OF ctx]] returns_rbind [OF location_at_returns [OF ctx]]
        returns_rbind [OF PS_okD [OF PS ctx]], goal_cases)
    case (5 v loc r)
    then have "word_post T f a (tok_start t) (tok_start t + tok_size t) ctx (i + 1)
        (Word SCRIPT loc v (ScriptPtr (fst r)), i + 1, ctx)"
      using le ty(2) by (intro word_post_parent) (auto simp: shaped_def complete_def split_beta)
    with 5 show ?case by (auto simp: split_beta)
  qed (use le ty(2) in auto)
  with ty show ?thesis by (simp add: i ParseWord.simps(2))
qed

text \<open>
  The loop over sub-tokens reads the tokens \<open>ts\<close>, which lie between \<open>lo\<close> and \<open>hi\<close>, wherever they
  stand in the token array and whatever the bounds are, if these are large enough.
\<close>

definition reads ::
  "tcl \<Rightarrow> SourceFile \<Rightarrow> addr \<Rightarrow> script_parser \<Rightarrow> nat \<Rightarrow>
   ParseContext \<Rightarrow> Tcl_Parse \<Rightarrow> nat \<Rightarrow> nat \<Rightarrow> Tcl_Token list \<Rightarrow> bool"
where
  "reads T f a PS L ctx pr lo hi ts \<longleftrightarrow>
     (\<forall>i rest k kk. drop i (tokenPtr pr) = ts @ rest \<longrightarrow> length ts \<le> k \<longrightarrow> length ts \<le> kk \<longrightarrow>
        hi \<le> length (contents f) \<longrightarrow> hi - lo \<le> L \<longrightarrow>
        returns (parse_components (ParseWord PS k) kk ctx pr i (i + length ts))
          (words_post T f a lo hi ctx (i + length ts)))"

lemma readsD:
  "reads T f a PS L ctx pr lo hi ts \<Longrightarrow> drop i (tokenPtr pr) = ts @ rest \<Longrightarrow> length ts \<le> k \<Longrightarrow> length ts \<le> kk \<Longrightarrow>
   hi \<le> length (contents f) \<Longrightarrow> hi - lo \<le> L \<Longrightarrow>
   returns (parse_components (ParseWord PS k) kk ctx pr i (i + length ts)) (words_post T f a lo hi ctx (i + length ts))"
  by (simp add: reads_def)

lemma reads_nil: "reads T f a PS L ctx pr lo hi []"
  by (simp add: reads_def parse_components_done words_post_def)

lemma reads_word:
  assumes word: "\<And>i rest k. drop i (tokenPtr pr) = (u # us) @ rest \<Longrightarrow> length us \<le> k \<Longrightarrow>
      mid \<le> length (contents f) \<Longrightarrow> mid - lo' \<le> L \<Longrightarrow>
      returns (ParseWord PS (Suc k) ctx pr i) (word_post T f a lo' mid ctx (i + length (u # us)))"
    and loop: "reads T f a PS L ctx pr mid hi ts"
    and bounds: "lo \<le> lo'" "lo' \<le> mid" "mid \<le> hi"
  shows "reads T f a PS L ctx pr lo hi (u # us @ ts)"
  unfolding reads_def
proof (intro allI impI)
  fix i rest k kk
  assume d: "drop i (tokenPtr pr) = (u # us @ ts) @ rest" and k: "length (u # us @ ts) \<le> k" "length (u # us @ ts) \<le> kk"
    and hi: "hi \<le> length (contents f)" "hi - lo \<le> L"
  obtain k' kk' where k': "k = Suc k'" "kk = Suc kk'" using k by (cases k; cases kk) auto
  have d': "drop (i + length (u # us)) (tokenPtr pr) = ts @ rest"
    by (rule drop_eq_appendD) (use d in simp)
  show "returns (parse_components (ParseWord PS k) kk ctx pr i (i + length (u # us @ ts)))
      (words_post T f a lo hi ctx (i + length (u # us @ ts)))"
    unfolding k'(2)
  proof (rule components_step [OF _ _ _ bounds])
    show "returns (ParseWord PS k ctx pr i) (word_post T f a lo' mid ctx (i + length (u # us)))"
      unfolding k'(1) by (rule word [of _ "ts @ rest"]) (use d k k' hi bounds in auto)
    show "returns (parse_components (ParseWord PS k) kk' ctx pr (i + length (u # us)) (i + length (u # us @ ts)))
        (words_post T f a mid hi ctx (i + length (u # us @ ts)))"
      using readsD [OF loop d', of k kk'] k k' hi bounds by (simp add: add.assoc)
  qed simp
qed

lemma ParseWord_scalar:
  assumes ctx: "ctx_ok f a ctx" and i: "nth_r (tokenPtr pr) i = Inr t"
    and ty: "tok_type t = TCL_TOKEN_VARIABLE" "numComponents t = 1"
    and name: "returns (ParseWord PS k ctx pr (Suc i))
      (\<lambda>r. word_post T f a (tok_start n) (tok_start n + tok_size n) ctx (Suc (Suc i)) r \<and> word_type (fst r) = TEXT)"
    and le: "tok_start t \<le> tok_start n" "tok_start n + tok_size n \<le> stop"
  shows "returns (ParseWord PS (Suc k) ctx pr i) (word_post T f a (tok_start t) stop ctx (Suc (Suc i)))"
proof -
  have "returns (rbind (ParseWord PS k ctx pr (Suc i)) (\<lambda>(word, nextToken, ctx).
          Inr (set_type VARIABLE word, nextToken, ctx)))
      (word_post T f a (tok_start t) stop ctx (Suc (Suc i)))"
    using le
    by (intro returns_rbind [OF name])
      (auto simp: word_post_def good_def span_def located_def shaped_def complete_def words_in_eq [of "set_type _ _"]
        words_in_eq calls_in_eq)
  then show ?thesis using i ty by (simp add: ParseWord.simps(2))
qed

lemma ParseWord_array:
  assumes ctx: "ctx_ok f a ctx" and i: "nth_r (tokenPtr pr) i = Inr t"
    and ty: "tok_type t = TCL_TOKEN_VARIABLE" "numComponents t \<noteq> 1"
    and name: "returns (ParseWord PS k ctx pr (Suc i))
      (\<lambda>r. word_post T f a (tok_start n) (tok_start n + tok_size n) ctx (Suc (Suc i)) r \<and> word_type (fst r) = TEXT)"
    and index: "returns (parse_components (ParseWord PS k) (numComponents t) ctx pr (Suc (Suc i)) m)
      (words_post T f a (tok_start n + tok_size n) (tok_start t + tok_size t) ctx m)"
    and m: "m = Suc (i + numComponents t)"
    and le: "tok_start t \<le> tok_start n" "tok_start t + tok_size t \<le> length (contents f)"
  shows "returns (ParseWord PS (Suc k) ctx pr i) (word_post T f a (tok_start t) (tok_start t + tok_size t) ctx m)"
proof -
  let ?stop = "tok_start t + tok_size t" and ?nstop = "tok_start n + tok_size n"
  have "returns
     (rbind (view_at ctx (tok_start t) (tok_size t)) (\<lambda>text.
      rbind (location_at ctx (tok_start t)) (\<lambda>loc.
      rbind (ParseWord PS k ctx pr (Suc i)) (\<lambda>(name, nextToken, ctx).
      rbind (check (word_type name = TEXT) Aborted) (\<lambda>_.
      rbind (parse_components (ParseWord PS k) (numComponents t) ctx pr nextToken m) (\<lambda>(index, nextToken, ctx).
      Inr (Word ARRAY_ACCESS loc text (ArrayAccess (word_str name) index), nextToken, ctx)))))))
     (word_post T f a (tok_start t) ?stop ctx m)"
  proof (intro returns_rbind [OF view_at_returns [OF ctx]] returns_rbind [OF location_at_returns [OF ctx]]
      returns_rbind [OF name], goal_cases)
    case (3 v loc r)
    obtain w j c' where r: "r = (w, j, c')" by (cases r)
    have "word_post T f a (tok_start t) ?stop ctx m (Word ARRAY_ACCESS loc v (ArrayAccess (word_str w) ws), m, ctx)"
      if "words_post T f a ?nstop ?stop ctx m (ws, m, ctx)" for ws
      using that 3(1,2) le
      by (intro word_post_parent [where lo = ?nstop and hi = ?stop]) (auto simp: words_post_def shaped_def complete_def)
    then show ?case
      using 3(3) by (auto simp: r word_post_def words_post_def split_beta intro!: returns_rbind [OF index])
  qed (use le in auto)
  then show ?thesis using i ty by (simp add: m Let_def ParseWord.simps(2))
qed

lemma ParseWord_variable:
  assumes ctx: "ctx_ok f a ctx" and ty: "tok_type t = TCL_TOKEN_VARIABLE" "numComponents t = Suc (length vs)"
    and n: "tok_type n = TCL_TOKEN_TEXT" "tok_start t \<le> tok_start n"
      "components (tok_start n + tok_size n) (tok_start t + tok_size t) vs"
    and loop: "reads T f a PS L ctx pr (tok_start n + tok_size n) (tok_start t + tok_size t) vs"
    and d: "drop i (tokenPtr pr) = (t # n # vs) @ rest" "length (n # vs) \<le> k"
    and le: "tok_start t + tok_size t \<le> length (contents f)" "tok_size t \<le> L"
  shows "returns (ParseWord PS (Suc k) ctx pr i)
    (word_post T f a (tok_start t) (tok_start t + tok_size t) ctx (i + length (t # n # vs)))"
proof -
  obtain k' where k: "k = Suc k'" using d(2) by (cases k) auto
  note b = components_bounds [OF n(3)]
  note d1 = drop_eq_ConsD [OF d(1) [unfolded append_Cons]]
  note d2 = drop_eq_ConsD [OF d1(2)]
  have name: "returns (ParseWord PS k ctx pr (Suc i))
      (\<lambda>r. word_post T f a (tok_start n) (tok_start n + tok_size n) ctx (Suc (Suc i)) r \<and> word_type (fst r) = TEXT)"
    unfolding k using b le n(1) by (intro ParseWord_text [OF ctx d2(1)]) auto
  show ?thesis
  proof (cases "vs = []")
    case True
    then show ?thesis using ParseWord_scalar [OF ctx d1(1) ty(1) _ name n(2) b] ty(2) by simp
  next
    case False
    let ?m = "Suc (Suc i) + length vs"
    have "returns (parse_components (ParseWord PS k) (numComponents t) ctx pr (Suc (Suc i)) ?m)
        (words_post T f a (tok_start n + tok_size n) (tok_start t + tok_size t) ctx ?m)"
      by (rule readsD [OF loop d2(2)]) (use d(2) ty(2) le n(2) in auto)
    from ParseWord_array [OF ctx d1(1) ty(1) _ name this _ n(2) le(1)] False ty(2) show ?thesis by simp
  qed
qed

lemma components_reads:
  assumes ctx: "ctx_ok f a ctx" and PS: "PS_ok T f a L PS"
  shows "components lo hi ts \<Longrightarrow> reads T f a PS L ctx pr lo hi ts"
proof (induction rule: components.induct)
  case (components_nil lo hi)
  show ?case by (rule reads_nil)
next
  case (components_text t lo hi ts)
  have "returns (ParseWord PS (Suc k) ctx pr i) (word_post T f a (tok_start t) (tok_start t + tok_size t) ctx (Suc i))"
    if "drop i (tokenPtr pr) = t # rest" "tok_start t + tok_size t \<le> length (contents f)" for i k rest
    by (rule returns_mono [OF ParseWord_text [where T = T, OF ctx drop_eq_ConsD(1) [OF that(1)] components_text.hyps(1) that(2)]]) simp
  then show ?case
    using reads_word [of pr t "[]" "tok_start t + tok_size t" f "tok_start t" L PS ctx T a hi ts lo]
      components_text components_bounds [OF components_text.hyps(3)] by simp
next
  case (components_command t lo hi ts)
  have "returns (ParseWord PS (Suc k) ctx pr i) (word_post T f a (tok_start t) (tok_start t + tok_size t) ctx (Suc i))"
    if "drop i (tokenPtr pr) = t # rest" "tok_start t + tok_size t \<le> length (contents f)" "tok_size t \<le> L" for i k rest
    by (rule ParseWord_command [OF ctx PS drop_eq_ConsD(1) [OF that(1)] components_command.hyps(1,2) that(2,3)])
  then show ?case
    using reads_word [of pr t "[]" "tok_start t + tok_size t" f "tok_start t" L PS ctx T a hi ts lo]
      components_command components_bounds [OF components_command.hyps(4)] by simp
next
  case (components_variable t vs lo n hi ts)
  note word = ParseWord_variable [OF ctx components_variable.hyps(1,2,4-6) components_variable.IH(1)]
  have "reads T f a PS L ctx pr lo hi (t # (n # vs) @ ts)"
    by (rule reads_word [OF _ components_variable.IH(2) components_variable.hyps(3)], rule word)
      (use components_bounds [OF components_variable.hyps(7)] in auto)
  then show ?case by simp
qed

lemma parse_components_returns:
  assumes "ctx_ok f a ctx" "PS_ok T f a L PS" "components lo hi ts" "hi \<le> length (contents f)" "hi - lo \<le> L"
    and "drop i (tokenPtr pr) = ts @ rest" "length ts \<le> k" "length ts \<le> kk"
  shows "returns (parse_components (ParseWord PS k) kk ctx pr i (i + length ts))
    (words_post T f a lo hi ctx (i + length ts))"
  by (rule readsD [OF components_reads [OF assms(1-3)] assms(6-8,4,5)])

end
