(* ===== verification/ParserCorrect.thy ===== *)
theory ParserCorrect
  imports ScriptProps
begin

text \<open>
  The parser returns, on every text, a tree that is well-formed and lies in the text, and leaves
  its context as it found it: the lemmas follow the functions of \<open>Script\<close> from lists of words
  to whole scripts.
\<close>

section \<open>A word of a command\<close>

text \<open>The result of reading the first of the \<open>Suc m\<close> words between \<open>lo\<close> and \<open>hi\<close>.\<close>

definition word_read ::
  "tcl \<Rightarrow> SourceFile \<Rightarrow> addr \<Rightarrow> Tcl_Parse \<Rightarrow> nat \<Rightarrow> nat \<Rightarrow> ParseContext \<Rightarrow> nat \<Rightarrow> nat \<Rightarrow> Word \<times> nat \<times> ParseContext \<Rightarrow> bool"
where
  "word_read T f a pr i hi ctx m lo = (\<lambda>(w, j, ctx'). ctx' = ctx \<and>
     (\<exists>mid. command_words mid hi m (drop j (tokenPtr pr)) \<and>
        good T f a lo mid (words_in w) (calls_in w) \<and> lo \<le> word_off w \<and> word_end w \<le> mid) \<and>
     word_type w \<noteq> LIST \<and> word_spans (drop i (tokenPtr pr)) = word_span w # word_spans (drop j (tokenPtr pr)))"

lemma ParseWord_simple:
  assumes ctx: "ctx_ok f a ctx" and d: "drop i (tokenPtr pr) = t # c # ts"
    and ty: "tok_type t = TCL_TOKEN_SIMPLE_WORD" "numComponents t = 1" "tok_type c = TCL_TOKEN_TEXT"
    and bounds: "lo \<le> tok_start t" "tok_start t \<le> tok_start c"
      "tok_start c + tok_size c \<le> tok_start t + tok_size t"
    and rest: "command_words (tok_start t + tok_size t) hi m ts"
    and hi: "hi \<le> length (contents f)" and k: "length (tokenPtr pr) \<le> k"
  shows "returns (ParseWord PS k ctx pr i) (word_read T f a pr i hi ctx m lo)"
proof -
  note d1 = drop_eq_ConsD [OF d] and d2 = drop_eq_ConsD [OF drop_eq_ConsD(2) [OF d]]
  obtain k' where k': "k = Suc (Suc k')"
    using k d1(3) d2(3) by (cases k; cases "k - 1") auto
  have "returns (ParseWord PS (Suc k') ctx pr (Suc i)) (word_read T f a pr i hi ctx m lo)"
  proof (rule returns_mono [OF ParseWord_text_span [where T = T, OF ctx d2(1)]])
    fix r assume r: "word_post T f a (tok_start c) (tok_start c + tok_size c) ctx (Suc (Suc i)) r
      \<and> word_type (fst r) = TEXT \<and> word_span (fst r) = (tok_start c, tok_size c)"
    then have "word_post T f a lo (tok_start t + tok_size t) ctx (Suc (Suc i)) r"
      using bounds by (auto elim: word_post_mono)
    with rest d d2(2) r ty show "word_read T f a pr i hi ctx m lo r"
      by (auto simp: word_read_def word_post_def)
  qed (use ty bounds command_words_bounds [OF rest] hi in auto)
  with ty d1(1) show ?thesis by (simp add: k' ParseWord.simps(2))
qed

lemma ParseWord_composite:
  assumes ctx: "ctx_ok f a ctx" and PS: "PS_ok T f a L PS" and d: "drop i (tokenPtr pr) = t # cs @ ts"
    and ty: "tok_type t = TCL_TOKEN_WORD \<or> tok_type t = TCL_TOKEN_EXPAND_WORD" "numComponents t = length cs"
    and cs: "lo \<le> tok_start t" "components (tok_start t) (tok_start t + tok_size t) cs"
    and rest: "command_words (tok_start t + tok_size t) hi m ts"
    and hi: "hi \<le> length (contents f)" "hi - lo \<le> L" and k: "length (tokenPtr pr) \<le> k"
  shows "returns (ParseWord PS k ctx pr i) (word_read T f a pr i hi ctx m lo)"
proof -
  note d1 = drop_eq_ConsD [OF d]
  note g = drop_eq_appendD [OF d1(2)] and b = command_words_bounds [OF rest]
  obtain k' where k': "k = Suc k'" using k d1(3) by (cases k) auto
  have "length cs \<le> k'" using k d1(3) arg_cong [OF d1(2), of length] by (simp add: k')
  then have comps: "returns (parse_components (ParseWord PS k') (numComponents t) ctx pr (Suc i)
      (Suc i + numComponents t)) (words_post T f a (tok_start t) (tok_start t + tok_size t) ctx
      (Suc i + numComponents t))"
    unfolding ty(2) using cs b hi
    by (intro parse_components_returns [OF ctx PS _ _ _ d1(2)]) auto
  have "returns
       (rbind (location_at ctx (tok_start t)) (\<lambda>loc.
        rbind (view_at ctx (tok_start t) (tok_size t)) (\<lambda>text.
        rbind (parse_components (ParseWord PS k') (numComponents t) ctx pr (Suc i)
          (Suc i + numComponents t)) (\<lambda>(vec, nextToken, ctx).
        Inr (Word wty loc text (WordVec vec), nextToken, ctx))))) (word_read T f a pr i hi ctx m lo)"
    if wty: "wty = TOKEN_LIST \<or> wty = EXPAND" for wty
  proof (intro returns_rbind [OF location_at_returns [OF ctx]] returns_rbind [OF view_at_returns [OF ctx]]
      returns_rbind [OF comps], goal_cases)
    case (3 loc v r)
    obtain ws j c' where r: "r = (ws, j, c')" by (cases r)
    have "word_post T f a (tok_start t) (tok_start t + tok_size t) ctx j (Word wty loc v (WordVec ws), j, ctx)"
      using 3 wty b hi
      by (intro word_post_parent [where lo = "tok_start t" and hi = "tok_start t + tok_size t"])
        (auto simp: r words_post_def shaped_def complete_def)
    then have "word_post T f a lo (tok_start t + tok_size t) ctx j (Word wty loc v (WordVec ws), j, ctx)"
      using cs(1) by (rule word_post_mono) simp
    moreover have "word_span (Word wty loc v (WordVec ws)) = (tok_start t, tok_size t)"
      using 3(1) conjunct2 [OF 3(2)] by (simp add: word_span_def)
    moreover have "word_spans (drop i (tokenPtr pr)) = (tok_start t, tok_size t) # word_spans ts"
      using d ty by (auto split: list.split)
    ultimately show ?case
      using 3(3) ty(2) rest g wty by (auto simp: word_read_def r words_post_def word_post_def)
  qed (use b hi in auto)
  with ty(1) d1(1) show ?thesis by (auto simp: k' ParseWord.simps(2))
qed

lemma ParseWord_returns:
  assumes "ctx_ok f a ctx" "PS_ok T f a L PS" "command_words lo hi (Suc m) (drop i (tokenPtr pr))"
    and "hi \<le> length (contents f)" "hi - lo \<le> L" "length (tokenPtr pr) \<le> k"
  shows "returns (ParseWord PS k ctx pr i) (\<lambda>(w, j, ctx'). ctx' = ctx \<and>
    (\<exists>mid. command_words mid hi m (drop j (tokenPtr pr)) \<and>
       good T f a lo mid (words_in w) (calls_in w) \<and> lo \<le> word_off w \<and> word_end w \<le> mid) \<and>
    word_type w \<noteq> LIST \<and> word_spans (drop i (tokenPtr pr)) = word_span w # word_spans (drop j (tokenPtr pr)))"
  unfolding word_read_def [symmetric]
  by (rule command_words_Suc [OF assms(3)])
    (rule ParseWord_simple ParseWord_composite; use assms in \<open>assumption | simp\<close>)+

section \<open>Lists\<close>

text \<open>A sequence of text words, one behind the other.\<close>

fun text_seq :: "SourceFile \<Rightarrow> addr \<Rightarrow> nat \<Rightarrow> nat \<Rightarrow> Word list \<Rightarrow> bool" where
  "text_seq f a lo hi [] \<longleftrightarrow> lo \<le> hi"
| "text_seq f a lo hi (w # ws) \<longleftrightarrow>
     word_type w = TEXT \<and> word_data w = Nothing \<and> located f a w \<and> lo \<le> word_off w \<and>
     text_seq f a (word_end w) hi ws"

lemma text_seq_bounds: "text_seq f a lo hi ws \<Longrightarrow> lo \<le> hi"
  by (induction f a lo hi ws rule: text_seq.induct) auto

lemma text_seq_snoc:
  "text_seq f a lo hi ws \<Longrightarrow> hi \<le> word_off w \<Longrightarrow> word_end w \<le> hi' \<Longrightarrow> word_type w = TEXT \<Longrightarrow>
   word_data w = Nothing \<Longrightarrow> located f a w \<Longrightarrow> text_seq f a lo hi' (ws @ [w])"
  by (induction f a lo hi ws rule: text_seq.induct) auto

lemma text_seq_mono: "text_seq f a lo hi ws \<Longrightarrow> hi \<le> hi' \<Longrightarrow> text_seq f a lo hi' ws"
  by (induction f a lo hi ws rule: text_seq.induct) auto

lemma text_seq_mem: "text_seq f a lo hi ws \<Longrightarrow> w \<in> set ws \<Longrightarrow> word_type w = TEXT"
  by (induction f a lo hi ws rule: text_seq.induct) auto

lemma good_text:
  "word_type w = TEXT \<Longrightarrow> word_data w = Nothing \<Longrightarrow> located f a w \<Longrightarrow>
   good T f a (word_off w) (word_end w) (words_in w) (calls_in w)"
  by (simp add: words_in_eq calls_in_eq good_def span_def shaped_def complete_def)

lemma text_seq_good:
  "text_seq f a lo hi ws \<Longrightarrow> good T f a lo hi (concat (map words_in ws)) (concat (map calls_in ws))"
proof (induction f a lo hi ws rule: text_seq.induct)
  case (2 f a lo hi w ws)
  then have "good T f a lo (word_end w) (words_in w) (calls_in w)"
    by (auto intro: good_mono [OF good_text])
  moreover have "word_end w \<le> hi" using 2 by (auto dest: text_seq_bounds)
  ultimately show ?case using 2 by (auto intro: good_append)
qed simp

text \<open>What the loop gives, if the rest of the text is a list: its elements behind those it has.\<close>

definition list_read ::
  "tcl \<Rightarrow> SourceFile \<Rightarrow> addr \<Rightarrow> nat \<Rightarrow> nat \<Rightarrow> nat \<Rightarrow> Word list \<Rightarrow> Word list option \<Rightarrow> bool" where
  "list_read T f a lo off n vec r \<longleftrightarrow>
     (\<forall>ws. r = Some ws \<longrightarrow> text_seq f a lo (off + n) ws \<and>
        (\<exists>es. list_spans T (contents f) off n = Some es \<and> map word_span ws = map word_span vec @ es))"

lemma list_read_step:
  assumes "TclFindElement T (contents f) off n = Some (e, nx, sz)" "e < off + n" "off < nx" "nx \<le> off + n"
    and "word_span w = (e, sz)" "list_read T f a lo nx (off + n - nx) (vec @ [w]) r"
  shows "list_read T f a lo off n vec r"
  using assms(5,6) list_spans_step [OF assms(1-4)] assms(4) by (auto simp: list_read_def)

lemma WordToList_loop_returns:
  assumes ctx: "ctx_ok f a ctx" and T: "tcl_documented T (contents f)"
  shows "n < k \<Longrightarrow> off + n \<le> length (contents f) \<Longrightarrow> text_seq f a lo off vec \<Longrightarrow>
    returns (WordToList_loop T k ctx off n (off + n) vec) (list_read T f a lo off n vec)"
proof (induction k arbitrary: off n vec)
  case (Suc k)
  have c: "contents (ctx_file ctx) = contents f" using ctx by (simp add: ctx_ok_def)
  show ?case
  proof (cases "TclFindElement T (contents f) off n")
    case None
    then show ?thesis by (simp add: WordToList_loop.simps c list_read_def)
  next
    case (Some r)
    obtain e nx sz where r: "r = (e, nx, sz)" by (cases r)
    have doc: "off \<le> nx" "nx \<le> off + n" "off + n \<le> e \<or> off \<le> e \<and> e + sz \<le> nx \<and> off < nx"
      using T Some Suc.prems(2) unfolding tcl_documented_def r by blast+
    show ?thesis
    proof (cases "off + n \<le> e")
      case True
      then show ?thesis
        using Some r c Suc.prems
        by (simp add: WordToList_loop.simps text_seq_mono list_read_def list_spans.simps [of T "contents f" off n])
    next
      case False
      then have el: "off \<le> e" "e + sz \<le> nx" "off < nx" "e < off + n" using doc(3) by auto
      have n': "size_sub n (size_sub nx off) = off + n - nx" using doc(1,2) by simp
      have "returns (rbind (location_at ctx e) (\<lambda>loc. rbind (view_at ctx e sz) (\<lambda>tx.
          WordToList_loop T k ctx nx (off + n - nx) (off + n) (vec @ [Word TEXT loc tx Nothing]))))
        (list_read T f a lo off n vec)"
      proof (intro returns_rbind [OF location_at_returns [OF ctx]] returns_rbind [OF view_at_returns [OF ctx]],
          goal_cases)
        case (3 loc v)
        let ?w = "Word TEXT loc v Nothing"
        have w: "word_span ?w = (e, sz)" using 3 by (auto simp: word_span_def)
        have "text_seq f a lo nx (vec @ [?w])"
          using 3 el doc(2) Suc.prems(2)
          by (intro text_seq_snoc [OF Suc.prems(3)]) (auto intro: locatedI)
        then have "returns (WordToList_loop T k ctx nx (off + n - nx) (nx + (off + n - nx)) (vec @ [?w]))
            (list_read T f a lo nx (off + n - nx) (vec @ [?w]))"
          using doc el Suc.prems by (intro Suc.IH) auto
        with doc(2) show ?case
          by (auto elim!: returns_mono intro: list_read_step [OF Some [unfolded r] el(4,3) doc(2) w])
      qed (use el doc(2) Suc.prems in auto)
      then show ?thesis
        using False by (simp add: WordToList_loop.simps c Some r n')
    qed
  qed
qed simp

lemma WordToList_returns:
  assumes ctx: "ctx_ok f a ctx" and T: "tcl_documented T (contents f)"
    and w: "good T f a lo hi (words_in w) (calls_in w)" "lo \<le> word_off w" "word_end w \<le> hi"
  shows "returns (WordToList T ctx w) (\<lambda>w'. w' = w \<or>
    (\<exists>vec. w' = set_data (WordVec vec) (set_type LIST w) \<and> length vec \<noteq> 1 \<and>
      text_seq f a (word_off w) (word_end w) vec \<and>
      list_spans T (contents f) (word_off w) (length (word_str w)) = Some (map word_span vec)))"
proof -
  have loc: "located f a w" using w(1) by (simp add: words_in_eq [of w] good_def)
  then obtain s where s: "word_text w = View (word_off w) s"
    "word_off w + length s \<le> length (contents f)"
    by (metis located_def view_str.simps(1))
  let ?post = "\<lambda>w'. w' = w \<or> (\<exists>vec. w' = set_data (WordVec vec) (set_type LIST w) \<and>
    length vec \<noteq> 1 \<and> text_seq f a (word_off w) (word_end w) vec \<and>
    list_spans T (contents f) (word_off w) (length (word_str w)) = Some (map word_span vec))"
  have "?post (set_data (WordVec vec) (set_type LIST w))"
    if "length vec \<noteq> 1" "text_seq f a (word_off w) (word_end w) vec"
      "list_spans T (contents f) (word_off w) (length (word_str w)) = Some (map word_span vec)" for vec
    using that by blast
  then show ?thesis
    using s
    by (auto simp: WordToList_def list_read_def split: option.split
        intro!: returns_rbind [OF WordToList_loop_returns [OF ctx T, where lo = "word_off w"]])
qed

lemma LIST_good:
  assumes "good T f a lo hi (words_in w) (calls_in w)" "lo \<le> word_off w" "word_end w \<le> hi"
    "good T f a (word_off w) (word_end w) (concat (map words_in ws)) (concat (map calls_in ws))"
    "length ws \<noteq> 1" "list_all (\<lambda>v. word_type v = TEXT \<or> word_type v = LIST) ws"
    "list_spans T (contents f) (word_off w) (length (word_str w)) = Some (map word_span ws)"
  shows "good T f a lo hi (words_in (set_data (WordVec ws) (set_type LIST w)))
    (calls_in (set_data (WordVec ws) (set_type LIST w)))"
proof -
  have "located f a w" using assms(1) by (simp add: words_in_eq [of w] good_def)
  then have "located f a (set_data (WordVec ws) (set_type LIST w))"
    by (simp add: located_def)
  moreover have "good T f a (word_off w) hi (concat (map words_in ws)) (concat (map calls_in ws))"
    using assms(3,4) by (auto intro: good_mono)
  ultimately show ?thesis
    using assms by (auto simp: shaped_def complete_def words_in_eq calls_in_eq intro!: good_Cons)
qed

lemma WordToList_all_returns:
  assumes ctx: "ctx_ok f a ctx" and T: "tcl_documented T (contents f)"
  shows "text_seq f a lo hi args \<Longrightarrow> returns (WordToList_all T ctx args) (\<lambda>ws. map word_span ws = map word_span args \<and>
    list_all (\<lambda>v. word_type v = TEXT \<or> word_type v = LIST) ws \<and>
    good T f a lo hi (concat (map words_in ws)) (concat (map calls_in ws)))"
proof (induction args arbitrary: lo)
  case (Cons w ws)
  then have w: "word_type w = TEXT" "word_data w = Nothing" "located f a w" "lo \<le> word_off w"
    "text_seq f a (word_end w) hi ws" by auto
  have gw: "good T f a (word_off w) (word_end w) (words_in w) (calls_in w)"
    using w(1-3) by (rule good_text)
  have "returns (WordToList T ctx w) (\<lambda>w'. (word_type w' = TEXT \<or> word_type w' = LIST) \<and> word_span w' = word_span w \<and>
      good T f a (word_off w) (word_end w) (words_in w') (calls_in w'))"
  proof (rule returns_mono [OF WordToList_returns [OF ctx T gw]], goal_cases)
    case (3 w')
    then show ?case
      using w(1) gw by (auto intro!: LIST_good [OF gw] text_seq_good
          simp: list_all_iff dest: text_seq_mem simp del: words_in_set)
  qed simp_all
  then show ?case
    unfolding WordToList_all.simps
  proof (rule returns_rbind)
    fix w' assume w': "(word_type w' = TEXT \<or> word_type w' = LIST) \<and> word_span w' = word_span w \<and>
      good T f a (word_off w) (word_end w) (words_in w') (calls_in w')"
    then have "good T f a lo (word_end w) (words_in w') (calls_in w')"
      using w(4) by (auto elim: good_mono)
    moreover have "word_end w \<le> hi" using w(5) by (rule text_seq_bounds)
    ultimately show "returns (rbind (WordToList_all T ctx ws) (\<lambda>ws. Inr (w' # ws)))
      (\<lambda>us. map word_span us = map word_span (w # ws) \<and> list_all (\<lambda>v. word_type v = TEXT \<or> word_type v = LIST) us \<and>
        good T f a lo hi (concat (map words_in us)) (concat (map calls_in us)))"
      using w(4) w' by (intro returns_rbind [OF Cons.IH [OF w(5)]]) (auto intro: good_append)
  qed
qed (use text_seq_bounds in auto)

section \<open>The closures of \<open>ParseCommand\<close>\<close>

text \<open>
  Between two steps of a command that starts at \<open>off\<close>: \<open>m\<close> of its words are left, they lie
  between \<open>lo\<close> and \<open>hi\<close>, and the words so far are good and lie before \<open>lo\<close>.
\<close>

definition cmd_inv ::
  "tcl \<Rightarrow> SourceFile \<Rightarrow> addr \<Rightarrow> Tcl_Parse \<Rightarrow> nat \<Rightarrow> nat \<Rightarrow> ParseContext \<Rightarrow> nat \<Rightarrow> nat \<Rightarrow> CommandState \<Rightarrow> bool"
where
  "cmd_inv T f a pr off hi ctx m lo st \<longleftrightarrow>
     pctx st = ctx \<and> off \<le> lo \<and> command_words lo hi m (drop (tokenIndex st) (tokenPtr pr)) \<and>
     good T f a off lo (concat (map words_in (words st))) (concat (map calls_in (words st))) \<and>
     length (words st) + m = numWords pr \<and>
     map word_span (words st) @ word_spans (drop (tokenIndex st) (tokenPtr pr)) = word_spans (tokenPtr pr)"

lemma cmd_inv_index:
  "cmd_inv T f a pr off hi ctx (Suc m) lo st \<Longrightarrow> \<not> tokenIndex st \<ge> length (tokenPtr pr)"
  by (auto simp: cmd_inv_def elim: command_words_Suc)

lemma cmd_inv_bounds: "cmd_inv T f a pr off hi ctx m lo st \<Longrightarrow> off \<le> lo \<and> lo \<le> hi"
  by (auto simp: cmd_inv_def dest: command_words_bounds)

lemma cmd_inv_set_ns:
  "cmd_inv T f a pr off hi ctx m lo st \<Longrightarrow>
   cmd_inv T f a pr off hi (ctx\<lparr>cur_ns := n\<rparr>) m lo (set_ns n st)"
  by (auto simp: cmd_inv_def set_ns_def)

lemma ctx_ok_set_ns [simp]: "ctx_ok f a (ctx\<lparr>cur_ns := n\<rparr>) \<longleftrightarrow> ctx_ok f a ctx"
  by (simp add: ctx_ok_def)

lemma cmd_inv_push:
  assumes "cmd_inv T f a pr off hi ctx (Suc m) lo st"
    and "command_words mid hi m (drop j (tokenPtr pr))"
    and "good T f a lo mid (words_in w) (calls_in w)" "lo \<le> mid"
    and "word_spans (drop (tokenIndex st) (tokenPtr pr)) = word_span w # word_spans (drop j (tokenPtr pr))"
  shows "cmd_inv T f a pr off hi ctx m mid (push_word w (st\<lparr>tokenIndex := j, pctx := ctx\<rparr>))"
  using assms by (auto simp: cmd_inv_def push_word_def intro: good_append)

text \<open>A closure that appends one word, which lies behind the words so far.\<close>

definition pushes ::
  "tcl \<Rightarrow> SourceFile \<Rightarrow> addr \<Rightarrow> Tcl_Parse \<Rightarrow> nat \<Rightarrow> nat \<Rightarrow> ParseContext \<Rightarrow> nat \<Rightarrow> nat \<Rightarrow> Word \<times> CommandState \<Rightarrow> bool"
where
  "pushes T f a pr off hi ctx m lo r \<longleftrightarrow>
     (case r of (w, st') \<Rightarrow> \<exists>mid. lo \<le> word_off w \<and> word_end w \<le> mid \<and>
        cmd_inv T f a pr off hi ctx m mid st')"

text \<open>The setting of the steps of one command.\<close>

definition command_ok ::
  "tcl \<Rightarrow> SourceFile \<Rightarrow> addr \<Rightarrow> Tcl_Parse \<Rightarrow> nat \<Rightarrow> nat \<Rightarrow> script_parser \<Rightarrow> word_parser \<Rightarrow> bool"
where
  "command_ok T f a pr off hi PS PW \<longleftrightarrow>
     tcl_documented T (contents f) \<and> PS_ok T f a (hi - off) PS \<and> hi \<le> length (contents f) \<and>
     PW = ParseWord PS (length (tokenPtr pr))"

lemma PW_returns:
  assumes "command_ok T f a pr off hi PS PW" "ctx_ok f a ctx"
    and inv: "cmd_inv T f a pr off hi ctx (Suc m) lo st"
  shows "returns (PW ctx pr (tokenIndex st)) (\<lambda>(w, j, ctx'). ctx' = ctx \<and>
    (\<exists>mid. command_words mid hi m (drop j (tokenPtr pr)) \<and>
       good T f a lo mid (words_in w) (calls_in w) \<and> lo \<le> word_off w \<and> word_end w \<le> mid) \<and>
    word_type w \<noteq> LIST \<and> word_spans (drop (tokenIndex st) (tokenPtr pr)) = word_span w # word_spans (drop j (tokenPtr pr)))"
  using assms(1,2) inv cmd_inv_bounds [OF inv] unfolding command_ok_def
  by (auto intro!: ParseWord_returns [where L = "hi - off"] simp: cmd_inv_def)

lemma parseWord_returns:
  assumes "command_ok T f a pr off hi PS PW" "ctx_ok f a ctx"
    and inv: "cmd_inv T f a pr off hi ctx (Suc m) lo st"
  shows "returns (parseWord PW pr st) (pushes T f a pr off hi ctx m lo)"
proof -
  have "pctx st = ctx" using inv by (simp add: cmd_inv_def)
  then have "parseWord PW pr st = rbind (PW ctx pr (tokenIndex st)) (\<lambda>(w, i, ctx).
           Inr (w, push_word w (st\<lparr>tokenIndex := i, pctx := ctx\<rparr>)))"
    using cmd_inv_index [OF inv] by (simp add: parseWord_def)
  moreover have "returns \<dots> (pushes T f a pr off hi ctx m lo)"
  proof (rule returns_rbind [OF PW_returns [OF assms]], clarify)
    fix w j mid
    assume "command_words mid hi m (drop j (tokenPtr pr))"
      "good T f a lo mid (words_in w) (calls_in w)" "lo \<le> word_off w" "word_end w \<le> mid"
      "word_spans (drop (tokenIndex st) (tokenPtr pr)) = word_span w # word_spans (drop j (tokenPtr pr))"
    then show "returns (Inr (w, push_word w (st\<lparr>tokenIndex := j, pctx := ctx\<rparr>)))
        (pushes T f a pr off hi ctx m lo)"
      by (auto simp: pushes_def intro!: exI [of _ mid] cmd_inv_push [OF inv])
  qed
  ultimately show ?thesis by simp
qed

lemma list_of_lists_returns:
  assumes ctx: "ctx_ok f a ctx" and T: "tcl_documented T (contents f)"
    and g: "good T f a lo hi (words_in w) (calls_in w)" "lo \<le> word_off w" "word_end w \<le> hi"
    and ty: "word_type w \<noteq> LIST"
  shows "returns (list_of_lists T ctx w) (\<lambda>w'. good T f a lo hi (words_in w') (calls_in w') \<and>
    word_location w' = word_location w \<and> word_text w' = word_text w)"
  unfolding list_of_lists_def
proof (rule returns_rbind [OF WordToList_returns [OF ctx T g]], elim disjE exE conjE, goal_cases)
  case (1 w')
  with g ty show ?case by simp
next
  case (2 w' vec)
  have "returns (rbind (WordToList_all T ctx vec) (\<lambda>ps. Inr (set_data (WordVec ps) w')))
    (\<lambda>w'. good T f a lo hi (words_in w') (calls_in w') \<and>
      word_location w' = word_location w \<and> word_text w' = word_text w)"
  proof (rule returns_rbind [OF WordToList_all_returns [OF ctx T 2(3)]], clarify)
    fix ps assume ps: "map word_span ps = map word_span vec" "list_all (\<lambda>v. word_type v = TEXT \<or> word_type v = LIST) ps"
      "good T f a (word_off w) (word_end w) (concat (map words_in ps)) (concat (map calls_in ps))"
    have "set_data (WordVec ps) w' = set_data (WordVec ps) (set_type LIST w)"
      by (simp add: 2(1) set_data_def set_type_def)
    with ps 2(2,4) LIST_good [OF g, of ps] map_eq_imp_length_eq [OF ps(1)]
    show "returns (Inr (set_data (WordVec ps) w')) (\<lambda>w'. good T f a lo hi (words_in w') (calls_in w') \<and>
      word_location w' = word_location w \<and> word_text w' = word_text w)"
      by simp
  qed
  with 2(1) show ?case by (simp add: get_WordVec_def)
qed

lemma parseArgs_returns:
  assumes cmd: "command_ok T f a pr off hi PS PW" and ctx: "ctx_ok f a ctx"
    and inv: "cmd_inv T f a pr off hi ctx (Suc m) lo st"
  shows "returns (parseArgs T PW pr st) (pushes T f a pr off hi ctx m lo)"
proof -
  have T: "tcl_documented T (contents f)" using cmd by (simp add: command_ok_def)
  have "pctx st = ctx" using inv by (simp add: cmd_inv_def)
  then have "parseArgs T PW pr st = rbind (PW ctx pr (tokenIndex st)) (\<lambda>(w, i, ctx).
        rbind (list_of_lists T ctx w) (\<lambda>word.
        Inr (word, push_word word (st\<lparr>tokenIndex := i, pctx := ctx\<rparr>))))"
    using cmd_inv_index [OF inv] by (simp add: parseArgs_def)
  moreover have "returns \<dots> (pushes T f a pr off hi ctx m lo)"
  proof (rule returns_rbind [OF PW_returns [OF cmd ctx inv]], clarify)
    fix w j mid
    assume mid: "command_words mid hi m (drop j (tokenPtr pr))" "word_type w \<noteq> LIST"
      "word_spans (drop (tokenIndex st) (tokenPtr pr)) = word_span w # word_spans (drop j (tokenPtr pr))"
      and g: "good T f a lo mid (words_in w) (calls_in w)" "lo \<le> word_off w" "word_end w \<le> mid"
    show "returns (rbind (list_of_lists T ctx w) (\<lambda>word.
        Inr (word, push_word word (st\<lparr>tokenIndex := j, pctx := ctx\<rparr>)))) (pushes T f a pr off hi ctx m lo)"
      using mid(1,3) g(2,3)
      by (intro returns_rbind [OF list_of_lists_returns [OF ctx T g mid(2)]])
        (auto simp: pushes_def word_span_def intro!: exI [of _ mid] cmd_inv_push [OF inv])
  qed
  ultimately show ?thesis by simp
qed

text \<open>What \<open>parseBody\<close> does with the word it has read.\<close>

definition body_word :: "script_parser \<Rightarrow> ParseContext \<Rightarrow> Word \<Rightarrow> (Word \<times> ParseContext) result" where
  "body_word PS ctx w =
     (if word_type w = TEXT
      then (case word_text w of
              Literal _ \<Rightarrow> Inl Undefined
            | View off s \<Rightarrow>
                rbind (PS ctx off (length s)) (\<lambda>(script, ctx).
                Inr (set_data (ScriptPtr script) (set_type SCRIPT w), ctx)))
      else Inr (w, ctx))"

lemma body_word_returns:
  assumes ctx: "ctx_ok f a ctx" and PS: "PS_ok T f a L PS"
    and g: "good T f a lo mid (words_in w) (calls_in w)" "lo \<le> word_off w" "word_end w \<le> mid" and L: "mid - lo < L"
  shows "returns (body_word PS ctx w) (\<lambda>(w', ctx'). ctx' = ctx \<and> good T f a lo mid (words_in w') (calls_in w') \<and>
    word_location w' = word_location w \<and> word_text w' = word_text w)"
proof (cases "word_type w = TEXT")
  case True
  have loc: "located f a w" using g(1) by (simp add: words_in_eq [of w] good_def)
  then obtain s where s: "word_text w = View (word_off w) s" "word_str w = s"
    "word_off w + length s \<le> length (contents f)"
    by (metis located_def view_str.simps(1))
  have "length s < L" using g(2,3) L by (simp add: s(2))
  note body = PS_okD [OF PS ctx this s(3)]
  have "good T f a lo mid (words_in (set_data (ScriptPtr sc) (set_type SCRIPT w)))
      (calls_in (set_data (ScriptPtr sc) (set_type SCRIPT w)))"
    if "good T f a (word_off w) (word_off w + length s) (words_in_script sc) (calls_in_script sc)"
      "mirrors T (contents f) (word_off w) (length s) sc" for sc
  proof -
    have "good T f a (word_off w) mid (words_in_script sc) (calls_in_script sc)"
      using that(1) g(3) s(2) by (auto elim: good_mono)
    then show ?thesis
      using loc g(2,3) that(2) s(2) by (auto simp: located_def shaped_def complete_def intro!: good_Cons)
  qed
  then show ?thesis
    using True by (auto simp: body_word_def s(1) intro!: returns_rbind [OF body])
qed (use g(1) in \<open>simp add: body_word_def\<close>)

lemma parseBody_returns:
  assumes cmd: "command_ok T f a pr off hi PS PW" and ctx: "ctx_ok f a ctx"
    and inv: "cmd_inv T f a pr off hi ctx (Suc m) lo st" and lt: "off < lo"
  shows "returns (parseBody PS PW pr st) (pushes T f a pr off hi ctx m lo)"
proof -
  have PS: "PS_ok T f a (hi - off) PS" using cmd by (simp add: command_ok_def)
  have "pctx st = ctx" using inv by (simp add: cmd_inv_def)
  then have "parseBody PS PW pr st = rbind (PW ctx pr (tokenIndex st)) (\<lambda>(w, i, ctx).
        rbind (body_word PS ctx w) (\<lambda>(w, ctx).
        Inr (w, push_word w (st\<lparr>tokenIndex := i, pctx := ctx\<rparr>))))"
    using cmd_inv_index [OF inv] by (simp add: parseBody_def body_word_def)
  moreover have "returns \<dots> (pushes T f a pr off hi ctx m lo)"
  proof (rule returns_rbind [OF PW_returns [OF cmd ctx inv]], clarify)
    fix w j mid
    assume mid: "command_words mid hi m (drop j (tokenPtr pr))"
      "word_spans (drop (tokenIndex st) (tokenPtr pr)) = word_span w # word_spans (drop j (tokenPtr pr))"
      and g: "good T f a lo mid (words_in w) (calls_in w)" "lo \<le> word_off w" "word_end w \<le> mid"
    have "mid - lo < hi - off" using command_words_bounds [OF mid(1)] g(2,3) lt by simp
    then show "returns (rbind (body_word PS ctx w) (\<lambda>(w, ctx).
        Inr (w, push_word w (st\<lparr>tokenIndex := j, pctx := ctx\<rparr>)))) (pushes T f a pr off hi ctx m lo)"
      using mid g(2,3)
      by (intro returns_rbind [OF body_word_returns [OF ctx PS g]])
        (auto simp: pushes_def word_span_def intro!: exI [of _ mid] cmd_inv_push [OF inv])
  qed
  ultimately show ?thesis by simp
qed

section \<open>Commands\<close>

text \<open>Between two steps, with \<open>m\<close> words left and at least one character behind the start.\<close>

definition cmd_at ::
  "tcl \<Rightarrow> SourceFile \<Rightarrow> addr \<Rightarrow> Tcl_Parse \<Rightarrow> nat \<Rightarrow> nat \<Rightarrow> ParseContext \<Rightarrow> nat \<Rightarrow> CommandState \<Rightarrow> bool"
where
  "cmd_at T f a pr off hi ctx m st \<longleftrightarrow> (\<exists>lo. off < lo \<and> cmd_inv T f a pr off hi ctx m lo st)"

lemma pushes_at:
  "pushes T f a pr off hi ctx m lo r \<Longrightarrow> off < lo \<Longrightarrow> cmd_at T f a pr off hi ctx m (snd r)"
  by (auto simp: pushes_def cmd_at_def split: prod.splits)
    (metis le_add1 le_trans less_le_trans)

lemma closures_at:
  assumes cmd: "command_ok T f a pr off hi PS PW" and ctx: "ctx_ok f a ctx"
    and at: "cmd_at T f a pr off hi ctx (Suc m) st"
  shows "returns (parseWord PW pr st) (\<lambda>r. cmd_at T f a pr off hi ctx m (snd r))"
    and "returns (parseArgs T PW pr st) (\<lambda>r. cmd_at T f a pr off hi ctx m (snd r))"
    and "returns (parseBody PS PW pr st) (\<lambda>r. cmd_at T f a pr off hi ctx m (snd r))"
proof -
  obtain lo where lo: "off < lo" "cmd_inv T f a pr off hi ctx (Suc m) lo st"
    using at by (auto simp: cmd_at_def)
  show "returns (parseWord PW pr st) (\<lambda>r. cmd_at T f a pr off hi ctx m (snd r))"
    using parseWord_returns [OF cmd ctx lo(2)] lo(1) by (elim returns_mono) (rule pushes_at)
  show "returns (parseArgs T PW pr st) (\<lambda>r. cmd_at T f a pr off hi ctx m (snd r))"
    using parseArgs_returns [OF cmd ctx lo(2)] lo(1) by (elim returns_mono) (rule pushes_at)
  show "returns (parseBody PS PW pr st) (\<lambda>r. cmd_at T f a pr off hi ctx m (snd r))"
    using parseBody_returns [OF cmd ctx lo(2) lo(1)] lo(1) by (elim returns_mono) (rule pushes_at)
qed

lemma cmd_at_set_ns:
  "cmd_at T f a pr off hi ctx m st \<Longrightarrow> cmd_at T f a pr off hi (ctx\<lparr>cur_ns := n\<rparr>) m (set_ns n st)"
  by (auto simp: cmd_at_def intro: cmd_inv_set_ns)

lemma cmd_at_pctx: "cmd_at T f a pr off hi ctx m st \<Longrightarrow> pctx st = ctx"
  by (auto simp: cmd_at_def cmd_inv_def)

text \<open>The body of a procedure or namespace is parsed in its namespace, which is then left.\<close>

lemma in_namespace_returns:
  assumes cmd: "command_ok T f a pr off hi PS PW" and ctx: "ctx_ok f a ctx"
    and at: "cmd_at T f a pr off hi ctx (Suc m) st"
  shows "returns
     (rbind (if word_type name = TEXT
            then rbind (SplitName (word_str name)) (\<lambda>qn. Inr (set_ns (h qn) st))
            else Inr st) (\<lambda>st'.
      rbind (parseBody PS PW pr st') (\<lambda>(_, st'). Inr (set_ns (cur_ns (pctx st)) st'))))
     (cmd_at T f a pr off hi ctx m)"
proof -
  have body: "returns (rbind (parseBody PS PW pr st') (\<lambda>(_, st'). Inr (set_ns (cur_ns ctx) st')))
      (cmd_at T f a pr off hi ctx m)"
    if at': "cmd_at T f a pr off hi (ctx\<lparr>cur_ns := n\<rparr>) (Suc m) st'" for n st'
  proof (rule returns_rbind [OF closures_at(3) [OF cmd _ at']])
    fix r assume "cmd_at T f a pr off hi (ctx\<lparr>cur_ns := n\<rparr>) m (snd r)"
    from cmd_at_set_ns [OF this, of "cur_ns ctx"]
    show "returns (case r of (_, st') \<Rightarrow> Inr (set_ns (cur_ns ctx) st')) (cmd_at T f a pr off hi ctx m)"
      by (simp add: split_beta)
  qed (simp add: ctx)
  obtain qn where qn: "SplitName (word_str name) = Inr qn" by (rule SplitName_total)
  have same: "cmd_at T f a pr off hi (ctx\<lparr>cur_ns := cur_ns ctx\<rparr>) (Suc m) st"
    using at by simp
  show ?thesis
    using body [OF same] body [OF cmd_at_set_ns [OF at]] qn cmd_at_pctx [OF at] by simp
qed

lemma parse_proc_returns:
  assumes cmd: "command_ok T f a pr off hi PS PW" and ctx: "ctx_ok f a ctx"
    and at: "cmd_at T f a pr off hi ctx (Suc (Suc (Suc m))) st"
  shows "returns (parse_proc T PS PW pr st) (cmd_at T f a pr off hi ctx m)"
  unfolding parse_proc_def Let_def split_beta
  by (rule returns_rbind [OF closures_at(1) [OF cmd ctx at]],
      rule returns_rbind [OF closures_at(2) [OF cmd ctx]], assumption,
      rule in_namespace_returns [OF cmd ctx, unfolded split_beta])

lemma parse_namespace_eval_returns:
  assumes cmd: "command_ok T f a pr off hi PS PW" and ctx: "ctx_ok f a ctx"
    and at: "cmd_at T f a pr off hi ctx (Suc (Suc m)) st"
  shows "returns (parse_namespace_eval PS PW pr st) (cmd_at T f a pr off hi ctx m)"
  unfolding parse_namespace_eval_def Let_def split_beta
  by (rule returns_rbind [OF closures_at(1) [OF cmd ctx at]],
      rule in_namespace_returns [OF cmd ctx, unfolded split_beta])

text \<open>The commands with bodies, each behind its first word.\<close>

lemma known_loops_returns:
  assumes cmd: "command_ok T f a pr off hi PS PW" and ctx: "ctx_ok f a ctx" and at: "cmd_at T f a pr off hi ctx m st"
  shows "m = 2 \<Longrightarrow> returns (rbind (parseWord PW pr st) (\<lambda>(_, st).
      rbind (parseBody PS PW pr st) (\<lambda>(_, st). Inr (WHILE, st)))) (\<lambda>r. \<exists>m. cmd_at T f a pr off hi ctx m (snd r))"
    "m = 4 \<Longrightarrow> returns (rbind (parseBody PS PW pr st) (\<lambda>(_, st).
      rbind (parseWord PW pr st) (\<lambda>(_, st).
      rbind (parseBody PS PW pr st) (\<lambda>(_, st).
      rbind (parseBody PS PW pr st) (\<lambda>(_, st). Inr (FOR, st)))))) (\<lambda>r. \<exists>m. cmd_at T f a pr off hi ctx m (snd r))"
    "m = 3 \<Longrightarrow> returns (rbind (parseWord PW pr st) (\<lambda>(_, st).
      rbind (parseWord PW pr st) (\<lambda>(_, st).
      rbind (parseBody PS PW pr st) (\<lambda>(_, st). Inr (FOREACH, st))))) (\<lambda>r. \<exists>m. cmd_at T f a pr off hi ctx m (snd r))"
  using at unfolding split_beta
  by (auto simp: numeral_eq_Suc intro!: returns_rbind [OF closures_at(1) [OF cmd ctx]]
      returns_rbind [OF closures_at(3) [OF cmd ctx]])

lemma known_namespace_returns:
  assumes cmd: "command_ok T f a pr off hi PS PW" and ctx: "ctx_ok f a ctx"
    and at: "cmd_at T f a pr off hi ctx (Suc m) st" and m: "numWords pr = Suc (Suc m)"
  shows "returns (rbind (parseWord PW pr st) (\<lambda>(subCmd, st).
      if word_type subCmd = TEXT \<and> word_str subCmd = ''eval'' \<and> numWords pr = 4
      then rbind (parse_namespace_eval PS PW pr st) (\<lambda>st. Inr (NAMESPACE_EVAL, st))
      else Inr (USER, st))) (\<lambda>r. \<exists>m. cmd_at T f a pr off hi ctx m (snd r))"
  unfolding split_beta
proof (intro returns_rbind [OF closures_at(1) [OF cmd ctx at]] returns_if)
  fix r :: "Word \<times> CommandState"
  assume "cmd_at T f a pr off hi ctx m (snd r)"
    "word_type (fst r) = TEXT \<and> word_str (fst r) = ''eval'' \<and> numWords pr = 4"
  then have "cmd_at T f a pr off hi ctx (Suc (Suc 0)) (snd r)" using m by (simp add: numeral_eq_Suc)
  then show "returns (rbind (parse_namespace_eval PS PW pr (snd r)) (\<lambda>st. Inr (NAMESPACE_EVAL, st)))
      (\<lambda>r. \<exists>m. cmd_at T f a pr off hi ctx m (snd r))"
    by (intro returns_rbind [OF parse_namespace_eval_returns [OF cmd ctx]]) auto
qed auto

lemma parse_known_returns:
  assumes cmd: "command_ok T f a pr off hi PS PW" and ctx: "ctx_ok f a ctx"
    and m: "numWords pr = Suc m" and inv: "cmd_inv T f a pr off hi ctx m mid st"
    and w: "off + length (word_str w) \<le> mid"
  shows "returns (parse_known T PS PW pr w st) (\<lambda>r. \<exists>m' lo. cmd_inv T f a pr off hi ctx m' lo (snd r))"
    (is "returns _ ?post")
proof -
  have at: "cmd_at T f a pr off hi ctx m st" if "word_str w \<noteq> []"
    using that inv w unfolding cmd_at_def
    by (intro exI [of _ mid]) (simp flip: length_greater_0_conv)
  have at_post: "returns r ?post" if "returns r (\<lambda>r. \<exists>m. cmd_at T f a pr off hi ctx m (snd r))" for r
    using that by (rule returns_mono) (auto simp: cmd_at_def)
  have proc: "returns (rbind (parse_proc T PS PW pr st) (\<lambda>st. Inr (PROC, st))) ?post"
    if "word_str w = ''proc'' \<and> numWords pr = 4"
    using that at m by (intro at_post returns_rbind [OF parse_proc_returns [OF cmd ctx]]) (auto simp: numeral_eq_Suc)
  note loops = at_post [OF known_loops_returns(1) [OF cmd ctx at]] at_post [OF known_loops_returns(2) [OF cmd ctx at]]
    at_post [OF known_loops_returns(3) [OF cmd ctx at]]
  have namespace: "returns (rbind (parseWord PW pr st) (\<lambda>(subCmd, st).
          if word_type subCmd = TEXT \<and> word_str subCmd = ''eval'' \<and> numWords pr = 4
          then rbind (parse_namespace_eval PS PW pr st) (\<lambda>st. Inr (NAMESPACE_EVAL, st))
          else Inr (USER, st))) ?post"
    if "word_str w = ''namespace'' \<and> numWords pr > 1"
    using that at m by (intro at_post [OF known_namespace_returns [OF cmd ctx, where m = "m - 1"]]) auto
  have user: "returns (Inr (USER, st)) ?post" using inv by auto
  show ?thesis
    unfolding parse_known_def
    by (intro returns_if) (erule proc namespace | rule user | (rule loops; simp add: m))+
qed

text \<open>The closures only append to the words, so that the first two of them decide the type.\<close>

lemma closures_append:
  "parseWord PW pr st = Inr (w, st') \<Longrightarrow> words st' = words st @ [w]"
  "parseArgs T PW pr st = Inr (w, st') \<Longrightarrow> words st' = words st @ [w]"
  "parseBody PS PW pr st = Inr (w, st') \<Longrightarrow> words st' = words st @ [w]"
  by (auto simp: parseWord_def parseArgs_def parseBody_def push_word_def rbind_Inr_iff split: if_splits)

lemma parseBody_parses:
  assumes "parseBody PS PW pr st = Inr (w, st')"
  shows "words st' = words st @ [w] \<and> word_type w \<noteq> TEXT"
proof -
  have "word_type (set_data d (set_type SCRIPT u)) = SCRIPT" for d u by simp
  with assms show ?thesis
    by (auto simp: parseBody_def push_word_def error_word_def rbind_Inr_iff split: if_splits string_view.splits
        dest!: arg_cong [where f = word_type])
qed

lemmas appended = closures_append(1,2) parseBody_parses

lemma definitions_append:
  "parse_proc T PS PW pr st = Inr st' \<Longrightarrow> \<exists>n as b. words st' = words st @ [n, as, b] \<and> word_type b \<noteq> TEXT"
  "parse_namespace_eval PS PW pr st = Inr st' \<Longrightarrow> \<exists>n b. words st' = words st @ [n, b] \<and> word_type b \<noteq> TEXT"
  by (auto simp: parse_proc_def parse_namespace_eval_def set_ns_def rbind_Inr_iff Let_def
      dest!: appended split: if_splits)

lemma parse_known_kind:
  assumes "parse_known T PS PW pr w st = Inr (ty, st')" "words st = [w]"
  shows "\<exists>vs. words st' = w # vs \<and>
    (\<forall>us. ty = call_kind (w # vs @ us) (numWords pr) \<and> bodies_parsed ty (w # vs @ us))"
  using assms unfolding parse_known_def
  by (auto simp: call_kind_def bodies_parsed_def body_places_def eval_nat_numeral rbind_Inr_iff
      dest!: appended definitions_append split: if_splits)

lemma command_words_length: "command_words lo hi m ts \<Longrightarrow> m \<le> length ts"
  by (induction rule: command_words.induct) auto

lemma rest_returns:
  assumes ctx: "ctx_ok f a ctx" and PS: "PS_ok T f a L PS" and hi: "hi \<le> length (contents f)"
    and k: "length (tokenPtr pr) \<le> k"
  shows "command_words lo hi m (drop i (tokenPtr pr)) \<Longrightarrow> hi - lo \<le> L \<Longrightarrow> m \<le> kk \<Longrightarrow>
    returns (parse_components (ParseWord PS k) kk ctx pr i (length (tokenPtr pr)))
      (\<lambda>(ws, j, ctx'). ctx' = ctx \<and> length ws = m \<and> map word_span ws = word_spans (drop i (tokenPtr pr)) \<and>
        good T f a lo hi (concat (map words_in ws)) (concat (map calls_in ws)))"
proof (induction m arbitrary: lo i kk)
  case 0
  then have "drop i (tokenPtr pr) = []" by (auto elim: command_words_0)
  with 0 show ?case by (simp add: parse_components_done)
next
  case (Suc m)
  then obtain kk' where kk: "kk = Suc kk'" by (cases kk) auto
  have "drop i (tokenPtr pr) \<noteq> []"
    using command_words_length [OF Suc.prems(1)] by auto
  then have i: "i < length (tokenPtr pr)" by simp
  note step = ParseWord_returns [OF ctx PS Suc.prems(1) hi Suc.prems(2) k]
  have "returns (rbind (ParseWord PS k ctx pr i) (\<lambda>(w, nextToken, ctx).
                rbind (parse_components (ParseWord PS k) kk' ctx pr nextToken (length (tokenPtr pr)))
                  (\<lambda>(ws, nextToken, ctx). Inr (w # ws, nextToken, ctx))))
    (\<lambda>(ws, j, ctx'). ctx' = ctx \<and> length ws = Suc m \<and> map word_span ws = word_spans (drop i (tokenPtr pr)) \<and>
        good T f a lo hi (concat (map words_in ws)) (concat (map calls_in ws)))"
  proof (rule returns_rbind [OF step], clarify)
    fix w j mid
    assume mid: "command_words mid hi m (drop j (tokenPtr pr))"
      and spans: "word_spans (drop i (tokenPtr pr)) = word_span w # word_spans (drop j (tokenPtr pr))"
      and g: "good T f a lo mid (words_in w) (calls_in w)" "lo \<le> word_off w" "word_end w \<le> mid"
    have b: "lo \<le> mid" "mid \<le> hi" using g mid by (auto dest: command_words_bounds)
    then show "returns (rbind (parse_components (ParseWord PS k) kk' ctx pr j (length (tokenPtr pr)))
                  (\<lambda>(ws, nextToken, ctx). Inr (w # ws, nextToken, ctx)))
      (\<lambda>(ws, j, ctx'). ctx' = ctx \<and> length ws = Suc m \<and> map word_span ws = word_spans (drop i (tokenPtr pr)) \<and>
        good T f a lo hi (concat (map words_in ws)) (concat (map calls_in ws)))"
      using Suc.prems(2,3) g(1)
      by (intro returns_rbind [OF Suc.IH [OF mid]]) (auto simp: kk spans intro: good_append)
  qed
  with i show ?case
    by (simp add: kk parse_components.simps [of _ "Suc kk'"])
qed

text \<open>The end of a command: the remaining words are read and the call is appended.\<close>

lemma finish_command_returns:
  assumes ctx: "ctx_ok f a ctx" and PS: "PS_ok T f a (hi - off) PS" and hi: "hi \<le> length (contents f)"
    and PW: "PW = ParseWord PS (length (tokenPtr pr))"
    and s: "good T f a lo off (words_in_script s) (calls_in_script s)" "lo \<le> off"
    and ty: "\<forall>us. ty = call_kind (words st @ us) (numWords pr) \<and> bodies_parsed ty (words st @ us)"
      "words st \<noteq> []"
    and inv: "cmd_inv T f a pr off hi ctx m' lo' st"
  shows "returns (rbind (parseRest PW pr st) (\<lambda>st.
      Inr (Script (script_location s) (commands s @ [Call ty (words st) (cur_ns ctx)]), pctx st)))
    (\<lambda>(s', ctx'). ctx' = ctx \<and> script_location s' = script_location s \<and>
      map call_spans (commands s') = map call_spans (commands s) @ [word_spans (tokenPtr pr)] \<and>
      good T f a lo hi (words_in_script s') (calls_in_script s'))"
proof -
  have i: "pctx st = ctx" "off \<le> lo'" "command_words lo' hi m' (drop (tokenIndex st) (tokenPtr pr))"
    "good T f a off lo' (concat (map words_in (words st))) (concat (map calls_in (words st)))"
    "length (words st) + m' = numWords pr" "lo' \<le> hi"
    "map word_span (words st) @ word_spans (drop (tokenIndex st) (tokenPtr pr)) = word_spans (tokenPtr pr)"
    using inv cmd_inv_bounds [OF inv] by (auto simp: cmd_inv_def)
  have m': "m' \<le> length (tokenPtr pr)"
    using command_words_length [OF i(3)] by simp
  have "returns (parseRest PW pr st) (\<lambda>st'. pctx st' = ctx \<and> length (words st') = numWords pr \<and>
      (\<exists>us. words st' = words st @ us) \<and> map word_span (words st') = word_spans (tokenPtr pr) \<and>
      good T f a off hi (concat (map words_in (words st'))) (concat (map calls_in (words st'))))"
    unfolding parseRest_def PW i(1) using i m'
    by (intro returns_rbind [OF rest_returns [OF ctx PS hi _ i(3)]]) (auto intro: good_append)
  then show ?thesis
  proof (rule returns_rbind, clarify)
    fix st' us assume st': "length (words st') = numWords pr" "ctx = pctx st'"
      "good T f a off hi (concat (map words_in (words st'))) (concat (map calls_in (words st')))"
      and us: "words st' = words st @ us" "map word_span (words st') = word_spans (tokenPtr pr)"
    have "parsed_call (Call ty (words st') (cur_ns ctx))"
      using ty st'(1) by (simp add: parsed_call_def shaped_call_def us(1))
    with st'(3) have "good T f a off hi (words_in_call (Call ty (words st') (cur_ns ctx)))
        (calls_in_call (Call ty (words st') (cur_ns ctx)))"
      by (auto simp: good_def)
    then have "good T f a lo hi (words_in_script s @ words_in_call (Call ty (words st') (cur_ns ctx)))
        (calls_in_script s @ calls_in_call (Call ty (words st') (cur_ns ctx)))"
      using s i(2,6) by (auto intro: good_append)
    then show "returns (Inr (Script (script_location s)
        (commands s @ [Call ty (words st') (cur_ns (pctx st'))]), pctx st'))
        (\<lambda>(s', ctx'). ctx' = pctx st' \<and> script_location s' = script_location s \<and>
          map call_spans (commands s') = map call_spans (commands s) @ [word_spans (tokenPtr pr)] \<and>
          good T f a lo hi (words_in_script s') (calls_in_script s'))"
      by (cases s) (simp add: st'(2) us(2))
  qed
qed

lemma after_first_word:
  assumes ctx: "ctx_ok f a ctx" and cmd: "command_ok T f a pr off hi PS PW" and m: "numWords pr = Suc m"
    and s: "good T f a lo off (words_in_script s) (calls_in_script s)" "lo \<le> off"
    and inv: "cmd_inv T f a pr off hi ctx m mid st" "words st = [w]" "off + length (word_str w) \<le> mid"
  shows "returns (rbind (parse_known T PS PW pr w st) (\<lambda>(ty, st).
      rbind (parseRest PW pr st) (\<lambda>st.
      Inr (Script (script_location s) (commands s @ [Call ty (words st) (cur_ns ctx)]), pctx st))))
    (\<lambda>(s', ctx'). ctx' = ctx \<and> script_location s' = script_location s \<and>
      map call_spans (commands s') = map call_spans (commands s) @ [word_spans (tokenPtr pr)] \<and>
      good T f a lo hi (words_in_script s') (calls_in_script s'))"
proof (rule returns_rbind_Inr [OF parse_known_returns [OF cmd ctx m inv(1,3)]])
  fix r assume r: "parse_known T PS PW pr w st = Inr r" "\<exists>m' lo. cmd_inv T f a pr off hi ctx m' lo (snd r)"
  then obtain vs where "words (snd r) = w # vs" 
    "\<forall>us. fst r = call_kind (w # vs @ us) (numWords pr) \<and> bodies_parsed (fst r) (w # vs @ us)"
    using parse_known_kind [of T PS PW pr w st "fst r" "snd r"] inv(2) by auto
  with r(2) cmd show "returns (case r of (ty, st) \<Rightarrow>
      rbind (parseRest PW pr st) (\<lambda>st.
      Inr (Script (script_location s) (commands s @ [Call ty (words st) (cur_ns ctx)]), pctx st)))
    (\<lambda>(s', ctx'). ctx' = ctx \<and> script_location s' = script_location s \<and>
      map call_spans (commands s') = map call_spans (commands s) @ [word_spans (tokenPtr pr)] \<and>
      good T f a lo hi (words_in_script s') (calls_in_script s'))"
    by (auto simp: split_beta command_ok_def intro!: finish_command_returns [OF ctx _ _ _ s])
qed

lemma ParseCommand_returns:
  assumes ctx: "ctx_ok f a ctx" and T: "tcl_documented T (contents f)"
    and PS: "PS_ok T f a (hi - off) PS" and hi: "hi \<le> length (contents f)"
    and cw: "command_words off hi (numWords pr) (tokenPtr pr)"
    and s: "good T f a lo off (words_in_script s) (calls_in_script s)" "lo \<le> off"
  shows "returns (ParseCommand T PS ctx pr s) (\<lambda>(s', ctx'). ctx' = ctx \<and>
    script_location s' = script_location s \<and>
    map call_spans (commands s') = map call_spans (commands s) @ (if numWords pr = 0 then [] else [word_spans (tokenPtr pr)]) \<and>
    good T f a lo hi (words_in_script s') (calls_in_script s'))"
proof (cases "numWords pr")
  case 0
  have "off \<le> hi" using cw by (rule command_words_bounds)
  with 0 s show ?thesis by (auto simp: ParseCommand_def intro: good_mono)
next
  case (Suc m)
  define PW where "PW = ParseWord PS (length (tokenPtr pr))"
  define st0 where "st0 = \<lparr>words = [], tokenIndex = 0, pctx = ctx\<rparr>"
  have cmd: "command_ok T f a pr off hi PS PW"
    using T PS hi by (simp add: command_ok_def PW_def)
  have inv0: "cmd_inv T f a pr off hi ctx (Suc m) off st0"
    using cw by (simp add: cmd_inv_def Suc st0_def)
  have "returns (rbind (parseWord PW pr st0) (\<lambda>(cmdWord, st).
        rbind (parse_known T PS PW pr cmdWord st) (\<lambda>(ty, st).
        rbind (parseRest PW pr st) (\<lambda>st.
        Inr (Script (script_location s) (commands s @ [Call ty (words st) (cur_ns ctx)]), pctx st)))))
    (\<lambda>(s', ctx'). ctx' = ctx \<and> script_location s' = script_location s \<and>
      map call_spans (commands s') = map call_spans (commands s) @ [word_spans (tokenPtr pr)] \<and>
      good T f a lo hi (words_in_script s') (calls_in_script s'))"
  proof (rule returns_rbind_Inr [OF parseWord_returns [OF cmd ctx inv0]], clarify)
    fix w st assume st: "parseWord PW pr st0 = Inr (w, st)" "pushes T f a pr off hi ctx m off (w, st)"
    then have "words st = [w]" using closures_append(1) [OF st(1)] by (simp add: st0_def)
    with st(2) show "returns (rbind (parse_known T PS PW pr w st) (\<lambda>(ty, st).
        rbind (parseRest PW pr st) (\<lambda>st.
        Inr (Script (script_location s) (commands s @ [Call ty (words st) (cur_ns ctx)]), pctx st))))
      (\<lambda>(s', ctx'). ctx' = ctx \<and> script_location s' = script_location s \<and>
        map call_spans (commands s') = map call_spans (commands s) @ [word_spans (tokenPtr pr)] \<and>
        good T f a lo hi (words_in_script s') (calls_in_script s'))"
      by (auto simp: pushes_def intro!: after_first_word [OF ctx cmd Suc s])
  qed
  then show ?thesis
    by (simp add: ParseCommand_def Suc Let_def PW_def st0_def)
qed

section \<open>Scripts\<close>

lemma PS_ok_mono: "PS_ok T f a L PS \<Longrightarrow> L' \<le> L \<Longrightarrow> PS_ok T f a L' PS"
  unfolding PS_ok_def by (meson less_le_trans)

text \<open>What the loop makes of a script: the commands it reads in the rest of the text are added.\<close>

definition script_read ::
  "tcl \<Rightarrow> SourceFile \<Rightarrow> addr \<Rightarrow> ParseContext \<Rightarrow> nat \<Rightarrow> nat \<Rightarrow> nat \<Rightarrow> Script \<Rightarrow> Script \<times> ParseContext \<Rightarrow> bool" where
  "script_read T f a ctx lo off n s r \<longleftrightarrow>
     (case r of (s', ctx') \<Rightarrow> ctx' = ctx \<and> script_location s' = script_location s \<and>
        map call_spans (commands s') = map call_spans (commands s) @ command_spans T (contents f) off n \<and>
        good T f a lo (off + n) (words_in_script s') (calls_in_script s'))"

lemma ParseScript_loop_returns:
  assumes ctx: "ctx_ok f a ctx" and T: "tcl_documented T (contents f)"
    and PS: "PS_ok T f a L PS"
  shows "n \<le> k \<Longrightarrow> n \<le> L \<Longrightarrow> off + n \<le> length (contents f) \<Longrightarrow>
    good T f a lo off (words_in_script s) (calls_in_script s) \<Longrightarrow> lo \<le> off \<Longrightarrow>
    returns (ParseScript_loop T PS k ctx off n s) (script_read T f a ctx lo off n s)"
proof (induction k arbitrary: off n s)
  case 0
  then show ?case by (simp add: ParseScript_loop.simps command_spans.simps script_read_def)
next
  case (Suc k)
  have c: "contents (ctx_file ctx) = contents f" using ctx by (simp add: ctx_ok_def)
  have ext: "good T f a lo (off + n) (words_in_script s) (calls_in_script s)"
    using Suc.prems(4) by (rule good_mono) simp_all
  show ?case
  proof (cases "n > 0 \<and> Tcl_ParseCommand T (contents f) off n \<noteq> None")
    case False
    with ext show ?thesis
      by (auto simp: ParseScript_loop.simps [of _ _ "Suc k"] c script_read_def
          command_spans.simps [of T "contents f" off n])
  next
    case True
    then obtain pr where n: "n > 0" and pr: "Tcl_ParseCommand T (contents f) off n = Some pr" by auto
    let ?e = "commandStart pr + commandSize pr"
    have doc: "off < ?e" "?e \<le> off + n" "command_words off ?e (numWords pr) (tokenPtr pr)"
      using T n Suc.prems(3) pr unfolding tcl_documented_def by blast+
    have "PS_ok T f a (?e - off) PS"
      using PS Suc.prems(2) doc(2) by (auto intro: PS_ok_mono)
    note parsed = ParseCommand_returns [OF ctx T this _ doc(3) Suc.prems(4,5)]
    note spans = command_spans_step [OF pr n doc(1,2)]
    have "returns (rbind (ParseCommand T PS ctx pr s) (\<lambda>(s, ctx).
            rbind (check (off + n \<ge> ?e) Aborted) (\<lambda>_.
            ParseScript_loop T PS k ctx ?e (off + n - ?e) s)))
        (script_read T f a ctx lo off n s)"
    proof (rule returns_rbind [OF parsed], goal_cases)
      case (2 r)
      then have "returns (ParseScript_loop T PS k ctx ?e (off + n - ?e) (fst r))
        (script_read T f a ctx lo ?e (off + n - ?e) (fst r))"
        using doc(1,2) Suc.prems by (intro Suc.IH) (auto simp: split_beta)
      with 2 doc(2) show ?case by (auto simp: split_beta spans script_read_def elim!: returns_mono)
    qed (use doc Suc.prems in simp)
    then show ?thesis
      by (simp add: ParseScript_loop.simps [of _ _ "Suc k"] n c pr Let_def)
  qed
qed

lemma ParseScript_PS_ok:
  assumes "tcl_documented T (contents f)"
  shows "PS_ok T f a k (ParseScript T k)"
proof (induction k)
  case 0
  show ?case by (simp add: PS_ok_def)
next
  case (Suc k)
  show ?case
    unfolding PS_ok_def
  proof (intro allI impI)
    fix ctx off n
    assume ctx: "ctx_ok f a ctx" and n: "n < Suc k" "off + n \<le> length (contents f)"
    show "returns (ParseScript T (Suc k) ctx off n) (\<lambda>(s, ctx'). ctx' = ctx \<and>
        mirrors T (contents f) off n s \<and> good T f a off (off + n) (words_in_script s) (calls_in_script s))"
      unfolding ParseScript.simps
    proof (rule returns_rbind [OF location_at_returns [OF ctx]])
      fix l assume l: "sourceFile l = a \<and> loc_offset l = off \<and> loc_pos l = pos_of (contents f) off"
      show "returns (ParseScript_loop T (ParseScript T k) n ctx off n (Script l []))
          (\<lambda>(s, ctx'). ctx' = ctx \<and> mirrors T (contents f) off n s \<and> good T f a off (off + n) (words_in_script s) (calls_in_script s))"
        using n l
        by (intro returns_mono [OF ParseScript_loop_returns [OF ctx assms Suc.IH, where lo = off]])
          (auto simp: mirrors_def script_read_def)
    qed (use n in simp)
  qed
qed

text \<open>A whole file.\<close>

lemma parse_file_returns:
  assumes "ctx_ok f a ctx" "tcl_documented T (contents f)"
  shows "returns (parse_file T ctx) (\<lambda>(s, ctx'). ctx' = ctx \<and>
    mirrors T (contents f) 0 (length (contents f)) s \<and>
    good T f a 0 (length (contents f)) (words_in_script s) (calls_in_script s))"
proof -
  have "ctx_file ctx = f" using assms(1) by (simp add: ctx_ok_def)
  then show ?thesis
    using PS_okD [OF ParseScript_PS_ok [OF assms(2), of a "Suc (length (contents f))"] assms(1),
        of "length (contents f)" 0]
    by (simp add: parse_file_def)
qed

end
