(* ===== verification/DB.thy ===== *)
theory DB
  imports Prelude
begin

text \<open>
  Model of \<open>src/src/analyzer/db.cpp\<close>: tables of rows with an identifier, an index of the rows
  by name, and a list of references with an index by the identifier they refer to. The class
  templates are polymorphic definitions whose first arguments access the members \<open>id\<close> and
  \<open>name\<close> of the row.
\<close>

section \<open>Multimaps\<close>

text \<open>
  A \<open>std::multimap\<close> is the list of its entries in iteration order: sorted by key, entries with
  equal keys in the order of their insertion (\<open>emplace\<close> inserts at the upper bound).
\<close>

fun mm_emplace :: "'k::linorder \<Rightarrow> 'v \<Rightarrow> ('k \<times> 'v) list \<Rightarrow> ('k \<times> 'v) list" where
  "mm_emplace k v [] = [(k, v)]"
| "mm_emplace k v (e # m) = (if k < fst e then (k, v) # e # m else e # mm_emplace k v m)"

definition mm_equal_range :: "'k::linorder \<Rightarrow> ('k \<times> 'v) list \<Rightarrow> ('k \<times> 'v) list" where
  "mm_equal_range k m = takeWhile (\<lambda>e. \<not> k < fst e) (dropWhile (\<lambda>e. fst e < k) m)"

text \<open>The specification of a multimap: what was inserted, sorted by key, stably.\<close>

lemma mm_emplace_split:
  "mm_emplace k v m = takeWhile (\<lambda>e. \<not> k < fst e) m @ (k, v) # dropWhile (\<lambda>e. \<not> k < fst e) m"
  by (induction m) auto

lemma mm_emplace_keys: "set (map fst (mm_emplace k v m)) = insert k (set (map fst m))"
  by (induction m) auto

lemma mm_emplace_sorted: "sorted (map fst m) \<Longrightarrow> sorted (map fst (mm_emplace k v m))"
proof (induction m)
  case (Cons e m)
  then show ?case using mm_emplace_keys [of k v m] by auto
qed simp

lemma mm_emplace_filter:
  "sorted (map fst m) \<Longrightarrow> filter (\<lambda>x. c = fst x) (mm_emplace k v m)
     = filter (\<lambda>x. c = fst x) m @ filter (\<lambda>x. c = fst x) [(k, v)]"
proof (induction m)
  case (Cons e m)
  then have "k < fst e \<Longrightarrow> filter (\<lambda>x. k = fst x) m = []"
    by (auto simp: filter_empty_conv)
  with Cons show ?case by auto
qed simp

lemma mm_emplace_insort:
  "mm_emplace k v (sort_key fst xs) = sort_key fst (xs @ [(k, v)])"
proof -
  let ?m = "sort_key fst xs"
  have "sort_key fst (xs @ [(k, v)]) = mm_emplace k v ?m"
  proof (rule properties_for_sort_key)
    have "mset ?m = mset (takeWhile (\<lambda>e. \<not> k < fst e) ?m) + mset (dropWhile (\<lambda>e. \<not> k < fst e) ?m)"
      by (metis mset_append takeWhile_dropWhile_id)
    then show "mset (mm_emplace k v ?m) = mset (xs @ [(k, v)])"
      by (simp add: mm_emplace_split)
    show "sorted (map fst (mm_emplace k v ?m))" by (rule mm_emplace_sorted) simp
    show "filter (\<lambda>x. fst a = fst x) (mm_emplace k v ?m) = filter (\<lambda>x. fst a = fst x) (xs @ [(k, v)])"
      for a
      using filter_sort [of "\<lambda>x. fst a = fst x" fst xs] mm_emplace_filter [of ?m "fst a" k v]
      by (simp add: eq_commute [of "fst a"] sort_key_stable)
  qed
  then show ?thesis by simp
qed

lemma mm_equal_range_filter:
  assumes "sorted (map fst m)"
  shows "mm_equal_range k m = filter (\<lambda>e. fst e = k) m"
  using assms
proof (induction m)
  case (Cons e m)
  then have IH: "mm_equal_range k m = filter (\<lambda>e. fst e = k) m" by simp
  consider "fst e < k" | "fst e = k" | "k < fst e" by (metis linorder_neqE)
  then show ?case
  proof cases
    case 1
    with IH show ?thesis by (simp add: mm_equal_range_def)
  next
    case 2
    with Cons.prems have "dropWhile (\<lambda>e. fst e < k) m = m"
      by (cases m) (auto simp: not_less)
    with 2 IH show ?thesis by (simp add: mm_equal_range_def)
  next
    case 3
    with Cons.prems have "filter (\<lambda>e. fst e = k) m = []"
      by (auto simp: filter_empty_conv)
    with 3 show ?thesis by (auto simp: mm_equal_range_def)
  qed
qed (simp add: mm_equal_range_def)

lemma mm_equal_range_sort [simp]:
  "mm_equal_range k (sort_key fst xs) = filter (\<lambda>e. fst e = k) xs"
  by (simp add: mm_equal_range_filter sort_key_stable)

section \<open>Tables\<close>

record ('row, 'ref) RefRecord =
  table :: "'row list"
  byName :: "(string \<times> nat) list"
  references :: "'ref list"
  refsByID :: "(nat \<times> nat) list"

definition empty_record :: "('row, 'ref) RefRecord" where
  "empty_record = \<lparr>table = [], byName = [], references = [], refsByID = []\<rparr>"

definition UpdateKeys ::
  "('row \<Rightarrow> nat) \<Rightarrow> ('row \<Rightarrow> string) \<Rightarrow> 'row \<Rightarrow> ('row, 'ref) RefRecord \<Rightarrow> ('row, 'ref) RefRecord"
where
  "UpdateKeys get_id get_name row r = r\<lparr>byName := mm_emplace (get_name row) (get_id row) (byName r)\<rparr>"

text \<open>\<open>Insert\<close> gives the row the next identifier and returns a reference to it.\<close>

definition Insert ::
  "(nat \<Rightarrow> 'row \<Rightarrow> 'row) \<Rightarrow> ('row \<Rightarrow> nat) \<Rightarrow> ('row \<Rightarrow> string) \<Rightarrow> 'row \<Rightarrow> ('row, 'ref) RefRecord
    \<Rightarrow> 'row \<times> ('row, 'ref) RefRecord"
where
  "Insert set_id get_id get_name row r =
     (let rid = length (table r) + 1;
          row = set_id rid row;
          r = r\<lparr>table := table r @ [row]\<rparr>
      in (row, UpdateKeys get_id get_name row r))"

definition Get :: "('row, 'ref) RefRecord \<Rightarrow> nat \<Rightarrow> 'row result" where
  "Get r rid =
     (if rid < 1 then Inl Aborted
      else if rid > length (table r) then Inl Aborted
      else Inr (table r ! (rid - 1)))"

text \<open>A write through the reference that \<open>Get\<close> returned.\<close>

definition modify :: "nat \<Rightarrow> ('row \<Rightarrow> 'row) \<Rightarrow> ('row, 'ref) RefRecord \<Rightarrow> ('row, 'ref) RefRecord" where
  "modify rid g r = r\<lparr>table := (table r)[rid - 1 := g (table r ! (rid - 1))]\<rparr>"

definition AddReference ::
  "('ref \<Rightarrow> nat) \<Rightarrow> 'ref \<Rightarrow> ('row, 'ref) RefRecord \<Rightarrow> ('row, 'ref) RefRecord"
where
  "AddReference ref_id ref r =
     (let pos = length (references r)
      in r\<lparr>references := references r @ [ref],
           refsByID := mm_emplace (ref_id ref) pos (refsByID r)\<rparr>)"

definition valid_id :: "('row, 'ref) RefRecord \<Rightarrow> nat \<Rightarrow> bool" where
  "valid_id r rid \<longleftrightarrow> 1 \<le> rid \<and> rid \<le> length (table r)"

definition row_at :: "('row, 'ref) RefRecord \<Rightarrow> nat \<Rightarrow> 'row" where
  "row_at r rid = table r ! (rid - 1)"

lemma Get_eq: "Get r rid = (if valid_id r rid then Inr (row_at r rid) else Inl Aborted)"
  by (auto simp: Get_def valid_id_def row_at_def)

lemma Get_valid [simp]: "valid_id r rid \<Longrightarrow> Get r rid = Inr (row_at r rid)"
  by (simp add: Get_eq)

lemma Get_Inr: "Get r rid = Inr row \<longleftrightarrow> valid_id r rid \<and> row = row_at r rid"
  by (auto simp: Get_eq)

lemma valid_id_modify [simp]: "valid_id (modify i g r) rid \<longleftrightarrow> valid_id r rid"
  by (simp add: modify_def valid_id_def)

lemma row_at_modify:
  "valid_id r rid \<Longrightarrow> valid_id r i \<Longrightarrow> row_at (modify i g r) rid = (if rid = i then g (row_at r i) else row_at r rid)"
  by (auto simp: modify_def valid_id_def row_at_def nth_list_update)

lemma modify_simps [simp]:
  "byName (modify i g r) = byName r"
  "references (modify i g r) = references r"
  "refsByID (modify i g r) = refsByID r"
  "length (table (modify i g r)) = length (table r)"
  by (simp_all add: modify_def)

lemma AddReference_simps [simp]:
  "table (AddReference acc ref r) = table r"
  "byName (AddReference acc ref r) = byName r"
  "valid_id (AddReference acc ref r) rid = valid_id r rid"
  "row_at (AddReference acc ref r) rid = row_at r rid"
  by (simp_all add: AddReference_def Let_def valid_id_def row_at_def)

section \<open>The contract of a table\<close>

text \<open>
  What a row type must provide, and what the operations of its tables then promise. The client
  of a table never sees the order in which the entries of the multimaps are stored: they are
  the sorted view of the rows and of the references.
\<close>

locale keyed_rows =
  fixes set_id :: "nat \<Rightarrow> 'row \<Rightarrow> 'row"
    and get_id :: "'row \<Rightarrow> nat"
    and get_name :: "'row \<Rightarrow> string"
    and ref_id :: "'ref \<Rightarrow> nat"
  assumes get_set_id: "get_id (set_id i row) = i"
    and name_set_id: "get_name (set_id i row) = get_name row"
begin

definition table_ok :: "('row, 'ref) RefRecord \<Rightarrow> bool" where
  "table_ok r \<longleftrightarrow>
     (\<forall>rid. valid_id r rid \<longrightarrow> get_id (row_at r rid) = rid) \<and>
     byName r = sort_key fst (map (\<lambda>row. (get_name row, get_id row)) (table r)) \<and>
     refsByID r = sort_key fst (zip (map ref_id (references r)) [0..<length (references r)]) \<and>
     (\<forall>ref \<in> set (references r). valid_id r (ref_id ref))"

lemma table_ok_empty: "table_ok empty_record"
  by (simp add: table_ok_def empty_record_def valid_id_def)

lemma get_id_row: "table_ok r \<Longrightarrow> valid_id r rid \<Longrightarrow> get_id (row_at r rid) = rid"
  by (simp add: table_ok_def)

lemma row_in_table:
  assumes "table_ok r" "row \<in> set (table r)"
  shows "valid_id r (get_id row)" and "row_at r (get_id row) = row"
proof -
  obtain i where i: "i < length (table r)" "row = table r ! i"
    using assms(2) by (auto simp: in_set_conv_nth)
  then have "valid_id r (Suc i)" "row = row_at r (Suc i)" by (auto simp: valid_id_def row_at_def)
  moreover from this have "get_id row = Suc i" using assms(1) by (simp add: get_id_row)
  ultimately show "valid_id r (get_id row)" "row_at r (get_id row) = row" by auto
qed

lemma Insert_row:
  assumes "Insert set_id get_id get_name row r = (row', r')"
  shows "row' = set_id (length (table r) + 1) row" and "get_id row' = length (table r) + 1"
    and "table r' = table r @ [row']" and "references r' = references r"
  using assms by (auto simp: Insert_def Let_def UpdateKeys_def get_set_id)

lemma Insert_valid:
  assumes "Insert set_id get_id get_name row r = (row', r')"
  shows "valid_id r' rid \<longleftrightarrow> valid_id r rid \<or> rid = get_id row'"
    and "valid_id r rid \<Longrightarrow> row_at r' rid = row_at r rid"
    and "row_at r' (get_id row') = row'"
  using Insert_row [OF assms] by (auto simp: valid_id_def row_at_def nth_append)

lemma Insert_ok:
  assumes "table_ok r" "Insert set_id get_id get_name row r = (row', r')"
  shows "table_ok r'"
proof -
  have bn: "byName r' = mm_emplace (get_name row') (get_id row') (byName r)"
    and refs: "refsByID r' = refsByID r"
    using assms(2) by (auto simp: Insert_def Let_def UpdateKeys_def)
  show ?thesis
    using assms(1) Insert_row [OF assms(2)] Insert_valid [OF assms(2)]
    by (auto simp: table_ok_def bn refs mm_emplace_insort)
qed

lemma AddReference_ok:
  assumes "table_ok r" "valid_id r (ref_id ref)"
  shows "table_ok (AddReference ref_id ref r)"
  using assms mm_emplace_insort [of "ref_id ref" "length (references r)"
      "zip (map ref_id (references r)) [0..<length (references r)]"]
  by (auto simp: table_ok_def AddReference_def Let_def valid_id_def row_at_def)

lemma modify_ok:
  assumes "table_ok r" "valid_id r i"
    and "get_id (g (row_at r i)) = get_id (row_at r i)"
    and "get_name (g (row_at r i)) = get_name (row_at r i)"
  shows "table_ok (modify i g r)"
proof -
  have "map (\<lambda>row. (get_name row, get_id row)) (table (modify i g r))
      = map (\<lambda>row. (get_name row, get_id row)) (table r)"
    using assms(2-4)
    by (intro nth_equalityI) (auto simp: modify_def row_at_def valid_id_def nth_list_update)
  with assms show ?thesis
    by (auto simp: table_ok_def row_at_modify)
qed

text \<open>The entries of the name index for a name are the rows of that name, in their order.\<close>

lemma byName_range:
  "table_ok r \<Longrightarrow> mm_equal_range n (byName r)
    = map (\<lambda>row. (n, get_id row)) (filter (\<lambda>row. get_name row = n) (table r))"
  by (auto simp: table_ok_def filter_map o_def intro: map_cong)

lemma byName_ids:
  assumes "table_ok r" "e \<in> set (mm_equal_range n (byName r))"
  shows "valid_id r (snd e)" and "get_name (row_at r (snd e)) = n"
proof -
  obtain row where "row \<in> set (table r)" "get_name row = n" "snd e = get_id row"
    using assms by (auto simp: byName_range)
  then show "valid_id r (snd e)" "get_name (row_at r (snd e)) = n"
    using row_in_table [OF assms(1)] by auto
qed

text \<open>The references found for an identifier are exactly those added for it, in their order.\<close>

lemma refs_range:
  assumes "table_ok r"
  shows "map (\<lambda>e. references r ! snd e) (mm_equal_range rid (refsByID r))
    = filter (\<lambda>ref. ref_id ref = rid) (references r)"
proof -
  have "map (\<lambda>e. xs ! snd e) (filter (\<lambda>e. fst e = rid) (zip (map ref_id xs) [0..<length xs]))
      = filter (\<lambda>ref. ref_id ref = rid) xs" for xs
  proof (induction xs rule: rev_induct)
    case (snoc x xs)
    have "map (\<lambda>e. (xs @ [x]) ! snd e) (filter (\<lambda>e. fst e = rid) (zip (map ref_id xs) [0..<length xs]))
        = map (\<lambda>e. xs ! snd e) (filter (\<lambda>e. fst e = rid) (zip (map ref_id xs) [0..<length xs]))"
      by (rule map_cong) (auto simp: nth_append dest!: set_zip_rightD)
    with snoc show ?case by simp
  qed simp
  with assms show ?thesis by (simp add: table_ok_def)
qed

lemma refs_range_bound:
  assumes "table_ok r" "e \<in> set (mm_equal_range rid (refsByID r))"
  shows "snd e < length (references r)"
  using assms by (cases e) (auto simp: table_ok_def elim: in_set_zipE)

end

end
