(* ===== verification/IndexModel.thy ===== *)
theory IndexModel
  imports DB Script
begin

text \<open>
  Model of \<open>src/src/analyzer/index.cpp\<close>: the index of namespaces, procedures, variables and
  references, its two passes over a script (\<open>ScanScript\<close> and \<open>IndexScript\<close>), and the lookups of
  namespaces and procedures. References and pointers to rows are modelled by identifiers; a
  write through them is a \<open>modify\<close> of the table.
\<close>

section \<open>Data\<close>

datatype ReferenceType = USAGE | DEFINITION | DECLARAION

primrec show_ReferenceType :: "ReferenceType \<Rightarrow> string" where
  "show_ReferenceType USAGE = ''Usage''"
| "show_ReferenceType DEFINITION = ''Definition''"
| "show_ReferenceType DECLARAION = ''Declaration''"

text \<open>The structures \<open>Reference\<close> of the three kinds of rows have the same members.\<close>

record Reference =
  ref_location :: SourceLocation
  ref_id :: nat
  ref_type :: ReferenceType

record Variable =
  var_id :: nat
  var_name :: string

record Scope =
  scope_variables :: "nat list"
  scope_procs :: "nat list"
  scope_imported :: "nat list"

definition empty_scope :: Scope where
  "empty_scope = \<lparr>scope_variables = [], scope_procs = [], scope_imported = []\<rparr>"

record Proc =
  proc_id :: nat
  proc_name :: string
  arguments :: "nat list"
  is_variadic :: bool
  required_args :: "32 word"
  optional_args :: "32 word"
  proc_scope :: Scope
  proc_namespace :: nat

text \<open>\<open>std::make_unique<Proc> ()\<close> zero-initialises the members.\<close>

definition new_Proc :: Proc where
  "new_Proc = \<lparr>proc_id = 0, proc_name = [], arguments = [], is_variadic = False,
     required_args = 0, optional_args = 0, proc_scope = empty_scope, proc_namespace = 0\<rparr>"

record Namespace =
  ns_id :: nat
  ns_name :: string
  ns_scope :: Scope
  child_namespaces :: "nat list"
  parent_namespace :: "nat option"

definition new_Namespace :: "string \<Rightarrow> nat option \<Rightarrow> Namespace" where
  "new_Namespace n parent = \<lparr>ns_id = 0, ns_name = n, ns_scope = empty_scope,
     child_namespaces = [], parent_namespace = parent\<rparr>"

record Index =
  namespaces :: "(Namespace, Reference) RefRecord"
  procs :: "(Proc, Reference) RefRecord"
  variables :: "(Variable, Reference) RefRecord"
  global_namespace_id :: nat

text \<open>The instances of \<open>Insert\<close> for the three tables.\<close>

definition set_ns_id :: "nat \<Rightarrow> Namespace \<Rightarrow> Namespace" where
  "set_ns_id i n = n\<lparr>ns_id := i\<rparr>"

definition set_proc_id :: "nat \<Rightarrow> Proc \<Rightarrow> Proc" where
  "set_proc_id i p = p\<lparr>proc_id := i\<rparr>"

definition set_var_id :: "nat \<Rightarrow> Variable \<Rightarrow> Variable" where
  "set_var_id i v = v\<lparr>var_id := i\<rparr>"

abbreviation insert_namespace ::
  "Namespace \<Rightarrow> (Namespace, Reference) RefRecord \<Rightarrow> Namespace \<times> (Namespace, Reference) RefRecord" where
  "insert_namespace \<equiv> Insert set_ns_id ns_id ns_name"

abbreviation insert_proc ::
  "Proc \<Rightarrow> (Proc, Reference) RefRecord \<Rightarrow> Proc \<times> (Proc, Reference) RefRecord" where
  "insert_proc \<equiv> Insert set_proc_id proc_id proc_name"

abbreviation insert_variable ::
  "Variable \<Rightarrow> (Variable, Reference) RefRecord \<Rightarrow> Variable \<times> (Variable, Reference) RefRecord" where
  "insert_variable \<equiv> Insert set_var_id var_id var_name"

definition make_index :: Index where
  "make_index =
     (let index = \<lparr>namespaces = empty_record, procs = empty_record, variables = empty_record,
                   global_namespace_id = 0\<rparr>;
          (global_namespace, nss) = insert_namespace (new_Namespace '''' None) (namespaces index)
      in index\<lparr>namespaces := nss, global_namespace_id := ns_id global_namespace\<rparr>)"

record ScanContext =
  nsPath :: "nat list"

text \<open>\<open>nsPath.back ()\<close> is undefined on an empty vector.\<close>

definition current_ns :: "ScanContext \<Rightarrow> nat result" where
  "current_ns ctx = (if nsPath ctx = [] then Inl Undefined else Inr (last (nsPath ctx)))"

definition push_ns :: "nat \<Rightarrow> ScanContext \<Rightarrow> ScanContext" where
  "push_ns i ctx = ctx\<lparr>nsPath := nsPath ctx @ [i]\<rparr>"

definition pop_ns :: "ScanContext \<Rightarrow> ScanContext" where
  "pop_ns ctx = ctx\<lparr>nsPath := butlast (nsPath ctx)\<rparr>"

section \<open>Names\<close>

text \<open>
  The loop of \<open>GetPrintName\<close> up the chain of parents; the first argument bounds its length.
\<close>

fun parent_names :: "nat \<Rightarrow> Index \<Rightarrow> nat option \<Rightarrow> string list \<Rightarrow> string list result" where
  "parent_names k ix None parts = Inr parts"
| "parent_names 0 ix (Some i) parts = Inl OutOfFuel"
| "parent_names (Suc k) ix (Some i) parts =
     rbind (Get (namespaces ix) i) (\<lambda>curr.
     parent_names k ix (parent_namespace curr) (parts @ [ns_name curr]))"

definition print_parts :: "Index \<Rightarrow> string \<Rightarrow> nat option \<Rightarrow> string result" where
  "print_parts ix n parent =
     rbind (parent_names (length (table (namespaces ix))) ix parent [n]) (\<lambda>parts.
     Inr (join_sep (rev parts)))"

text \<open>The two instances of the template: a namespace may have no parent, a procedure has one.\<close>

definition GetPrintName_ns :: "Index \<Rightarrow> Namespace \<Rightarrow> string result" where
  "GetPrintName_ns ix e =
     (if parent_namespace e = None then Inr (ns_name e)
      else print_parts ix (ns_name e) (parent_namespace e))"

definition GetPrintName_proc :: "Index \<Rightarrow> Proc \<Rightarrow> string result" where
  "GetPrintName_proc ix e = print_parts ix (proc_name e) (Some (proc_namespace e))"

section \<open>Namespaces\<close>

text \<open>\<open>std::find_if\<close> over the children of a namespace.\<close>

fun find_child :: "Index \<Rightarrow> nat list \<Rightarrow> string \<Rightarrow> nat option result" where
  "find_child ix [] part = Inr None"
| "find_child ix (c # cs) part =
     rbind (Get (namespaces ix) c) (\<lambda>n.
     if ns_name n = part then Inr (Some c) else find_child ix cs part)"

definition add_child :: "Index \<Rightarrow> nat \<Rightarrow> Namespace \<Rightarrow> string \<Rightarrow> nat \<times> Index" where
  "add_child ix cur_id current part =
     (let (child, nss) = insert_namespace (new_Namespace part (Some (ns_id current))) (namespaces ix);
          nss = modify cur_id (\<lambda>n. n\<lparr>child_namespaces := child_namespaces n @ [ns_id child]\<rparr>) nss
      in (ns_id child, ix\<lparr>namespaces := nss\<rparr>))"

fun ResolveNamespace_loop :: "Index \<Rightarrow> string list \<Rightarrow> nat \<Rightarrow> (nat \<times> Index) result" where
  "ResolveNamespace_loop ix [] cur_id =
     rbind (Get (namespaces ix) cur_id) (\<lambda>_. Inr (cur_id, ix))"
| "ResolveNamespace_loop ix (part # parts) cur_id =
     rbind (Get (namespaces ix) cur_id) (\<lambda>current.
     rbind (find_child ix (child_namespaces current) part) (\<lambda>child_pos.
     case child_pos of
       None \<Rightarrow> (case add_child ix cur_id current part of
                  (child_id, ix) \<Rightarrow> ResolveNamespace_loop ix parts child_id)
     | Some child_id \<Rightarrow> ResolveNamespace_loop ix parts child_id))"

definition ResolveNamespace :: "Index \<Rightarrow> QualifiedName \<Rightarrow> nat \<Rightarrow> (nat \<times> Index) result" where
  "ResolveNamespace ix qn cur_ns_id =
     rbind (NamespaceParts qn) (\<lambda>parts.
     ResolveNamespace_loop ix parts
       (if absolute qn then global_namespace_id ix else cur_ns_id))"

fun FindNamespace_loop :: "Index \<Rightarrow> string list \<Rightarrow> nat \<Rightarrow> nat option result" where
  "FindNamespace_loop ix [] cur_id =
     rbind (Get (namespaces ix) cur_id) (\<lambda>_. Inr (Some cur_id))"
| "FindNamespace_loop ix (part # parts) cur_id =
     rbind (Get (namespaces ix) cur_id) (\<lambda>current.
     rbind (find_child ix (child_namespaces current) part) (\<lambda>child_pos.
     case child_pos of
       None \<Rightarrow> Inr None
     | Some child_id \<Rightarrow> FindNamespace_loop ix parts child_id))"

definition FindNamespace :: "Index \<Rightarrow> string \<Rightarrow> nat option result" where
  "FindNamespace ix ns_str =
     rbind (SplitName ns_str) (\<lambda>qn.
     rbind (check (absolute qn) Aborted) (\<lambda>_.
     rbind (Parts qn) (\<lambda>parts.
     FindNamespace_loop ix parts (global_namespace_id ix))))"

section \<open>Procedures\<close>

definition AddCommandReference :: "Index \<Rightarrow> SourceLocation \<Rightarrow> Proc \<Rightarrow> ReferenceType \<Rightarrow> Index" where
  "AddCommandReference ix loc p ty =
     ix\<lparr>procs := AddReference ref_id
          \<lparr>ref_location = loc, ref_id = proc_id p, ref_type = ty\<rparr> (procs ix)\<rparr>"

text \<open>
  The loop over the formal arguments. The test for \<open>args\<close> reads \<open>argName\<close> before it is assigned,
  when it is still the empty string.
\<close>

fun add_arguments :: "Index \<Rightarrow> Proc \<Rightarrow> Word list \<Rightarrow> (Proc \<times> Index) result" where
  "add_arguments ix p [] = Inr (p, ix)"
| "add_arguments ix p (arg # rest) =
     (let argName = '''' in
      rbind (if word_type arg = TEXT
             then (let p = (if argName = ''args'' \<and> rest = []
                            then p\<lparr>is_variadic := True\<rparr>
                            else p\<lparr>required_args := required_args p + 1\<rparr>)
                   in Inr (p, word_str arg))
             else
               rbind (get_WordVec arg) (\<lambda>ws.
               rbind (nth_r ws 0) (\<lambda>w.
               Inr (p\<lparr>optional_args := optional_args p + 1\<rparr>, word_str w))))
        (\<lambda>(p, argName).
         case insert_variable \<lparr>var_id = 0, var_name = argName\<rparr> (variables ix) of
           (v, vars) \<Rightarrow>
             add_arguments (ix\<lparr>variables := vars\<rparr>) (p\<lparr>arguments := arguments p @ [var_id v]\<rparr>) rest))"

definition add_scope_proc :: "nat \<Rightarrow> nat \<Rightarrow> Index \<Rightarrow> Index" where
  "add_scope_proc i pid ix =
     ix\<lparr>namespaces := modify i
          (\<lambda>n. n\<lparr>ns_scope := (ns_scope n)\<lparr>scope_procs := scope_procs (ns_scope n) @ [pid]\<rparr>\<rparr>)
          (namespaces ix)\<rparr>"

definition AddProcToIndex :: "Index \<Rightarrow> nat \<Rightarrow> Word list \<Rightarrow> Index result" where
  "AddProcToIndex ix cur ws =
     rbind (nth_r ws 1) (\<lambda>w1.
     rbind (SplitName (word_str w1)) (\<lambda>qn.
     let p = new_Proc\<lparr>proc_name := qname qn\<rparr> in
     rbind (nth_r ws 2) (\<lambda>w2.
     rbind (if word_type w2 = LIST
            then rbind (get_WordVec w2) (\<lambda>vec. add_arguments ix p vec)
            else Inr (p, ix)) (\<lambda>(p, ix).
     rbind (if absolute qn \<or> ns qn \<noteq> None
            then ResolveNamespace ix qn cur
            else Inr (cur, ix)) (\<lambda>(resolved, ix).
     let ix = add_scope_proc resolved (proc_id p) ix;
         p = p\<lparr>proc_namespace := resolved\<rparr>;
         (p, ps) = insert_proc p (procs ix);
         ix = ix\<lparr>procs := ps\<rparr>
     in Inr (AddCommandReference ix (word_location w1) p DEFINITION))))))"

text \<open>
  \<open>FindProc\<close> looks in the namespace and then, for a relative name, in the namespaces around it.
  Its range of candidates is taken before \<open>ResolveNamespace\<close> may add namespaces, which leaves the
  procedures alone. The first argument bounds the recursion.
\<close>

fun candidates :: "Index \<Rightarrow> (string \<times> nat) list \<Rightarrow> nat \<Rightarrow> Proc list result" where
  "candidates ix [] target = Inr []"
| "candidates ix (e # es) target =
     rbind (Get (procs ix) (snd e)) (\<lambda>p.
     rbind (candidates ix es target) (\<lambda>ps.
     Inr (if proc_namespace p = target then p # ps else ps)))"

fun FindProc_rec :: "nat \<Rightarrow> Index \<Rightarrow> nat \<Rightarrow> string \<Rightarrow> (Proc list \<times> Index) result" where
  "FindProc_rec 0 ix cur cmdName = Inl OutOfFuel"
| "FindProc_rec (Suc k) ix cur cmdName =
     rbind (SplitName cmdName) (\<lambda>qn.
     let range = mm_equal_range (qname qn) (byName (procs ix)) in
     rbind (if absolute qn \<or> ns qn \<noteq> None
            then ResolveNamespace ix qn cur
            else Inr (cur, ix)) (\<lambda>(target, ix).
     rbind (candidates ix range target) (\<lambda>result.
     rbind (Get (namespaces ix) cur) (\<lambda>n.
     case parent_namespace n of
       Some parent \<Rightarrow>
         if result = [] \<and> \<not> absolute qn
         then rbind (Get (namespaces ix) parent) (\<lambda>_. FindProc_rec k ix parent cmdName)
         else Inr (result, ix)
     | None \<Rightarrow> Inr (result, ix)))))"

text \<open>Every step leads to a namespace with a smaller identifier, which bounds the recursion.\<close>

definition FindProc :: "Index \<Rightarrow> nat \<Rightarrow> string \<Rightarrow> (Proc list \<times> Index) result" where
  "FindProc ix cur cmdName = FindProc_rec (Suc cur) ix cur cmdName"

text \<open>
  The loop of \<open>BestFitProcToCall\<close>. \<open>num_args\<close> is a \<open>size_t\<close>; the sum of the counters is computed
  in 32 bits and then widened.
\<close>

fun BestFit_loop :: "nat \<Rightarrow> Proc option \<Rightarrow> Proc list \<Rightarrow> Proc option" where
  "BestFit_loop num_args best [] = best"
| "BestFit_loop num_args best (p # ps) =
     (if best = None then BestFit_loop num_args (Some p) ps
      else if num_args < unat (required_args p) then BestFit_loop num_args best ps
      else if num_args = unat (required_args p) then Some p
      else if num_args \<le> unat (required_args p + optional_args p) then BestFit_loop num_args (Some p) ps
      else if is_variadic p then BestFit_loop num_args (Some p) ps
      else BestFit_loop num_args best ps)"

definition BestFitProcToCall :: "Proc list \<Rightarrow> Call \<Rightarrow> Proc option" where
  "BestFitProcToCall ps call = BestFit_loop (size_sub (length (call_words call)) 1) None ps"

section \<open>The first pass\<close>

text \<open>The name that \<open>namespace eval\<close> gives to the indexer: always relative.\<close>

definition eval_name :: "Word \<Rightarrow> QualifiedName" where
  "eval_name w = \<lparr>ns = Some (word_str w), qname = '''', absolute = False\<rparr>"

lemma nth_r_size [termination_simp]: "nth_r ws i = Inr w \<Longrightarrow> size w \<le> size_list size ws"
  by (auto simp: nth_r_Inr intro!: size_list_estimation' [OF nth_mem])

type_synonym scan_state = "Index \<times> ScanContext"

fun ScanWord :: "scan_state \<Rightarrow> Word \<Rightarrow> scan_state result"
  and ScanWords :: "scan_state \<Rightarrow> Word list \<Rightarrow> scan_state result"
  and ScanCall :: "scan_state \<Rightarrow> Call \<Rightarrow> scan_state result"
  and ScanCalls :: "scan_state \<Rightarrow> Call list \<Rightarrow> scan_state result"
  and ScanScript :: "scan_state \<Rightarrow> Script \<Rightarrow> scan_state result"
where
  "ScanWord st (Word ty loc txt d) =
     (case ty of
        EXPAND \<Rightarrow> (case d of WordVec ws \<Rightarrow> ScanWords st ws | _ \<Rightarrow> Inl BadVariantAccess)
      | TOKEN_LIST \<Rightarrow> (case d of WordVec ws \<Rightarrow> ScanWords st ws | _ \<Rightarrow> Inl BadVariantAccess)
      | SCRIPT \<Rightarrow> (case d of ScriptPtr s \<Rightarrow> ScanScript st s | _ \<Rightarrow> Inl BadVariantAccess)
      | _ \<Rightarrow> Inr st)"
| "ScanWords st [] = Inr st"
| "ScanWords st (w # ws) = rbind (ScanWord st w) (\<lambda>st. ScanWords st ws)"
| "ScanCall (ix, ctx) (Call ty ws cns) =
     rbind (current_ns ctx) (\<lambda>cur.
     rbind (Get (namespaces ix) cur) (\<lambda>_.
     case ty of
       NAMESPACE_EVAL \<Rightarrow>
         rbind (nth_r ws 2) (\<lambda>w2.
         rbind (ResolveNamespace ix (eval_name w2) cur) (\<lambda>(target, ix).
         rbind (nth_r ws 3) (\<lambda>w3.
         rbind (ScanWord (ix, push_ns target ctx) w3) (\<lambda>(ix, ctx).
         Inr (ix, pop_ns ctx)))))
     | PROC \<Rightarrow>
         rbind (AddProcToIndex ix cur ws) (\<lambda>ix.
         ScanWords (ix, ctx) ws)
     | _ \<Rightarrow> ScanWords (ix, ctx) ws))"
| "ScanCalls st [] = Inr st"
| "ScanCalls st (c # cs) = rbind (ScanCall st c) (\<lambda>st. ScanCalls st cs)"
| "ScanScript st (Script loc cs) = ScanCalls st cs"

section \<open>The second pass\<close>

fun IndexWord :: "scan_state \<Rightarrow> Word \<Rightarrow> scan_state result"
  and IndexWords :: "scan_state \<Rightarrow> Word list \<Rightarrow> scan_state result"
  and IndexCall :: "scan_state \<Rightarrow> Call \<Rightarrow> scan_state result"
  and IndexCalls :: "scan_state \<Rightarrow> Call list \<Rightarrow> scan_state result"
  and IndexScript :: "scan_state \<Rightarrow> Script \<Rightarrow> scan_state result"
where
  "IndexWord st (Word ty loc txt d) =
     (case ty of
        ARRAY_ACCESS \<Rightarrow> (case d of ArrayAccess n ws \<Rightarrow> IndexWords st ws | _ \<Rightarrow> Inl BadVariantAccess)
      | EXPAND \<Rightarrow> (case d of WordVec ws \<Rightarrow> IndexWords st ws | _ \<Rightarrow> Inl BadVariantAccess)
      | TOKEN_LIST \<Rightarrow> (case d of WordVec ws \<Rightarrow> IndexWords st ws | _ \<Rightarrow> Inl BadVariantAccess)
      | SCRIPT \<Rightarrow> (case d of ScriptPtr s \<Rightarrow> IndexScript st s | _ \<Rightarrow> Inl BadVariantAccess)
      | _ \<Rightarrow> Inr st)"
| "IndexWords st [] = Inr st"
| "IndexWords st (w # ws) = rbind (IndexWord st w) (\<lambda>st. IndexWords st ws)"
| "IndexCall (ix, ctx) (Call ty ws cns) =
     rbind (current_ns ctx) (\<lambda>cur.
     rbind (Get (namespaces ix) cur) (\<lambda>_.
     case ty of
       NAMESPACE_EVAL \<Rightarrow>
         rbind (nth_r ws 2) (\<lambda>w2.
         rbind (ResolveNamespace ix (eval_name w2) cur) (\<lambda>(target, ix).
         rbind (nth_r ws 3) (\<lambda>w3.
         rbind (IndexWord (ix, push_ns target ctx) w3) (\<lambda>(ix, ctx).
         Inr (ix, pop_ns ctx)))))
     | PROC \<Rightarrow>
         rbind (nth_r ws 1) (\<lambda>w1.
         rbind (SplitName (word_str w1)) (\<lambda>procName.
         rbind (ResolveNamespace ix procName cur) (\<lambda>(target, ix).
         rbind (nth_r ws 3) (\<lambda>w3.
         rbind (IndexWord (ix, push_ns target ctx) w3) (\<lambda>(ix, ctx).
         Inr (ix, pop_ns ctx))))))
     | USER \<Rightarrow>
         rbind (nth_r ws 0) (\<lambda>w0.
         rbind (FindProc ix cur (word_str w0)) (\<lambda>(found, ix).
         let ix = (case BestFitProcToCall found (Call ty ws cns) of
                     Some p \<Rightarrow> AddCommandReference ix (word_location w0) p USAGE
                   | None \<Rightarrow> ix)
         in IndexWords (ix, ctx) ws))
     | _ \<Rightarrow> IndexWords (ix, ctx) ws))"
| "IndexCalls st [] = Inr st"
| "IndexCalls st (c # cs) = rbind (IndexCall st c) (\<lambda>st. IndexCalls st cs)"
| "IndexScript st (Script loc cs) = IndexCalls st cs"

definition Build :: "Index \<Rightarrow> ScanContext \<Rightarrow> Script \<Rightarrow> scan_state result" where
  "Build ix ctx script =
     rbind (ScanScript (ix, ctx) script) (\<lambda>st. IndexScript st script)"

end
