(* ===== verification/NamespaceTree.thy ===== *)
theory NamespaceTree
  imports IndexModel
begin

text \<open>
  The namespaces of an index form a tree: its invariant, the path of a namespace, the abstract
  view of the tree as a set of paths, and the operations \<open>ResolveNamespace\<close>, \<open>FindNamespace\<close> and
  \<open>GetPrintName\<close> in terms of it.
\<close>

section \<open>The tables of an index\<close>

interpretation ns_db: keyed_rows set_ns_id ns_id ns_name ref_id
  by unfold_locales (simp_all add: set_ns_id_def)

interpretation proc_db: keyed_rows set_proc_id proc_id proc_name ref_id
  by unfold_locales (simp_all add: set_proc_id_def)

interpretation var_db: keyed_rows set_var_id var_id var_name ref_id
  by unfold_locales (simp_all add: set_var_id_def)

abbreviation ns_valid :: "Index \<Rightarrow> nat \<Rightarrow> bool" where
  "ns_valid ix i \<equiv> valid_id (namespaces ix) i"

abbreviation ns_row :: "Index \<Rightarrow> nat \<Rightarrow> Namespace" where
  "ns_row ix i \<equiv> row_at (namespaces ix) i"

abbreviation name_of :: "Index \<Rightarrow> nat \<Rightarrow> string" where
  "name_of ix i \<equiv> ns_name (ns_row ix i)"

abbreviation parent_of :: "Index \<Rightarrow> nat \<Rightarrow> nat option" where
  "parent_of ix i \<equiv> parent_namespace (ns_row ix i)"

abbreviation children_of :: "Index \<Rightarrow> nat \<Rightarrow> nat list" where
  "children_of ix i \<equiv> child_namespaces (ns_row ix i)"

section \<open>The invariant\<close>

definition tree_ok :: "Index \<Rightarrow> bool" where
  "tree_ok ix \<longleftrightarrow>
     ns_db.table_ok (namespaces ix) \<and>
     ns_valid ix (global_namespace_id ix) \<and> name_of ix (global_namespace_id ix) = [] \<and>
     (\<forall>i. ns_valid ix i \<longrightarrow>
        (parent_of ix i = None \<longleftrightarrow> i = global_namespace_id ix) \<and>
        (\<forall>p. parent_of ix i = Some p \<longrightarrow> ns_valid ix p \<and> p < i \<and> i \<in> set (children_of ix p)) \<and>
        (\<forall>c \<in> set (children_of ix i). ns_valid ix c \<and> parent_of ix c = Some i) \<and>
        distinct (map (name_of ix) (children_of ix i)))"

lemma tree_okD:
  assumes "tree_ok ix"
  shows "ns_db.table_ok (namespaces ix)"
    and "ns_valid ix (global_namespace_id ix) \<and> name_of ix (global_namespace_id ix) = []"
    and "ns_valid ix i \<Longrightarrow> parent_of ix i = None \<longleftrightarrow> i = global_namespace_id ix"
    and "ns_valid ix i \<Longrightarrow> parent_of ix i = Some p \<Longrightarrow> ns_valid ix p \<and> p < i \<and> i \<in> set (children_of ix p)"
    and "ns_valid ix i \<Longrightarrow> c \<in> set (children_of ix i) \<Longrightarrow> ns_valid ix c \<and> parent_of ix c = Some i"
    and "ns_valid ix i \<Longrightarrow> distinct (map (name_of ix) (children_of ix i))"
proof -
  show "ns_db.table_ok (namespaces ix)"
    and "ns_valid ix (global_namespace_id ix) \<and> name_of ix (global_namespace_id ix) = []"
    using assms by (simp_all add: tree_ok_def)
  assume i: "ns_valid ix i"
  have all: "(parent_of ix i = None \<longleftrightarrow> i = global_namespace_id ix) \<and>
        (\<forall>p. parent_of ix i = Some p \<longrightarrow> ns_valid ix p \<and> p < i \<and> i \<in> set (children_of ix p)) \<and>
        (\<forall>c \<in> set (children_of ix i). ns_valid ix c \<and> parent_of ix c = Some i) \<and>
        distinct (map (name_of ix) (children_of ix i))"
    using assms i unfolding tree_ok_def by (elim conjE) (erule allE, erule (1) impE)
  show "parent_of ix i = None \<longleftrightarrow> i = global_namespace_id ix"
    and "distinct (map (name_of ix) (children_of ix i))"
    by (simp_all only: all)
  show "ns_valid ix p \<and> p < i \<and> i \<in> set (children_of ix p)" if "parent_of ix i = Some p"
    using all that by (simp only: simp_thms)
  show "ns_valid ix c \<and> parent_of ix c = Some i" if "c \<in> set (children_of ix i)"
    using all that by (elim conjE) (erule bspec)
qed

lemma tree_ok_id: "tree_ok ix \<Longrightarrow> ns_valid ix i \<Longrightarrow> ns_id (ns_row ix i) = i"
  by (intro ns_db.get_id_row) (auto dest: tree_okD(1))

text \<open>Nothing is taken away or renamed when an index grows.\<close>

definition extends :: "Index \<Rightarrow> Index \<Rightarrow> bool" where
  "extends ix ix' \<longleftrightarrow>
     global_namespace_id ix' = global_namespace_id ix \<and>
     (\<forall>i. ns_valid ix i \<longrightarrow> ns_valid ix' i \<and> name_of ix' i = name_of ix i \<and>
        parent_of ix' i = parent_of ix i \<and> set (children_of ix i) \<subseteq> set (children_of ix' i))"

lemma extends_refl [simp]: "extends ix ix"
  by (simp add: extends_def)

lemma extends_trans: "extends ix ix' \<Longrightarrow> extends ix' ix'' \<Longrightarrow> extends ix ix''"
  unfolding extends_def by (intro conjI allI impI) (simp_all, blast)

lemma extends_valid: "extends ix ix' \<Longrightarrow> ns_valid ix i \<Longrightarrow> ns_valid ix' i"
  by (simp add: extends_def)

text \<open>The parts of an index that the tree does not mention.\<close>

lemma tree_ok_cong:
  "namespaces ix' = namespaces ix \<Longrightarrow> global_namespace_id ix' = global_namespace_id ix \<Longrightarrow>
   tree_ok ix' \<longleftrightarrow> tree_ok ix"
  by (simp add: tree_ok_def)

lemma make_index_eqs:
  "namespaces make_index = \<lparr>table = [\<lparr>ns_id = 1, ns_name = [], ns_scope = empty_scope,
      child_namespaces = [], parent_namespace = None\<rparr>], byName = [([], 1)], references = [],
      refsByID = []\<rparr>"
  "global_namespace_id make_index = 1" "procs make_index = empty_record"
  "variables make_index = empty_record"
  by (simp_all add: make_index_def Insert_def empty_record_def new_Namespace_def set_ns_id_def
      UpdateKeys_def Let_def)

lemma tree_ok_make_index: "tree_ok make_index"
proof -
  have v: "ns_valid make_index i \<longleftrightarrow> i = 1" for i
    by (auto simp: make_index_eqs valid_id_def)
  show ?thesis
    unfolding tree_ok_def v ns_db.table_ok_def
    by (simp add: make_index_eqs row_at_def)
qed

section \<open>Adding a child\<close>

lemma find_child_eq:
  "list_all (ns_valid ix) cs \<Longrightarrow> find_child ix cs part = Inr (find (\<lambda>c. name_of ix c = part) cs)"
  by (induction cs) auto

lemma add_child_eqs:
  assumes "tree_ok ix" "ns_valid ix i" "add_child ix i (ns_row ix i) part = (c, ix')"
  shows "c = length (table (namespaces ix)) + 1"
    and "ns_valid ix' j \<longleftrightarrow> ns_valid ix j \<or> j = c"
    and "\<not> ns_valid ix c"
    and "ns_row ix' c = \<lparr>ns_id = c, ns_name = part, ns_scope = empty_scope, child_namespaces = [],
      parent_namespace = Some i\<rparr>"
    and "ns_valid ix j \<Longrightarrow> j \<noteq> i \<Longrightarrow> ns_row ix' j = ns_row ix j"
    and "ns_row ix' i = (ns_row ix i)\<lparr>child_namespaces := children_of ix i @ [c]\<rparr>"
    and "global_namespace_id ix' = global_namespace_id ix"
    and "procs ix' = procs ix" and "variables ix' = variables ix"
    and "ns_db.table_ok (namespaces ix')"
proof -
  obtain child nss where ins:
    "insert_namespace (new_Namespace part (Some (ns_id (ns_row ix i)))) (namespaces ix) = (child, nss)"
    by (metis surj_pair)
  let ?add = "\<lambda>n. n\<lparr>child_namespaces := child_namespaces n @ [ns_id child]\<rparr>"
  have ix': "ix' = ix\<lparr>namespaces := modify i ?add nss\<rparr>" and c: "c = ns_id child"
    using assms(3) by (auto simp: add_child_def ins)
  note row = ns_db.Insert_row [OF ins] and valid = ns_db.Insert_valid [OF ins]
  show c_eq: "c = length (table (namespaces ix)) + 1" using row(2) c by simp
  have child: "child = \<lparr>ns_id = c, ns_name = part, ns_scope = empty_scope, child_namespaces = [],
      parent_namespace = Some i\<rparr>"
    using row(1) c_eq tree_ok_id [OF assms(1,2)] by (simp add: set_ns_id_def new_Namespace_def)
  show val: "ns_valid ix' j \<longleftrightarrow> ns_valid ix j \<or> j = c" for j
    using valid(1) c by (simp add: ix')
  show nc: "\<not> ns_valid ix c" by (simp add: c_eq valid_id_def)
  then have "c \<noteq> i" using assms(2) by auto
  have vi: "valid_id nss c" "valid_id nss i" using valid(1) c assms(2) by auto
  have "row_at nss c = child" using valid(3) unfolding c .
  then show "ns_row ix' c = \<lparr>ns_id = c, ns_name = part, ns_scope = empty_scope,
      child_namespaces = [], parent_namespace = Some i\<rparr>"
    using vi \<open>c \<noteq> i\<close> unfolding child by (simp add: ix' row_at_modify)
  show "ns_row ix' j = ns_row ix j" if "ns_valid ix j" "j \<noteq> i" for j
    using that valid(1,2) vi by (simp add: ix' row_at_modify)
  show "ns_row ix' i = (ns_row ix i)\<lparr>child_namespaces := children_of ix i @ [c]\<rparr>"
    using valid(2) [OF assms(2)] vi c by (simp add: ix' row_at_modify)
  show "global_namespace_id ix' = global_namespace_id ix" "procs ix' = procs ix"
    "variables ix' = variables ix"
    by (simp_all add: ix')
  have "ns_db.table_ok nss" using ns_db.Insert_ok [OF tree_okD(1) [OF assms(1)] ins] .
  then show "ns_db.table_ok (namespaces ix')"
    using vi(2) by (auto simp: ix' intro: ns_db.modify_ok)
qed

lemma add_child_rows:
  assumes ok: "tree_ok ix" and i: "ns_valid ix i" and add: "add_child ix i (ns_row ix i) part = (c, ix')"
  shows "ns_valid ix j \<Longrightarrow> name_of ix' j = name_of ix j" "ns_valid ix j \<Longrightarrow> parent_of ix' j = parent_of ix j"
    "ns_valid ix j \<Longrightarrow> children_of ix' j = (if j = i then children_of ix i @ [c] else children_of ix j)"
    and "name_of ix' c = part" "parent_of ix' c = Some i" "children_of ix' c = []"
proof -
  note e = add_child_eqs [OF ok i add]
  have rows: "ns_row ix' j = (if j = i then (ns_row ix i)\<lparr>child_namespaces := children_of ix i @ [c]\<rparr>
      else ns_row ix j)" if "ns_valid ix j" for j
    using that e(5,6) by simp
  show "ns_valid ix j \<Longrightarrow> name_of ix' j = name_of ix j" "ns_valid ix j \<Longrightarrow> parent_of ix' j = parent_of ix j"
    "ns_valid ix j \<Longrightarrow> children_of ix' j = (if j = i then children_of ix i @ [c] else children_of ix j)"
    using rows [of j] by auto
  show "name_of ix' c = part" "parent_of ix' c = Some i" "children_of ix' c = []"
    using e(4) by simp_all
qed

lemma add_child_distinct:
  assumes ok: "tree_ok ix" and i: "ns_valid ix i"
    and fresh: "part \<notin> name_of ix ` set (children_of ix i)"
    and add: "add_child ix i (ns_row ix i) part = (c, ix')" and j: "ns_valid ix' j"
  shows "distinct (map (name_of ix') (children_of ix' j))"
proof (cases "j = c")
  case True
  then show ?thesis using add_child_rows(6) [OF ok i add] by simp
next
  case False
  then have j: "ns_valid ix j" using j add_child_eqs(2) [OF ok i add] by simp
  note t = tree_okD [OF ok] and rows = add_child_rows [OF ok i add]
  have names: "map (name_of ix') (children_of ix j) = map (name_of ix) (children_of ix j)"
    using t(5) [OF j] rows(1) by (intro map_cong) auto
  have "distinct (map (name_of ix') (children_of ix j))"
    unfolding names by (rule t(6) [OF j])
  moreover have "part \<notin> set (map (name_of ix') (children_of ix j))" if "j = i"
    unfolding names using fresh that by simp
  ultimately show ?thesis
    using rows(3) [OF j] rows(4) by (cases "j = i") simp_all
qed

lemma add_child_ok:
  assumes ok: "tree_ok ix" and i: "ns_valid ix i"
    and fresh: "part \<notin> name_of ix ` set (children_of ix i)"
    and add: "add_child ix i (ns_row ix i) part = (c, ix')"
  shows "tree_ok ix'" and "extends ix ix'"
proof -
  note e = add_child_eqs [OF ok i add]
  note t = tree_okD [OF ok]
  note old = add_child_rows(1-3) [OF ok i add] and new = add_child_rows(4-6) [OF ok i add]
  have gc: "global_namespace_id ix \<noteq> c" using e(3) t(2) by auto
  have ic: "i < c" using i by (simp add: e(1) valid_id_def)
  show "extends ix ix'"
    using old e(2,7) by (auto simp: extends_def)
  show "tree_ok ix'"
    unfolding tree_ok_def
  proof (intro conjI allI impI ballI, goal_cases)
    case 1 show ?case by (rule e(10))
  next
    case 2 show ?case using t(2) by (simp add: e(2,7))
  next
    case 3 show ?case using t(2) old(1) by (simp add: e(7))
  next
    case (4 j) then show ?case using t(3) [of j] old(2) [of j] new gc by (auto simp: e(2,7))
  next
    case (5 j p)
    then show ?case using t(4) [of j p] old(2) [of j] new i by (auto simp: e(2))
  next
    case (6 j p)
    then show ?case using t(4) [of j p] old(2) [of j] new ic by (auto simp: e(2))
  next
    case (7 j p)
    then show ?case using t(4) [of j p] old(2) [of j] old(3) [of p] new i old(3) [of i] by (auto simp: e(2))
  next
    case (8 j d)
    then show ?case using t(5) [of j d] old(3) [of j] new by (auto simp: e(2) split: if_splits)
  next
    case (9 j d)
    then show ?case
      using t(5) [of j d] old(3) [of j] old(2) [of d] new by (auto simp: e(2) split: if_splits)
  next
    case (10 j)
    then show ?case by (rule add_child_distinct [OF ok i fresh add])
  qed
qed

section \<open>The path of a namespace\<close>

text \<open>
  The names on the way from the root, whose own name is not part of the path. A parent has a
  smaller identifier than its child, so the identifier bounds the length of the way.
\<close>

fun path_from :: "nat \<Rightarrow> Index \<Rightarrow> nat \<Rightarrow> string list" where
  "path_from 0 ix i = []"
| "path_from (Suc k) ix i =
     (case parent_of ix i of None \<Rightarrow> [] | Some p \<Rightarrow> path_from k ix p @ [name_of ix i])"

definition ns_path :: "Index \<Rightarrow> nat \<Rightarrow> string list" where
  "ns_path ix i = path_from i ix i"

definition ns_ids :: "Index \<Rightarrow> nat list" where
  "ns_ids ix = [1..<Suc (length (table (namespaces ix)))]"

lemma set_ns_ids [simp]: "i \<in> set (ns_ids ix) \<longleftrightarrow> ns_valid ix i"
  by (auto simp: ns_ids_def valid_id_def)

text \<open>The abstract view of the tree: a set of paths, and the namespace at a path.\<close>

definition ns_paths :: "Index \<Rightarrow> string list set" where
  "ns_paths ix = ns_path ix ` set (ns_ids ix)"

definition ns_lookup :: "Index \<Rightarrow> string list \<Rightarrow> nat option" where
  "ns_lookup ix ps = find (\<lambda>i. ns_path ix i = ps) (ns_ids ix)"

lemma path_from_enough:
  "tree_ok ix \<Longrightarrow> ns_valid ix i \<Longrightarrow> i \<le> k \<Longrightarrow> path_from k ix i = ns_path ix i"
proof (induction i arbitrary: k rule: less_induct)
  case (less i)
  have eq: "path_from k ix i = (case parent_of ix i of None \<Rightarrow> []
      | Some p \<Rightarrow> ns_path ix p @ [name_of ix i])" if "i \<le> k" for k
  proof -
    have "0 < i" using less.prems(2) by (simp add: valid_id_def)
    then have "k \<noteq> 0" using that by simp
    then obtain m where k: "k = Suc m" using not0_implies_Suc by blast
    show ?thesis
    proof (cases "parent_of ix i")
      case (Some p)
      then have "ns_valid ix p" "p < i" using tree_okD(4) [OF less.prems(1,2)] by auto
      then show ?thesis using less.IH [of p m] less.prems(1) that Some by (simp add: k)
    qed (simp add: k)
  qed
  show ?case using eq [OF less.prems(3)] eq [of i] by (simp add: ns_path_def)
qed

lemma ns_path_eq:
  assumes "tree_ok ix" "ns_valid ix i"
  shows "ns_path ix i = (case parent_of ix i of None \<Rightarrow> [] | Some p \<Rightarrow> ns_path ix p @ [name_of ix i])"
proof -
  have "ns_path ix i = path_from (Suc i) ix i" by (rule path_from_enough [OF assms, symmetric]) simp
  also have "\<dots> = (case parent_of ix i of None \<Rightarrow> [] | Some p \<Rightarrow> ns_path ix p @ [name_of ix i])"
    using assms tree_okD(4) [OF assms] by (auto simp: path_from_enough less_imp_le split: option.split)
  finally show ?thesis .
qed

lemma ns_path_root [simp]: "tree_ok ix \<Longrightarrow> ns_path ix (global_namespace_id ix) = []"
  using tree_okD(2) [of ix] tree_okD(3) [of ix "global_namespace_id ix"] by (simp add: ns_path_eq)

lemma ns_path_Nil: "tree_ok ix \<Longrightarrow> ns_valid ix i \<Longrightarrow> ns_path ix i = [] \<longleftrightarrow> i = global_namespace_id ix"
  using tree_okD(3) [of ix i] by (auto simp: ns_path_eq split: option.split_asm)

lemma ns_path_child:
  "tree_ok ix \<Longrightarrow> ns_valid ix i \<Longrightarrow> c \<in> set (children_of ix i) \<Longrightarrow>
   ns_path ix c = ns_path ix i @ [name_of ix c]"
  using tree_okD(5) [of ix i c] by (simp add: ns_path_eq [of ix c])

lemma ns_path_snoc:
  assumes "tree_ok ix" "ns_valid ix i" "ns_path ix i = ps @ [p]"
  obtains q where "ns_valid ix q" "ns_path ix q = ps" "name_of ix i = p" "i \<in> set (children_of ix q)"
  using assms tree_okD(4) [OF assms(1,2)]
  by (cases "parent_of ix i") (auto simp: ns_path_eq [of ix i])

text \<open>A path determines its namespace.\<close>

lemma ns_path_inj:
  "tree_ok ix \<Longrightarrow> ns_valid ix i \<Longrightarrow> ns_valid ix j \<Longrightarrow> ns_path ix i = ns_path ix j \<Longrightarrow> i = j"
proof (induction "ns_path ix i" arbitrary: i j rule: rev_induct)
  case Nil
  then show ?case using ns_path_Nil [of ix i] ns_path_Nil [of ix j] by simp
next
  case (snoc p ps)
  obtain q where q: "ns_valid ix q" "ns_path ix q = ps" "name_of ix i = p" "i \<in> set (children_of ix q)"
    using ns_path_snoc [OF snoc.prems(1,2)] snoc.hyps(2) by metis
  obtain r where r: "ns_valid ix r" "ns_path ix r = ps" "name_of ix j = p" "j \<in> set (children_of ix r)"
    using ns_path_snoc [OF snoc.prems(1,3)] snoc.hyps(2) snoc.prems(4) by metis
  have "q = r" using snoc.hyps(1) [of q r] snoc.prems(1) q r by simp
  moreover have "inj_on (name_of ix) (set (children_of ix q))"
    using tree_okD(6) [OF snoc.prems(1) q(1)] by (simp add: distinct_map)
  ultimately show ?case using q r by (auto dest: inj_onD)
qed

lemma ns_path_prefix:
  "tree_ok ix \<Longrightarrow> ns_valid ix i \<Longrightarrow> ns_path ix i = ps @ qs \<Longrightarrow> \<exists>j. ns_valid ix j \<and> ns_path ix j = ps"
proof (induction qs arbitrary: i rule: rev_induct)
  case (snoc q qs)
  then show ?case using ns_path_snoc [of ix i "ps @ qs" q] by (metis append.assoc)
qed auto

lemma ns_lookup_Some:
  assumes "tree_ok ix"
  shows "ns_lookup ix ps = Some i \<longleftrightarrow> ns_valid ix i \<and> ns_path ix i = ps"
proof
  assume "ns_lookup ix ps = Some i"
  then show "ns_valid ix i \<and> ns_path ix i = ps"
    by (auto simp: ns_lookup_def find_Some_iff dest: nth_mem)
next
  assume i: "ns_valid ix i \<and> ns_path ix i = ps"
  then obtain j where j: "ns_lookup ix ps = Some j"
    by (cases "ns_lookup ix ps") (auto simp: ns_lookup_def find_None_iff)
  then have "ns_valid ix j \<and> ns_path ix j = ps"
    by (auto simp: ns_lookup_def find_Some_iff dest: nth_mem)
  with i j assms ns_path_inj [of ix i j] show "ns_lookup ix ps = Some i" by simp
qed

lemma ns_lookup_None: "ns_lookup ix ps = None \<longleftrightarrow> ps \<notin> ns_paths ix"
  by (auto simp: ns_lookup_def find_None_iff ns_paths_def)

lemma extends_path:
  "tree_ok ix \<Longrightarrow> tree_ok ix' \<Longrightarrow> extends ix ix' \<Longrightarrow> ns_valid ix i \<Longrightarrow> ns_path ix' i = ns_path ix i"
proof (induction i rule: less_induct)
  case (less i)
  have e: "ns_valid ix' i" "name_of ix' i = name_of ix i" "parent_of ix' i = parent_of ix i"
    using less.prems(3,4) by (simp_all add: extends_def)
  show ?case
  proof (cases "parent_of ix i")
    case (Some p)
    then have "ns_path ix' p = ns_path ix p"
      using tree_okD(4) [OF less.prems(1,4)] less.IH less.prems by auto
    with Some e less.prems show ?thesis by (simp add: ns_path_eq)
  qed (use e less.prems in \<open>simp add: ns_path_eq\<close>)
qed

lemma extends_paths:
  "tree_ok ix \<Longrightarrow> tree_ok ix' \<Longrightarrow> extends ix ix' \<Longrightarrow> ns_paths ix \<subseteq> ns_paths ix'"
  using extends_path [of ix ix'] extends_valid [of ix ix'] by (force simp: ns_paths_def)

section \<open>Looking a namespace up\<close>

lemma find_child_tree:
  "tree_ok ix \<Longrightarrow> ns_valid ix i \<Longrightarrow>
   find_child ix (children_of ix i) part = Inr (find (\<lambda>c. name_of ix c = part) (children_of ix i))"
  using tree_okD(5) [of ix i] by (intro find_child_eq) (simp add: list_all_iff)

lemma child_found:
  assumes "tree_ok ix" "ns_valid ix i" "find (\<lambda>c. name_of ix c = part) (children_of ix i) = Some c"
  shows "ns_valid ix c" and "ns_path ix c = ns_path ix i @ [part]"
proof -
  have c: "c \<in> set (children_of ix i)" "name_of ix c = part"
    using assms(3) by (auto simp: find_Some_iff)
  show "ns_valid ix c" using tree_okD(5) [OF assms(1,2) c(1)] by simp
  show "ns_path ix c = ns_path ix i @ [part]" using ns_path_child [OF assms(1,2) c(1)] c(2) by simp
qed

lemma child_not_found:
  assumes "tree_ok ix" "ns_valid ix i" "find (\<lambda>c. name_of ix c = part) (children_of ix i) = None"
  shows "ns_path ix i @ part # ps \<notin> ns_paths ix"
proof
  assume "ns_path ix i @ part # ps \<in> ns_paths ix"
  then obtain j where "ns_valid ix j" "ns_path ix j = (ns_path ix i @ [part]) @ ps"
    by (auto simp: ns_paths_def)
  then obtain c where c: "ns_valid ix c" "ns_path ix c = ns_path ix i @ [part]"
    using ns_path_prefix [OF assms(1)] by blast
  then obtain q where "ns_valid ix q" "ns_path ix q = ns_path ix i" "name_of ix c = part"
    "c \<in> set (children_of ix q)"
    using ns_path_snoc [OF assms(1)] by metis
  then show False
    using ns_path_inj [OF assms(1), of q i] assms(2,3) by (auto simp: find_None_iff)
qed

lemma FindNamespace_loop_eq:
  "tree_ok ix \<Longrightarrow> ns_valid ix i \<Longrightarrow>
   FindNamespace_loop ix parts i = Inr (ns_lookup ix (ns_path ix i @ parts))"
proof (induction parts arbitrary: i)
  case Nil
  then show ?case using ns_lookup_Some [of ix "ns_path ix i" i] by simp
next
  case (Cons part parts)
  show ?case
  proof (cases "find (\<lambda>c. name_of ix c = part) (children_of ix i)")
    case None
    have "ns_lookup ix (ns_path ix i @ part # parts) = None"
      using child_not_found [OF Cons.prems None] by (simp add: ns_lookup_None)
    with None Cons.prems show ?thesis by (simp add: find_child_tree)
  next
    case (Some c)
    note c = child_found [OF Cons.prems Some]
    show ?thesis using Cons.IH [OF Cons.prems(1) c(1)] Some Cons.prems c(2)
      by (simp add: find_child_tree)
  qed
qed

lemma FindNamespace_abs_name:
  assumes "tree_ok ix" "simple_names ps"
  shows "FindNamespace ix (if ps = [] then [] else abs_name ps) = Inr (ns_lookup ix ps)"
proof (cases ps rule: rev_cases)
  case Nil
  with assms tree_okD(2) [OF assms(1)] show ?thesis
    by (simp add: FindNamespace_def SplitName_cases Parts_def NamespaceParts_def FindNamespace_loop_eq)
next
  case (snoc qs q)
  with assms Parts_abs_name [of qs q] tree_okD(2) [OF assms(1)] show ?thesis
    by (simp add: FindNamespace_def SplitName_abs_name FindNamespace_loop_eq)
qed

section \<open>Resolving a namespace\<close>

text \<open>
  The namespaces that resolving \<open>parts\<close> under the path \<open>ps\<close> makes sure to exist, and what the
  operation leaves alone: the procedures, the variables and, in the sense of \<open>scopes_ok\<close>, the
  scopes of the namespaces.
\<close>

definition way :: "string list \<Rightarrow> string list \<Rightarrow> string list set" where
  "way ps parts = (\<lambda>qs. ps @ qs) ` set (prefixes parts)"

lemma way_first [simp]: "ps \<in> way ps parts"
  by (force simp: way_def)

lemma way_simps:
  "way ps [] = {ps}"
  "way ps (p # parts) = insert ps (way (ps @ [p]) parts)"
  by (auto simp: way_def image_image)

definition scopes_ok :: "Index \<Rightarrow> bool" where
  "scopes_ok ix \<longleftrightarrow> (\<forall>i. ns_valid ix i \<longrightarrow> set (scope_procs (ns_scope (ns_row ix i))) \<subseteq> {0})"

definition resolved :: "Index \<Rightarrow> string list \<Rightarrow> nat \<times> Index \<Rightarrow> bool" where
  "resolved ix ps r \<longleftrightarrow>
     tree_ok (snd r) \<and> extends ix (snd r) \<and>
     procs (snd r) = procs ix \<and> variables (snd r) = variables ix \<and>
     (scopes_ok ix \<longrightarrow> scopes_ok (snd r)) \<and>
     ns_valid (snd r) (fst r) \<and> ns_path (snd r) (fst r) = ps"

lemma add_child_paths:
  assumes ok: "tree_ok ix" and i: "ns_valid ix i"
    and fresh: "part \<notin> name_of ix ` set (children_of ix i)"
    and add: "add_child ix i (ns_row ix i) part = (c, ix')"
  shows "ns_valid ix' c" and "ns_path ix' c = ns_path ix i @ [part]"
    and "ns_paths ix' = insert (ns_path ix i @ [part]) (ns_paths ix)"
proof -
  note e = add_child_eqs [OF ok i add] and o = add_child_ok [OF ok i fresh add]
  show v: "ns_valid ix' c" by (simp add: e(2))
  have c: "c \<in> set (children_of ix' i)" and i': "ns_valid ix' i" "name_of ix' c = part"
    using e(2,4,6) i by simp_all
  show p: "ns_path ix' c = ns_path ix i @ [part]"
    using ns_path_child [OF o(1) i'(1) c] i'(2) extends_path [OF ok o i] by simp
  have "ns_paths ix' = ns_path ix' ` insert c {j. ns_valid ix j}"
    by (auto simp: ns_paths_def e(2))
  also have "\<dots> = insert (ns_path ix' c) (ns_path ix ` {j. ns_valid ix j})"
    using extends_path [OF ok o] by auto
  finally show "ns_paths ix' = insert (ns_path ix i @ [part]) (ns_paths ix)"
    unfolding p by (auto simp: ns_paths_def)
qed

lemma add_child_scopes:
  assumes ok: "tree_ok ix" and i: "ns_valid ix i"
    and add: "add_child ix i (ns_row ix i) part = (c, ix')" and scopes: "scopes_ok ix"
  shows "scopes_ok ix'"
proof -
  note e = add_child_eqs [OF ok i add]
  have "ns_scope (ns_row ix' j) = ns_scope (ns_row ix j)" if "ns_valid ix j" for j
    using that e(5,6) by (cases "j = i") simp_all
  then show ?thesis
    using scopes e(4) by (auto simp: scopes_ok_def e(2) empty_scope_def)
qed

lemma ResolveNamespace_loop_returns:
  "tree_ok ix \<Longrightarrow> ns_valid ix i \<Longrightarrow>
   returns (ResolveNamespace_loop ix parts i)
     (\<lambda>r. resolved ix (ns_path ix i @ parts) r \<and> ns_paths (snd r) = ns_paths ix \<union> way (ns_path ix i) parts)"
proof (induction parts arbitrary: ix i)
  case Nil
  then have "ns_path ix i \<in> ns_paths ix" by (simp add: ns_paths_def)
  with Nil show ?case by (auto simp: resolved_def way_simps)
next
  case (Cons part parts)
  have here: "ns_path ix i \<in> ns_paths ix" using Cons.prems by (simp add: ns_paths_def)
  show ?case
  proof (cases "find (\<lambda>c. name_of ix c = part) (children_of ix i)")
    case None
    obtain c ix' where add: "add_child ix i (ns_row ix i) part = (c, ix')" by (metis surj_pair)
    have fresh: "part \<notin> name_of ix ` set (children_of ix i)"
      using None by (auto simp: find_None_iff)
    note o = add_child_ok [OF Cons.prems fresh add] and p = add_child_paths [OF Cons.prems fresh add]
      and e = add_child_eqs [OF Cons.prems add] and sc = add_child_scopes [OF Cons.prems add]
    show ?thesis
      using Cons.IH [OF o(1) p(1)] Cons.prems None here
      by (auto simp: find_child_tree add p way_simps resolved_def e(8,9) sc
          intro: extends_trans [OF o(2)] elim!: returns_mono)
  next
    case (Some c)
    note c = child_found [OF Cons.prems Some]
    show ?thesis
      using Cons.IH [OF Cons.prems(1) c(1)] Cons.prems Some here
      by (auto simp: find_child_tree c(2) way_simps elim!: returns_mono)
  qed
qed

text \<open>Nothing is added for a path that exists.\<close>

lemma ResolveNamespace_loop_existing:
  "tree_ok ix \<Longrightarrow> ns_valid ix i \<Longrightarrow> ns_lookup ix (ns_path ix i @ parts) = Some j \<Longrightarrow>
   ResolveNamespace_loop ix parts i = Inr (j, ix)"
proof (induction parts arbitrary: i)
  case Nil
  then show ?case by (auto simp: ns_lookup_Some intro: ns_path_inj)
next
  case (Cons part parts)
  show ?case
  proof (cases "find (\<lambda>c. name_of ix c = part) (children_of ix i)")
    case None
    then show ?thesis
      using child_not_found [OF Cons.prems(1,2) None] Cons.prems(3) by (simp flip: ns_lookup_None)
  next
    case (Some c)
    note c = child_found [OF Cons.prems(1,2) Some]
    show ?thesis
      using Cons.IH [OF Cons.prems(1) c(1)] Cons.prems Some c(2) by (simp add: find_child_tree)
  qed
qed

text \<open>The path a name denotes when it is resolved from the namespace \<open>cur\<close>.\<close>

definition base_path :: "Index \<Rightarrow> QualifiedName \<Rightarrow> nat \<Rightarrow> string list" where
  "base_path ix qn cur = (if absolute qn then [] else ns_path ix cur)"

lemma ResolveNamespace_returns:
  assumes "tree_ok ix" "ns_valid ix cur" "NamespaceParts qn = Inr parts"
  shows "returns (ResolveNamespace ix qn cur)
     (\<lambda>r. resolved ix (base_path ix qn cur @ parts) r
        \<and> ns_paths (snd r) = ns_paths ix \<union> way (base_path ix qn cur) parts)"
  using ResolveNamespace_loop_returns [of ix "if absolute qn then global_namespace_id ix else cur" parts]
    assms tree_okD(2) [OF assms(1)]
  by (auto simp: ResolveNamespace_def base_path_def split: if_splits)

lemma ResolveNamespace_existing:
  assumes "tree_ok ix" "ns_valid ix cur" "NamespaceParts qn = Inr parts"
    and "ns_lookup ix (base_path ix qn cur @ parts) = Some j"
  shows "ResolveNamespace ix qn cur = Inr (j, ix)"
  using ResolveNamespace_loop_existing [of ix "if absolute qn then global_namespace_id ix else cur" parts j]
    assms tree_okD(2) [OF assms(1)]
  by (auto simp: ResolveNamespace_def base_path_def split: if_splits)

section \<open>Printing a namespace\<close>

lemma parent_names_eq:
  "tree_ok ix \<Longrightarrow> ns_valid ix i \<Longrightarrow> i \<le> k \<Longrightarrow>
   parent_names k ix (Some i) parts = Inr (parts @ rev ([] # ns_path ix i))"
proof (induction k arbitrary: i parts)
  case 0
  then show ?case by (simp add: valid_id_def)
next
  case (Suc k)
  show ?case
  proof (cases "parent_of ix i")
    case None
    then have "name_of ix i = []" using tree_okD(2,3) Suc.prems by metis
    with None Suc.prems show ?thesis by (cases k) (simp_all add: ns_path_eq)
  next
    case (Some p)
    then have "ns_valid ix p" "p < i" using tree_okD(4) [OF Suc.prems(1,2)] by auto
    with Some Suc show ?thesis by (simp add: ns_path_eq [of ix i])
  qed
qed

lemma print_parts_eq:
  assumes "tree_ok ix" "ns_valid ix i"
  shows "print_parts ix n (Some i) = Inr (abs_name (ns_path ix i @ [n]))"
proof -
  have "i \<le> length (table (namespaces ix))" using assms(2) by (simp add: valid_id_def)
  with assms show ?thesis
    by (simp add: print_parts_def parent_names_eq abs_name_def join_sep_Cons)
qed

lemma GetPrintName_ns_eq:
  assumes "tree_ok ix" "ns_valid ix i"
  shows "GetPrintName_ns ix (ns_row ix i)
    = Inr (if ns_path ix i = [] then [] else abs_name (ns_path ix i))"
proof (cases "parent_of ix i")
  case None
  then show ?thesis
    using assms tree_okD(2) [OF assms(1)] tree_okD(3) [OF assms]
    by (simp add: GetPrintName_ns_def ns_path_Nil)
next
  case (Some p)
  then have "ns_valid ix p" using tree_okD(4) [OF assms] by simp
  with Some assms show ?thesis
    by (simp add: GetPrintName_ns_def print_parts_eq ns_path_eq [of ix i])
qed

lemma GetPrintName_proc_eq:
  "tree_ok ix \<Longrightarrow> ns_valid ix (proc_namespace p) \<Longrightarrow>
   GetPrintName_proc ix p = Inr (abs_name (ns_path ix (proc_namespace p) @ [proc_name p]))"
  by (simp add: GetPrintName_proc_def print_parts_eq)

text \<open>A printed name finds its namespace again.\<close>

lemma FindNamespace_GetPrintName:
  assumes "tree_ok ix" "ns_valid ix i" "simple_names (ns_path ix i)"
  shows "rbind (GetPrintName_ns ix (ns_row ix i)) (FindNamespace ix) = Inr (Some i)"
  using assms FindNamespace_abs_name [OF assms(1,3)] ns_lookup_Some [OF assms(1)]
  by (simp add: GetPrintName_ns_eq)

end
