(* ===== verification/IndexSpec.thy ===== *)
theory IndexSpec
  imports NamespaceTree
begin

text \<open>
  An abstract specification of the index: the set of the paths of namespaces, the list of the
  procedures with the path they are defined at, and the list of the references. The two passes
  over a script and the lookup of a procedure are described on this view, without identifiers,
  parent pointers, tables or failures; the theory \<open>IndexCorrect\<close> shows that the code refines them.
\<close>

section \<open>The view\<close>

record ProcView =
  pv_id :: nat
  pv_path :: "string list"
  pv_name :: string
  pv_required :: "32 word"
  pv_optional :: "32 word"

record IndexView =
  view_paths :: "string list set"
  view_procs :: "ProcView list"
  view_refs :: "Reference list"

definition proc_view :: "Index \<Rightarrow> Proc \<Rightarrow> ProcView" where
  "proc_view ix p = \<lparr>pv_id = proc_id p, pv_path = ns_path ix (proc_namespace p),
     pv_name = proc_name p, pv_required = required_args p, pv_optional = optional_args p\<rparr>"

definition view_of :: "Index \<Rightarrow> IndexView" where
  "view_of ix = \<lparr>view_paths = ns_paths ix, view_procs = map (proc_view ix) (table (procs ix)),
     view_refs = references (procs ix)\<rparr>"

section \<open>Names in a namespace\<close>

text \<open>Where a name leads from a path: its qualifier, taken from the root or from the path.\<close>

definition name_parts :: "QualifiedName \<Rightarrow> string list" where
  "name_parts qn = (case NamespaceParts qn of Inl _ \<Rightarrow> [] | Inr ps \<Rightarrow> ps)"

definition name_base :: "QualifiedName \<Rightarrow> string list \<Rightarrow> string list" where
  "name_base qn path = (if absolute qn then [] else path)"

definition spec_split :: "string \<Rightarrow> QualifiedName" where
  "spec_split s = (case SplitName s of Inl _ \<Rightarrow> \<lparr>ns = None, qname = s, absolute = False\<rparr> | Inr qn \<Rightarrow> qn)"

lemma SplitName_spec: "SplitName s = Inr (spec_split s)"
  using SplitName_total [of s] by (metis spec_split_def sum.simps(6))

text \<open>Creating the namespaces on a way.\<close>

definition spec_resolve :: "string list \<Rightarrow> string list \<Rightarrow> IndexView \<Rightarrow> IndexView" where
  "spec_resolve path parts v = v\<lparr>view_paths := view_paths v \<union> way path parts\<rparr>"

section \<open>Defining a procedure\<close>

text \<open>
  The counters of a procedure: the formal arguments that are single words are required, the
  others (lists of a name and a default) optional; 32-bit counters.
\<close>

definition formal_args :: "Word \<Rightarrow> Word list" where
  "formal_args w = (if word_type w = LIST then (case word_data w of WordVec ws \<Rightarrow> ws | _ \<Rightarrow> []) else [])"

definition spec_required :: "Word list \<Rightarrow> 32 word" where
  "spec_required ws = of_nat (length (filter (\<lambda>w. word_type w = TEXT) ws))"

definition spec_optional :: "Word list \<Rightarrow> 32 word" where
  "spec_optional ws = of_nat (length (filter (\<lambda>w. word_type w \<noteq> TEXT) ws))"

definition spec_define :: "string list \<Rightarrow> Word list \<Rightarrow> IndexView \<Rightarrow> IndexView" where
  "spec_define path ws v =
     (let qn = spec_split (word_str (ws ! 1));
          base = name_base qn path;
          new_id = length (view_procs v) + 1;
          v = spec_resolve base (name_parts qn) v
      in v\<lparr>view_procs := view_procs v @
             [\<lparr>pv_id = new_id, pv_path = base @ name_parts qn, pv_name = qname qn,
               pv_required = spec_required (formal_args (ws ! 2)),
               pv_optional = spec_optional (formal_args (ws ! 2))\<rparr>],
           view_refs := view_refs v @
             [\<lparr>ref_location = word_location (ws ! 1), ref_id = new_id, ref_type = DEFINITION\<rparr>]\<rparr>)"

section \<open>Finding a procedure\<close>

definition procs_at :: "string list \<Rightarrow> string \<Rightarrow> IndexView \<Rightarrow> ProcView list" where
  "procs_at path n v = filter (\<lambda>p. pv_path p = path \<and> pv_name p = n) (view_procs v)"

text \<open>
  A relative name is looked up in the namespace, then in those around it, innermost first. The
  way to every namespace that is tried is created.
\<close>

function spec_find :: "QualifiedName \<Rightarrow> string list \<Rightarrow> IndexView \<Rightarrow> ProcView list \<times> IndexView" where
  "spec_find qn path v =
     (let v = spec_resolve (name_base qn path) (name_parts qn) v;
          found = procs_at (name_base qn path @ name_parts qn) (qname qn) v
      in if found \<noteq> [] \<or> absolute qn \<or> path = [] then (found, v)
         else spec_find qn (butlast path) v)"
  by pat_completeness auto
termination
  by (relation "measure (\<lambda>(qn, path, v). length path)") auto

declare spec_find.simps [simp del]

text \<open>What is found: the procedures of the innermost namespace that has any.\<close>

definition search_paths :: "QualifiedName \<Rightarrow> string list \<Rightarrow> string list list" where
  "search_paths qn path =
     (if absolute qn then [name_parts qn] else map (\<lambda>d. d @ name_parts qn) (rev (prefixes path)))"

fun first_nonempty :: "'a list list \<Rightarrow> 'a list" where
  "first_nonempty [] = []"
| "first_nonempty (xs # xss) = (if xs \<noteq> [] then xs else first_nonempty xss)"

lemma procs_at_resolve [simp]: "procs_at d n (spec_resolve b ps v) = procs_at d n v"
  by (simp add: procs_at_def spec_resolve_def)

lemma spec_resolve_simps [simp]:
  "view_procs (spec_resolve b ps v) = view_procs v"
  "view_refs (spec_resolve b ps v) = view_refs v"
  "view_paths (spec_resolve b ps v) = view_paths v \<union> way b ps"
  by (simp_all add: spec_resolve_def)

lemma rev_prefixes: "rev (prefixes xs) = (if xs = [] then [[]] else xs # rev (prefixes (butlast xs)))"
  by (cases xs rule: rev_cases) simp_all

lemma spec_find_eq:
  "spec_find qn path v =
     (let v = spec_resolve (name_base qn path) (name_parts qn) v;
          found = procs_at (name_base qn path @ name_parts qn) (qname qn) v
      in if found \<noteq> [] \<or> absolute qn \<or> path = [] then (found, v)
         else spec_find qn (butlast path) v)"
  by (rule spec_find.simps)

lemma spec_find_cases:
  "procs_at (name_base qn path @ name_parts qn) (qname qn) v \<noteq> [] \<or> absolute qn \<or> path = [] \<Longrightarrow>
   spec_find qn path v = (procs_at (name_base qn path @ name_parts qn) (qname qn) v,
     spec_resolve (name_base qn path) (name_parts qn) v)"
  "procs_at (name_base qn path @ name_parts qn) (qname qn) v = [] \<Longrightarrow> \<not> absolute qn \<Longrightarrow> path \<noteq> [] \<Longrightarrow>
   spec_find qn path v = spec_find qn (butlast path) (spec_resolve (name_base qn path) (name_parts qn) v)"
  unfolding spec_find_eq [of qn path v] by (auto simp: Let_def)

lemma search_paths_eq:
  "search_paths qn path = (name_base qn path @ name_parts qn) #
     (if absolute qn \<or> path = [] then [] else search_paths qn (butlast path))"
  using rev_prefixes [of path] by (simp add: search_paths_def name_base_def)

lemma spec_find_view:
  "view_procs (snd (spec_find qn path v)) = view_procs v \<and>
   view_refs (snd (spec_find qn path v)) = view_refs v"
proof (induction "length path" arbitrary: path v)
  case 0
  then show ?case by (simp add: spec_find_cases(1))
next
  case (Suc n)
  show ?case
  proof (cases "procs_at (name_base qn path @ name_parts qn) (qname qn) v \<noteq> [] \<or> absolute qn")
    case True
    then show ?thesis by (subst (1 2) spec_find_cases(1)) auto
  next
    case False
    have "path \<noteq> []" using Suc.hyps(2) by auto
    with False show ?thesis
      using Suc.hyps(1) [of "butlast path"] Suc.hyps(2) by (simp add: spec_find_cases(2))
  qed
qed

lemma spec_find_found:
  "fst (spec_find qn path v) = first_nonempty (map (\<lambda>d. procs_at d (qname qn) v) (search_paths qn path))"
proof (induction "length path" arbitrary: path v)
  case 0
  then show ?case by (subst search_paths_eq) (simp add: spec_find_cases(1))
next
  case (Suc n)
  have "path \<noteq> []" using Suc.hyps(2) by auto
  show ?case
  proof (cases "procs_at (name_base qn path @ name_parts qn) (qname qn) v \<noteq> [] \<or> absolute qn")
    case True
    then show ?thesis by (subst spec_find_cases(1), simp, subst search_paths_eq) auto
  next
    case False
    with \<open>path \<noteq> []\<close> show ?thesis
      using Suc.hyps(1) [of "butlast path"] Suc.hyps(2)
      by (subst search_paths_eq) (simp add: spec_find_cases(2))
  qed
qed

section \<open>Choosing a procedure\<close>

definition exact_fit :: "nat \<Rightarrow> ProcView \<Rightarrow> bool" where
  "exact_fit n p \<longleftrightarrow> n = unat (pv_required p)"

definition optional_fit :: "nat \<Rightarrow> ProcView \<Rightarrow> bool" where
  "optional_fit n p \<longleftrightarrow> unat (pv_required p) < n \<and> n \<le> unat (pv_required p + pv_optional p)"

text \<open>
  The first procedure is the choice unless a later one fits: the first of the later ones with
  exactly the required arguments, or else the last one that fits with optional arguments.
\<close>

fun spec_best :: "nat \<Rightarrow> ProcView list \<Rightarrow> ProcView option" where
  "spec_best n [] = None"
| "spec_best n (p # ps) =
     Some (case find (exact_fit n) ps of Some q \<Rightarrow> q | None \<Rightarrow> last (p # filter (optional_fit n) ps))"

definition spec_use :: "string list \<Rightarrow> Word list \<Rightarrow> IndexView \<Rightarrow> IndexView" where
  "spec_use path ws v =
     (case spec_find (spec_split (word_str (ws ! 0))) path v of
        (found, v) \<Rightarrow>
          (case spec_best (length ws - 1) found of
             None \<Rightarrow> v
           | Some p \<Rightarrow> v\<lparr>view_refs := view_refs v @
               [\<lparr>ref_location = word_location (ws ! 0), ref_id = pv_id p, ref_type = USAGE\<rparr>]\<rparr>))"

section \<open>The passes\<close>

lemma nth_size [termination_simp]: "i < length ws \<Longrightarrow> size (ws ! i) \<le> size_list size ws"
  by (intro size_list_estimation' [OF nth_mem]) auto

fun spec_scan_word :: "string list \<Rightarrow> Word \<Rightarrow> IndexView \<Rightarrow> IndexView"
  and spec_scan_words :: "string list \<Rightarrow> Word list \<Rightarrow> IndexView \<Rightarrow> IndexView"
  and spec_scan_call :: "string list \<Rightarrow> Call \<Rightarrow> IndexView \<Rightarrow> IndexView"
  and spec_scan_calls :: "string list \<Rightarrow> Call list \<Rightarrow> IndexView \<Rightarrow> IndexView"
  and spec_scan :: "string list \<Rightarrow> Script \<Rightarrow> IndexView \<Rightarrow> IndexView"
where
  "spec_scan_word path (Word ty loc txt d) v =
     (case d of
        ScriptPtr s \<Rightarrow> spec_scan path s v
      | WordVec ws \<Rightarrow> if ty = EXPAND \<or> ty = TOKEN_LIST then spec_scan_words path ws v else v
      | _ \<Rightarrow> v)"
| "spec_scan_words path [] v = v"
| "spec_scan_words path (w # ws) v = spec_scan_words path ws (spec_scan_word path w v)"
| "spec_scan_call path (Call ty ws cns) v =
     (case ty of
        NAMESPACE_EVAL \<Rightarrow>
          (let parts = split_sep (word_str (ws ! 2)) in
           if 3 < length ws
           then spec_scan_word (path @ parts) (ws ! 3) (spec_resolve path parts v) else v)
      | PROC \<Rightarrow> spec_scan_words path ws (spec_define path ws v)
      | _ \<Rightarrow> spec_scan_words path ws v)"
| "spec_scan_calls path [] v = v"
| "spec_scan_calls path (c # cs) v = spec_scan_calls path cs (spec_scan_call path c v)"
| "spec_scan path (Script loc cs) v = spec_scan_calls path cs v"

fun spec_index_word :: "string list \<Rightarrow> Word \<Rightarrow> IndexView \<Rightarrow> IndexView"
  and spec_index_words :: "string list \<Rightarrow> Word list \<Rightarrow> IndexView \<Rightarrow> IndexView"
  and spec_index_call :: "string list \<Rightarrow> Call \<Rightarrow> IndexView \<Rightarrow> IndexView"
  and spec_index_calls :: "string list \<Rightarrow> Call list \<Rightarrow> IndexView \<Rightarrow> IndexView"
  and spec_index :: "string list \<Rightarrow> Script \<Rightarrow> IndexView \<Rightarrow> IndexView"
where
  "spec_index_word path (Word ty loc txt d) v =
     (case d of
        ScriptPtr s \<Rightarrow> spec_index path s v
      | WordVec ws \<Rightarrow> if ty = EXPAND \<or> ty = TOKEN_LIST then spec_index_words path ws v else v
      | ArrayAccess n ws \<Rightarrow> spec_index_words path ws v
      | _ \<Rightarrow> v)"
| "spec_index_words path [] v = v"
| "spec_index_words path (w # ws) v = spec_index_words path ws (spec_index_word path w v)"
| "spec_index_call path (Call ty ws cns) v =
     (case ty of
        NAMESPACE_EVAL \<Rightarrow>
          (let parts = split_sep (word_str (ws ! 2)) in
           if 3 < length ws
           then spec_index_word (path @ parts) (ws ! 3) (spec_resolve path parts v) else v)
      | PROC \<Rightarrow>
          (let qn = spec_split (word_str (ws ! 1)); base = name_base qn path; parts = name_parts qn in
           if 3 < length ws
           then spec_index_word (base @ parts) (ws ! 3) (spec_resolve base parts v) else v)
      | USER \<Rightarrow> spec_index_words path ws (spec_use path ws v)
      | _ \<Rightarrow> spec_index_words path ws v)"
| "spec_index_calls path [] v = v"
| "spec_index_calls path (c # cs) v = spec_index_calls path cs (spec_index_call path c v)"
| "spec_index path (Script loc cs) v = spec_index_calls path cs v"

definition spec_build :: "string list \<Rightarrow> Script \<Rightarrow> IndexView \<Rightarrow> IndexView" where
  "spec_build path s v = spec_index path s (spec_scan path s v)"

end
