(* ===== verification/IndexCorrect.thy ===== *)
theory IndexCorrect
  imports IndexSpec ScriptProps
begin

text \<open>
  The operations of \<open>IndexModel\<close> return normally on an index that satisfies the invariant
  \<open>index_ok\<close>, keep it, and refine the abstract operations of \<open>IndexSpec\<close>.
\<close>

section \<open>The invariant of an index\<close>

definition proc_ok :: "Index \<Rightarrow> Proc \<Rightarrow> bool" where
  "proc_ok ix p \<longleftrightarrow> ns_valid ix (proc_namespace p) \<and> \<not> is_variadic p \<and>
     list_all (valid_id (variables ix)) (arguments p)"

definition index_ok :: "Index \<Rightarrow> bool" where
  "index_ok ix \<longleftrightarrow> tree_ok ix \<and> scopes_ok ix \<and> proc_db.table_ok (procs ix) \<and>
     var_db.table_ok (variables ix) \<and> (\<forall>p \<in> set (table (procs ix)). proc_ok ix p)"

lemma index_ok_tree [simp]: "index_ok ix \<Longrightarrow> tree_ok ix"
  by (simp add: index_ok_def)

lemma index_ok_make_index: "index_ok make_index"
proof -
  have v: "ns_valid make_index i \<longleftrightarrow> i = 1" for i
    by (auto simp: make_index_eqs valid_id_def)
  have "scopes_ok make_index"
    unfolding scopes_ok_def v by (simp add: make_index_eqs row_at_def empty_scope_def)
  moreover have "table (procs make_index) = []"
    by (simp add: make_index_eqs empty_record_def)
  moreover have "proc_db.table_ok (procs make_index)" "var_db.table_ok (variables make_index)"
    by (simp_all only: make_index_eqs proc_db.table_ok_empty var_db.table_ok_empty)
  ultimately show ?thesis using tree_ok_make_index by (simp add: index_ok_def)
qed

text \<open>What is in an index stays in it: its namespaces, its variables and its procedures.\<close>

definition grows :: "Index \<Rightarrow> Index \<Rightarrow> bool" where
  "grows ix ix' \<longleftrightarrow> extends ix ix' \<and> prefix (table (variables ix)) (table (variables ix')) \<and>
     prefix (table (procs ix)) (table (procs ix')) \<and>
     prefix (references (procs ix)) (references (procs ix'))"

lemma grows_refl [simp]: "grows ix ix"
  by (simp add: grows_def)

lemma grows_trans: "grows ix ix' \<Longrightarrow> grows ix' ix'' \<Longrightarrow> grows ix ix''"
  unfolding grows_def by (intro conjI; elim conjE) (erule (1) extends_trans prefix_order.trans)+

lemma grows_valid: "grows ix ix' \<Longrightarrow> ns_valid ix i \<Longrightarrow> ns_valid ix' i"
  unfolding grows_def by (elim conjE) (rule extends_valid)

lemma grows_path: "grows ix ix' \<Longrightarrow> tree_ok ix \<Longrightarrow> tree_ok ix' \<Longrightarrow> ns_valid ix i \<Longrightarrow> ns_path ix' i = ns_path ix i"
  unfolding grows_def by (elim conjE) (rule extends_path)

lemma proc_view_cong:
  "grows ix ix' \<Longrightarrow> tree_ok ix \<Longrightarrow> tree_ok ix' \<Longrightarrow> ns_valid ix (proc_namespace p) \<Longrightarrow>
   proc_view ix' p = proc_view ix p"
  by (simp add: proc_view_def grows_path)

lemma prefix_valid_id: "prefix (table r) (table r') \<Longrightarrow> valid_id r i \<Longrightarrow> valid_id r' i"
  using prefix_length_le [of "table r" "table r'"] by (simp add: valid_id_def)

lemma proc_ok_grows: "grows ix ix' \<Longrightarrow> proc_ok ix p \<Longrightarrow> proc_ok ix' p"
  unfolding proc_ok_def list_all_iff
  by (intro conjI ballI) (auto intro: grows_valid prefix_valid_id simp: grows_def)

lemma view_paths_mem: "ns_valid ix i \<Longrightarrow> ns_path ix i \<in> ns_paths ix"
  by (simp add: ns_paths_def)

lemma same_view:
  assumes "grows ix ix'" "index_ok ix" "tree_ok ix'" "\<And>i. ns_valid ix' i \<longleftrightarrow> ns_valid ix i"
  shows "map (proc_view ix') (table (procs ix)) = map (proc_view ix) (table (procs ix))"
    and "ns_paths ix' = ns_paths ix"
proof -
  show "map (proc_view ix') (table (procs ix)) = map (proc_view ix) (table (procs ix))"
    using assms(2) by (intro map_cong)
      (auto simp: index_ok_def proc_ok_def intro!: proc_view_cong [OF assms(1) _ assms(3)])
  have "set (ns_ids ix') = set (ns_ids ix)" using assms(4) by auto
  then show "ns_paths ix' = ns_paths ix"
    unfolding ns_paths_def using grows_path [OF assms(1) _ assms(3)] assms(2) by (intro image_cong) auto
qed

section \<open>Resolving a namespace\<close>

lemma resolved_grows: "resolved ix ps r \<Longrightarrow> grows ix (snd r)"
  by (simp add: resolved_def grows_def)

lemma resolved_index_ok:
  assumes "index_ok ix" "resolved ix ps r"
  shows "index_ok (snd r)"
  using assms proc_ok_grows [OF resolved_grows [OF assms(2)]] by (simp add: index_ok_def resolved_def)

lemma resolved_view:
  assumes "index_ok ix" "resolved ix ps r" "ns_paths (snd r) = ns_paths ix \<union> way b parts"
  shows "view_of (snd r) = spec_resolve b parts (view_of ix)"
proof -
  have "map (proc_view (snd r)) (table (procs ix)) = map (proc_view ix) (table (procs ix))"
    using assms(1,2) resolved_grows [OF assms(2)]
    by (intro map_cong) (auto simp: resolved_def index_ok_def proc_ok_def intro: proc_view_cong)
  with assms(2,3) show ?thesis by (simp add: view_of_def spec_resolve_def resolved_def)
qed

text \<open>A name that the indexer resolves without an exception.\<close>

definition plain :: "string \<Rightarrow> bool" where
  "plain s \<longleftrightarrow> \<not> (sep_at s 0 \<and> rfind_sep s = Some 1)"

lemma plain_parts:
  assumes "plain s"
  shows "NamespaceParts (spec_split s) = Inr (name_parts (spec_split s))"
proof -
  obtain ps where "NamespaceParts (spec_split s) = Inr ps"
    using NamespaceParts_throws [OF SplitName_spec [of s]] assms
    by (cases "NamespaceParts (spec_split s)") (auto simp: plain_def)
  then show ?thesis by (simp add: name_parts_def)
qed

lemma name_parts_unqualified:
  "\<not> (absolute qn \<or> ns qn \<noteq> None) \<Longrightarrow> name_parts qn = [] \<and> name_base qn path = path"
  by (simp add: name_parts_def NamespaceParts_def name_base_def)

lemma base_path_name_base: "base_path ix qn cur = name_base qn (ns_path ix cur)"
  by (simp add: base_path_def name_base_def)

lemma Resolve_returns:
  assumes "index_ok ix" "ns_valid ix cur" "NamespaceParts qn = Inr parts"
  shows "returns (ResolveNamespace ix qn cur)
     (\<lambda>r. index_ok (snd r) \<and> grows ix (snd r) \<and> ns_valid (snd r) (fst r) \<and>
        procs (snd r) = procs ix \<and>
        ns_path (snd r) (fst r) = name_base qn (ns_path ix cur) @ parts \<and>
        view_of (snd r) = spec_resolve (name_base qn (ns_path ix cur)) parts (view_of ix))"
  using ResolveNamespace_returns [OF index_ok_tree [OF assms(1)] assms(2,3)]
  by (rule returns_mono)
    (auto simp: base_path_name_base resolved_def
      intro: resolved_index_ok [OF assms(1)] resolved_grows resolved_view [OF assms(1)])

text \<open>\<open>ResolveNamespace\<close> guarded by the test for a qualified name.\<close>

lemma Resolve_if_returns:
  assumes "index_ok ix" "ns_valid ix cur" "NamespaceParts qn = Inr (name_parts qn)"
  shows "returns (if absolute qn \<or> ns qn \<noteq> None then ResolveNamespace ix qn cur else Inr (cur, ix))
     (\<lambda>r. index_ok (snd r) \<and> grows ix (snd r) \<and> ns_valid (snd r) (fst r) \<and>
        procs (snd r) = procs ix \<and>
        ns_path (snd r) (fst r) = name_base qn (ns_path ix cur) @ name_parts qn \<and>
        view_of (snd r) = spec_resolve (name_base qn (ns_path ix cur)) (name_parts qn) (view_of ix))"
proof (cases "absolute qn \<or> ns qn \<noteq> None")
  case True
  then show ?thesis using Resolve_returns [OF assms] by simp
next
  case False
  have "insert (ns_path ix cur) (ns_paths ix) = ns_paths ix"
    using view_paths_mem [OF assms(2)] by auto
  with False name_parts_unqualified [OF False] assms(1,2) show ?thesis
    by (simp add: spec_resolve_def way_simps view_of_def)
qed

section \<open>Defining a procedure\<close>

text \<open>
  The formal arguments of a procedure as the parser gives them: an element that is not a single
  word must be a list with a first word.
\<close>

definition args_ok :: "Word \<Rightarrow> bool" where
  "args_ok w \<longleftrightarrow> (word_type w = LIST \<longrightarrow>
     (case word_data w of
        WordVec ws \<Rightarrow> list_all (\<lambda>a. word_type a = TEXT \<or>
          (case word_data a of WordVec vs \<Rightarrow> vs \<noteq> [] | _ \<Rightarrow> False)) ws
      | _ \<Rightarrow> False))"

text \<open>The result of adding the formal arguments \<open>ws\<close> to the procedure \<open>p\<close>.\<close>

definition arguments_added :: "Index \<Rightarrow> Proc \<Rightarrow> Word list \<Rightarrow> Proc \<times> Index \<Rightarrow> bool" where
  "arguments_added ix p ws = (\<lambda>(p', ix').
     ix' = ix\<lparr>variables := variables ix'\<rparr> \<and> var_db.table_ok (variables ix') \<and>
     prefix (table (variables ix)) (table (variables ix')) \<and>
     list_all (valid_id (variables ix')) (arguments p') \<and>
     length (arguments p') = length (arguments p) + length ws \<and>
     required_args p' = required_args p + spec_required ws \<and>
     optional_args p' = optional_args p + spec_optional ws \<and>
     is_variadic p' = is_variadic p \<and> proc_name p' = proc_name p \<and> proc_id p' = proc_id p)"

lemma argument_added:
  assumes rest: "\<And>ix p. var_db.table_ok (variables ix) \<Longrightarrow> list_all (valid_id (variables ix)) (arguments p) \<Longrightarrow>
      returns (add_arguments ix p ws) (arguments_added ix p ws)"
    and ok: "var_db.table_ok (variables ix)" "list_all (valid_id (variables ix)) (arguments p)"
    and q: "arguments q = arguments p" "is_variadic q = is_variadic p" "proc_name q = proc_name p"
      "proc_id q = proc_id p" "required_args q = required_args p + spec_required [a]"
      "optional_args q = optional_args p + spec_optional [a]"
  shows "returns (case insert_variable \<lparr>var_id = 0, var_name = n\<rparr> (variables ix) of
      (v, vars) \<Rightarrow> add_arguments (ix\<lparr>variables := vars\<rparr>) (q\<lparr>arguments := arguments q @ [var_id v]\<rparr>) ws)
    (arguments_added ix p (a # ws))"
proof -
  obtain v vars where ins: "insert_variable \<lparr>var_id = 0, var_name = n\<rparr> (variables ix) = (v, vars)"
    by (metis surj_pair)
  note ok' = var_db.Insert_ok [OF ok(1) ins] and row = var_db.Insert_row [OF ins]
    and valid = var_db.Insert_valid [OF ins]
  have pre: "prefix (table (variables ix)) (table vars)" using row(3) by simp
  have args: "list_all (valid_id vars) (arguments p @ [var_id v])"
    using ok(2) valid(1) by (auto simp: list_all_iff)
  have counts: "spec_required (a # ws) = spec_required [a] + spec_required ws"
    "spec_optional (a # ws) = spec_optional [a] + spec_optional ws"
    by (simp_all add: spec_required_def spec_optional_def)
  show ?thesis
    using rest [of "ix\<lparr>variables := vars\<rparr>" "q\<lparr>arguments := arguments q @ [var_id v]\<rparr>"] ok' args pre q
    by (simp add: ins) (erule returns_mono, auto simp: arguments_added_def counts add.assoc intro: prefix_order.trans)
qed

lemma add_arguments_added:
  "list_all (\<lambda>a. word_type a = TEXT \<or> (case word_data a of WordVec vs \<Rightarrow> vs \<noteq> [] | _ \<Rightarrow> False)) ws \<Longrightarrow>
   var_db.table_ok (variables ix) \<Longrightarrow> list_all (valid_id (variables ix)) (arguments p) \<Longrightarrow>
   returns (add_arguments ix p ws) (arguments_added ix p ws)"
proof (induction ws arbitrary: p ix)
  case Nil
  then show ?case by (simp add: arguments_added_def spec_required_def spec_optional_def)
next
  case (Cons a ws)
  note step = argument_added [OF Cons.IH Cons.prems(2,3)]
  show ?case
  proof (cases "word_type a = TEXT")
    case True
    then show ?thesis
      using step [of "p\<lparr>required_args := required_args p + 1\<rparr>" a "word_str a"] Cons.prems(1)
      by (simp add: spec_required_def spec_optional_def)
  next
    case False
    then obtain w vs where "word_data a = WordVec (w # vs)"
      using Cons.prems(1) by (cases "word_data a") (auto simp: neq_Nil_conv)
    with False show ?thesis
      using step [of "p\<lparr>optional_args := optional_args p + 1\<rparr>" a "word_str w"] Cons.prems(1)
      by (simp add: spec_required_def spec_optional_def get_WordVec_def)
  qed
qed

lemmas add_arguments_returns = add_arguments_added [unfolded arguments_added_def]

lemma tree_ok_same:
  assumes "tree_ok ix" "ns_db.table_ok (namespaces ix')"
    and "global_namespace_id ix' = global_namespace_id ix"
    and "\<And>i. ns_valid ix' i \<longleftrightarrow> ns_valid ix i"
    and "\<And>i. ns_valid ix i \<Longrightarrow> name_of ix' i = name_of ix i \<and> parent_of ix' i = parent_of ix i \<and>
      children_of ix' i = children_of ix i"
  shows "tree_ok ix'"
proof -
  note t = tree_okD [OF assms(1)]
  have names: "map (name_of ix') (children_of ix i) = map (name_of ix) (children_of ix i)"
    if "ns_valid ix i" for i
    using t(5) [OF that] assms(5) by (intro map_cong) auto
  show ?thesis
    unfolding tree_ok_def
  proof (intro conjI allI impI ballI, goal_cases)
    case 1 show ?case by (rule assms(2))
  next
    case 2 show ?case using t(2) by (simp add: assms(3,4))
  next
    case 3 show ?case using t(2) assms(5) by (simp add: assms(3))
  next
    case (4 i) then show ?case using t(3) assms(5) by (simp add: assms(3,4))
  next
    case (5 i p) then show ?case using t(4) [of i p] assms(5) [of i] by (simp add: assms(4))
  next
    case (6 i p) then show ?case using t(4) [of i p] assms(5) [of i] by (simp add: assms(4))
  next
    case (7 i p) then show ?case using t(4) [of i p] assms(5) [of i] assms(5) [of p] by (simp add: assms(4))
  next
    case (8 i c) then show ?case using t(5) [of i c] assms(5) [of i] by (simp add: assms(4))
  next
    case (9 i c) then show ?case using t(5) [of i c] assms(5) [of i] assms(5) [of c] by (simp add: assms(4))
  next
    case (10 i)
    then have i: "ns_valid ix i" by (simp add: assms(4))
    then have "children_of ix' i = children_of ix i" using assms(5) by simp
    then show ?case using t(6) [OF i] by (simp only: names [OF i])
  qed
qed

lemma add_scope_proc_returns:
  assumes "index_ok ix" "ns_valid ix i" "ix' = add_scope_proc i 0 ix"
  shows "index_ok ix'" and "grows ix ix'" and "view_of ix' = view_of ix"
    and "ns_valid ix' j \<longleftrightarrow> ns_valid ix j" and "procs ix' = procs ix"
proof -
  let ?g = "\<lambda>n. n\<lparr>ns_scope := (ns_scope n)\<lparr>scope_procs := scope_procs (ns_scope n) @ [0]\<rparr>\<rparr>"
  have ix': "namespaces ix' = modify i ?g (namespaces ix)" "procs ix' = procs ix"
    "variables ix' = variables ix" "global_namespace_id ix' = global_namespace_id ix"
    using assms(3) by (simp_all add: add_scope_proc_def)
  show valid: "ns_valid ix' j \<longleftrightarrow> ns_valid ix j" for j by (simp add: ix')
  show "procs ix' = procs ix" by (rule ix')
  have row: "ns_row ix' j = (if j = i then ?g (ns_row ix i) else ns_row ix j)" if "ns_valid ix j" for j
    using that assms(2) by (simp add: ix' row_at_modify)
  have same: "name_of ix' j = name_of ix j \<and> parent_of ix' j = parent_of ix j \<and>
      children_of ix' j = children_of ix j" if "ns_valid ix j" for j
    using row [OF that] by simp
  have t: "tree_ok ix" "ns_db.table_ok (namespaces ix)" using assms(1) by (simp_all add: tree_okD)
  then have tab: "ns_db.table_ok (namespaces ix')"
    unfolding ix' using assms(2) by (intro ns_db.modify_ok) auto
  have tree: "tree_ok ix'"
    by (rule tree_ok_same [OF t(1) tab ix'(4) valid same])
  show g: "grows ix ix'"
    using same valid by (simp add: grows_def extends_def ix')
  have "scopes_ok ix'"
    using assms(1) row by (auto simp: scopes_ok_def valid index_ok_def split: if_splits)
  then show ok: "index_ok ix'"
    using assms(1) tree proc_ok_grows [OF g] by (simp add: index_ok_def ix')
  then show "view_of ix' = view_of ix"
    using same_view [OF g assms(1) tree valid] by (simp add: view_of_def ix')
qed

lemma insert_proc_returns:
  assumes "index_ok ix" "proc_ok ix p" "insert_proc p (procs ix) = (q, ps)"
    and "ix' = AddCommandReference (ix\<lparr>procs := ps\<rparr>) loc q DEFINITION"
  shows "index_ok ix'" and "grows ix ix'"
    and "view_of ix' = (view_of ix)\<lparr>view_procs := view_procs (view_of ix) @
        [(proc_view ix p)\<lparr>pv_id := length (view_procs (view_of ix)) + 1\<rparr>],
      view_refs := view_refs (view_of ix) @
        [\<lparr>ref_location = loc, ref_id = length (view_procs (view_of ix)) + 1, ref_type = DEFINITION\<rparr>]\<rparr>"
proof -
  note row = proc_db.Insert_row [OF assms(3)] and valid = proc_db.Insert_valid [OF assms(3)]
  let ?ref = "\<lparr>ref_location = loc, ref_id = proc_id q, ref_type = DEFINITION\<rparr>"
  have ix': "namespaces ix' = namespaces ix" "variables ix' = variables ix"
    "global_namespace_id ix' = global_namespace_id ix" "procs ix' = AddReference ref_id ?ref ps"
    "table (procs ix') = table (procs ix) @ [q]" "references (procs ix') = references (procs ix) @ [?ref]"
    using row(3,4) by (simp_all add: assms(4) AddCommandReference_def AddReference_def Let_def)
  have tree: "tree_ok ix'" using assms(1) tree_ok_cong [of ix' ix] by (simp add: ix')
  show g: "grows ix ix'" by (simp add: grows_def extends_def ix'(1-3,5,6))
  have "proc_db.table_ok ps" using proc_db.Insert_ok [OF _ assms(3)] assms(1) by (simp add: index_ok_def)
  then have tab: "proc_db.table_ok (procs ix')"
    unfolding ix' using valid(1) by (intro proc_db.AddReference_ok) auto
  have q: "q = p\<lparr>proc_id := length (table (procs ix)) + 1\<rparr>" using row(1) by (simp add: set_proc_id_def)
  then have "proc_ok ix q" using assms(2) by (simp add: proc_ok_def)
  then show "index_ok ix'"
    using assms(1) tree tab proc_ok_grows [OF g] by (auto simp: index_ok_def ix'(2,5) scopes_ok_def ix'(1))
  have path: "ns_path ix' i = ns_path ix i" if "ns_valid ix i" for i
    using grows_path [OF g _ tree that] assms(1) by simp
  note sv = same_view [OF g assms(1) tree]
  have "proc_view ix' q = (proc_view ix p)\<lparr>pv_id := length (table (procs ix)) + 1\<rparr>"
    using assms(2) path by (simp add: proc_view_def q proc_ok_def)
  then show "view_of ix' = (view_of ix)\<lparr>view_procs := view_procs (view_of ix) @
        [(proc_view ix p)\<lparr>pv_id := length (view_procs (view_of ix)) + 1\<rparr>],
      view_refs := view_refs (view_of ix) @
        [\<lparr>ref_location = loc, ref_id = length (view_procs (view_of ix)) + 1, ref_type = DEFINITION\<rparr>]\<rparr>"
    using sv by (simp add: view_of_def ix'(1,5,6) row(2))
qed

text \<open>A variable table that grew does not show in the view.\<close>

lemma variables_returns:
  assumes "index_ok ix" "ix' = ix\<lparr>variables := vs\<rparr>" "var_db.table_ok vs"
    "prefix (table (variables ix)) (table vs)"
  shows "index_ok ix'" and "grows ix ix'" and "view_of ix' = view_of ix"
proof -
  have tree: "tree_ok ix'" using assms(1,2) tree_ok_cong [of ix' ix] by simp
  show g: "grows ix ix'" using assms(2,4) by (simp add: grows_def extends_def)
  show "index_ok ix'"
    using assms tree proc_ok_grows [OF g] by (auto simp: index_ok_def scopes_ok_def)
  show "view_of ix' = view_of ix"
    using same_view [OF g assms(1) tree] by (simp add: view_of_def assms(2))
qed

text \<open>The row that is built before the namespace is known, and the index with its variables.\<close>

definition proc_built :: "Index \<Rightarrow> Word list \<Rightarrow> Proc \<times> Index \<Rightarrow> bool" where
  "proc_built ix ws r \<longleftrightarrow>
     index_ok (snd r) \<and> grows ix (snd r) \<and> view_of (snd r) = view_of ix \<and>
     proc_name (fst r) = qname (spec_split (word_str (ws ! 1))) \<and> proc_id (fst r) = 0 \<and>
     list_all (valid_id (variables (snd r))) (arguments (fst r)) \<and> \<not> is_variadic (fst r) \<and>
     required_args (fst r) = spec_required (formal_args (ws ! 2)) \<and>
     optional_args (fst r) = spec_optional (formal_args (ws ! 2))"

lemma proc_built_returns:
  assumes "index_ok ix" "args_ok (ws ! 2)"
    and "p = new_Proc\<lparr>proc_name := qname (spec_split (word_str (ws ! 1)))\<rparr>"
  shows "returns (if word_type (ws ! 2) = LIST
      then rbind (get_WordVec (ws ! 2)) (\<lambda>vec. add_arguments ix p vec) else Inr (p, ix))
    (proc_built ix ws)"
proof (cases "word_type (ws ! 2) = LIST")
  case True
  then obtain vec where vec: "word_data (ws ! 2) = WordVec vec"
    using assms(2) by (cases "word_data (ws ! 2)") (auto simp: args_ok_def)
  have "returns (add_arguments ix p vec) (proc_built ix ws)"
  proof (rule returns_mono [OF add_arguments_returns])
    show "list_all (\<lambda>a. word_type a = TEXT \<or> (case word_data a of WordVec vs \<Rightarrow> vs \<noteq> [] | _ \<Rightarrow> False)) vec"
      using assms(2) True vec by (simp add: args_ok_def)
    show "var_db.table_ok (variables ix)" using assms(1) by (simp add: index_ok_def)
    show "list_all (valid_id (variables ix)) (arguments p)" by (simp add: assms(3) new_Proc_def)
  next
    fix r :: "Proc \<times> Index"
    assume r: "case r of (p', ix') \<Rightarrow> ix' = ix\<lparr>variables := variables ix'\<rparr> \<and> var_db.table_ok (variables ix') \<and>
     prefix (table (variables ix)) (table (variables ix')) \<and>
     list_all (valid_id (variables ix')) (arguments p') \<and>
     length (arguments p') = length (arguments p) + length vec \<and>
     required_args p' = required_args p + spec_required vec \<and>
     optional_args p' = optional_args p + spec_optional vec \<and>
     is_variadic p' = is_variadic p \<and> proc_name p' = proc_name p \<and> proc_id p' = proc_id p"
    obtain p' ix' where eq: "r = (p', ix')" by (cases r)
    have "index_ok ix'" "grows ix ix'" "view_of ix' = view_of ix"
      using r variables_returns [OF assms(1), of ix' "variables ix'"] by (auto simp: eq)
    then show "proc_built ix ws r"
      using r True vec by (simp add: eq proc_built_def formal_args_def assms(3) new_Proc_def)
  qed
  with True vec show ?thesis by (simp add: get_WordVec_def)
next
  case False
  with assms(1) show ?thesis
    by (simp add: proc_built_def assms(3) new_Proc_def formal_args_def spec_required_def spec_optional_def)
qed

text \<open>The end of \<open>AddProcToIndex\<close>: the procedure is entered, with a reference to its definition.\<close>

definition enter_proc :: "Index \<Rightarrow> nat \<Rightarrow> Proc \<Rightarrow> Word list \<Rightarrow> Index result" where
  "enter_proc ix target p ws =
     (let ix = add_scope_proc target (proc_id p) ix;
          p = p\<lparr>proc_namespace := target\<rparr>;
          (p, ps) = insert_proc p (procs ix);
          ix = ix\<lparr>procs := ps\<rparr>
      in Inr (AddCommandReference ix (word_location (ws ! 1)) p DEFINITION))"

lemma enter_proc_returns:
  assumes ok: "index_ok ix" and cur: "ns_valid ix cur"
    and b: "proc_built ix ws (p, ix1)" and r: "index_ok ix2" "grows ix1 ix2" "ns_valid ix2 i"
      "ns_path ix2 i = name_base qn (ns_path ix1 cur) @ name_parts qn"
      "view_of ix2 = spec_resolve (name_base qn (ns_path ix1 cur)) (name_parts qn) (view_of ix1)"
    and qn: "qn = spec_split (word_str (ws ! 1))"
  shows "returns (enter_proc ix2 i p ws) (\<lambda>ix'. index_ok ix' \<and> grows ix ix' \<and>
    view_of ix' = spec_define (ns_path ix cur) ws (view_of ix))"
proof -
  obtain ix3 where ix3: "ix3 = add_scope_proc i 0 ix2" by simp
  note sp = add_scope_proc_returns [OF r(1,3) ix3]
  obtain q ps where ins: "insert_proc (p\<lparr>proc_namespace := i\<rparr>) (procs ix3) = (q, ps)"
    by (metis surj_pair)
  let ?ix = "AddCommandReference (ix3\<lparr>procs := ps\<rparr>) (word_location (ws ! 1)) q DEFINITION"
  have g: "grows ix1 ix3" using r(2) sp(2) by (rule grows_trans)
  have "proc_ok ix1 (p\<lparr>proc_namespace := global_namespace_id ix1\<rparr>)"
    using b tree_okD(2) [of ix1] by (simp add: proc_built_def proc_ok_def)
  then have "proc_ok ix3 (p\<lparr>proc_namespace := i\<rparr>)"
    using proc_ok_grows [OF g] r(3) sp(4) by (fastforce simp: proc_ok_def)
  note ins' = insert_proc_returns [OF sp(1) this ins refl, where loc = "word_location (ws ! 1)"]
  have paths: "ns_path ix1 cur = ns_path ix cur" "ns_path ix3 i = ns_path ix2 i"
    using b ok cur r(1) grows_path [of ix ix1 cur] grows_path [OF sp(2) _ _ r(3)] sp(1)
    by (simp_all add: proc_built_def)
  have "grows ix ?ix"
    using b g ins'(2) by (auto simp: proc_built_def intro: grows_trans)
  moreover have "view_of ?ix = spec_define (ns_path ix cur) ws (view_of ix)"
    unfolding ins'(3) sp(3) r(5)
    using b by (simp add: spec_define_def Let_def proc_built_def paths r(4) proc_view_def qn)
  ultimately show ?thesis
    using ins'(1) b ins by (simp add: enter_proc_def Let_def proc_built_def flip: ix3)
qed

lemma AddProcToIndex_returns:
  assumes ok: "index_ok ix" and cur: "ns_valid ix cur"
    and ws: "2 < length ws" "plain (word_str (ws ! 1))" "args_ok (ws ! 2)"
  shows "returns (AddProcToIndex ix cur ws) (\<lambda>ix'. index_ok ix' \<and> grows ix ix' \<and>
    view_of ix' = spec_define (ns_path ix cur) ws (view_of ix))"
proof -
  let ?qn = "spec_split (word_str (ws ! 1))"
  have rest: "returns (rbind (if absolute ?qn \<or> ns ?qn \<noteq> None then ResolveNamespace ix1 ?qn cur else Inr (cur, ix1))
        (\<lambda>(resolved, ix). enter_proc ix resolved p ws))
     (\<lambda>ix'. index_ok ix' \<and> grows ix ix' \<and> view_of ix' = spec_define (ns_path ix cur) ws (view_of ix))"
    if b: "proc_built ix ws (p, ix1)" for p ix1
  proof (rule returns_rbind [OF Resolve_if_returns], goal_cases)
    case 1 show ?case using b by (simp add: proc_built_def)
  next
    case 2 show ?case using b cur by (auto simp: proc_built_def intro: grows_valid)
  next
    case 3 show ?case by (rule plain_parts [OF ws(2)])
  next
    case (4 r)
    then show ?case using enter_proc_returns [OF ok cur b, of "snd r" "fst r", OF _ _ _ _ _ refl] by (cases r) simp
  qed
  have len: "1 < length ws" using ws(1) by simp
  show ?thesis
    unfolding AddProcToIndex_def SplitName_spec nth_r_ok [OF len] nth_r_ok [OF ws(1)] rbind_simps Let_def
  proof (rule returns_rbind [OF proc_built_returns [OF ok ws(3) refl]], goal_cases)
    case (1 r)
    obtain p ix1 where r: "r = (p, ix1)" by (cases r)
    show ?case unfolding r prod.case by (rule rest [unfolded enter_proc_def Let_def, OF 1 [unfolded r]])
  qed
qed

section \<open>Finding a procedure\<close>

lemma candidates_eq:
  "proc_db.table_ok (procs ix) \<Longrightarrow> set ps \<subseteq> set (table (procs ix)) \<Longrightarrow>
   candidates ix (map (\<lambda>p. (n, proc_id p)) ps) target = Inr (filter (\<lambda>p. proc_namespace p = target) ps)"
  by (induction ps) (auto simp: proc_db.row_in_table)

lemma candidates_view:
  assumes "index_ok ix" "ns_valid ix i"
    and "ps = filter (\<lambda>p. proc_namespace p = i) (filter (\<lambda>p. proc_name p = n) (table (procs ix)))"
  shows "candidates ix (mm_equal_range n (byName (procs ix))) i = Inr ps"
    and "map (proc_view ix) ps = procs_at (ns_path ix i) n (view_of ix)"
proof -
  have tab: "proc_db.table_ok (procs ix)" using assms(1) by (simp add: index_ok_def)
  show "candidates ix (mm_equal_range n (byName (procs ix))) i = Inr ps"
    using candidates_eq [OF tab] by (auto simp: proc_db.byName_range [OF tab] assms(3))
  have "proc_namespace p = i \<longleftrightarrow> ns_path ix (proc_namespace p) = ns_path ix i"
    if "p \<in> set (table (procs ix))" for p
    using that assms(1,2) ns_path_inj [of ix "proc_namespace p" i]
    by (auto simp: index_ok_def proc_ok_def)
  then show "map (proc_view ix) ps = procs_at (ns_path ix i) n (view_of ix)"
    by (auto simp: assms(3) procs_at_def view_of_def filter_map o_def proc_view_def
        intro!: arg_cong [where f = "map _"] filter_cong)
qed

text \<open>What a lookup of the name \<open>qn\<close> from the namespace \<open>cur\<close> gives.\<close>

definition procs_found :: "QualifiedName \<Rightarrow> Index \<Rightarrow> nat \<Rightarrow> Proc list \<times> Index \<Rightarrow> bool" where
  "procs_found qn ix cur = (\<lambda>(ps, ix'). index_ok ix' \<and> grows ix ix' \<and>
     procs ix' = procs ix \<and> set ps \<subseteq> set (table (procs ix)) \<and>
     (map (proc_view ix') ps, view_of ix') = spec_find qn (ns_path ix cur) (view_of ix))"

lemma search_step:
  assumes prems: "index_ok ix" "ns_valid ix cur"
    and up: "\<And>parent. ns_valid ix' parent \<Longrightarrow> parent < cur \<Longrightarrow> returns (search parent) (procs_found qn ix' parent)"
    and r: "index_ok ix'" "grows ix ix'" "ns_valid ix' target" "procs ix' = procs ix"
      "ns_path ix' target = name_base qn (ns_path ix cur) @ name_parts qn"
      "view_of ix' = spec_resolve (name_base qn (ns_path ix cur)) (name_parts qn) (view_of ix)"
  shows "returns (rbind (candidates ix' (mm_equal_range (qname qn) (byName (procs ix))) target) (\<lambda>result.
     rbind (Get (namespaces ix') cur) (\<lambda>n.
     case parent_namespace n of
       Some parent \<Rightarrow>
         if result = [] \<and> \<not> absolute qn
         then rbind (Get (namespaces ix') parent) (\<lambda>_. search parent)
         else Inr (result, ix')
     | None \<Rightarrow> Inr (result, ix')))) (procs_found qn ix cur)"
proof -
  let ?base = "name_base qn (ns_path ix cur)"
  let ?ps = "filter (\<lambda>p. proc_namespace p = target) (filter (\<lambda>p. proc_name p = qname qn) (table (procs ix')))"
  note c = candidates_view [OF r(1,3) refl, of "qname qn"]
  have cur': "ns_valid ix' cur" "ns_path ix' cur = ns_path ix cur"
    using grows_valid [OF r(2) prems(2)] grows_path [OF r(2) _ _ prems(2)] r(1) prems(1) by simp_all
  have found: "procs_at (?base @ name_parts qn) (qname qn) (view_of ix) = map (proc_view ix') ?ps"
    using c(2) by (simp add: r(5,6))
  show ?thesis
  proof (cases "?ps \<noteq> [] \<or> absolute qn \<or> parent_of ix' cur = None")
    case True
    have "parent_of ix' cur = None \<Longrightarrow> ns_path ix cur = []"
      using cur' r(1) by (simp add: ns_path_eq flip: cur'(2))
    with True have "spec_find qn (ns_path ix cur) (view_of ix) = (map (proc_view ix') ?ps, view_of ix')"
      using spec_find_cases(1) [of qn "ns_path ix cur" "view_of ix"] by (auto simp: found r(6))
    then show ?thesis
      using True r c(1) cur'(1) by (auto simp: procs_found_def r(4) split: option.split)
  next
    case False
    then obtain parent where parent: "parent_of ix' cur = Some parent" by auto
    then have p: "ns_valid ix' parent" "parent < cur"
      using tree_okD(4) [of ix' cur parent] r(1) cur'(1) by auto
    have path: "ns_path ix cur = ns_path ix' parent @ [name_of ix' cur]"
      using ns_path_eq [of ix' cur] r(1) cur' parent by simp
    have "spec_find qn (ns_path ix cur) (view_of ix) = spec_find qn (ns_path ix' parent) (view_of ix')"
      using spec_find_cases(2) [of qn "ns_path ix cur" "view_of ix"] False
      unfolding found r(6) by (simp add: path)
    then have "returns (search parent) (procs_found qn ix cur)"
      using r(2,4) by (intro returns_mono [OF up [OF p]]) (auto simp: procs_found_def intro: grows_trans)
    then show ?thesis
      using False c(1) cur'(1) parent p(1) by (simp add: r(4))
  qed
qed

lemma FindProc_rec_found:
  assumes "plain cmd" "qn = spec_split cmd"
  shows "index_ok ix \<Longrightarrow> ns_valid ix cur \<Longrightarrow> cur < k \<Longrightarrow>
    returns (FindProc_rec k ix cur cmd) (procs_found qn ix cur)"
proof (induction k arbitrary: ix cur)
  case (Suc k)
  show ?case
    unfolding FindProc_rec.simps SplitName_spec rbind_simps Let_def assms(2) [symmetric]
  proof (rule returns_rbind [OF Resolve_if_returns [OF Suc.prems(1,2)]], goal_cases)
    case 1 show ?case unfolding assms(2) by (rule plain_parts [OF assms(1)])
  next
    case (2 r)
    obtain target ix' where r: "r = (target, ix')" by (cases r)
    have "returns (FindProc_rec k ix' parent cmd) (procs_found qn ix' parent)"
      if "ns_valid ix' parent" "parent < cur" for parent
      using Suc.IH [of ix' parent] that 2 Suc.prems(3) by (simp add: r)
    from search_step [OF Suc.prems(1,2) this] 2 show ?case unfolding r by simp
  qed
qed simp

lemmas FindProc_rec_returns = FindProc_rec_found [unfolded procs_found_def]

lemma FindProc_returns:
  assumes "index_ok ix" "ns_valid ix cur" "plain cmd"
  shows "returns (FindProc ix cur cmd) (\<lambda>(ps, ix'). index_ok ix' \<and> grows ix ix' \<and>
      procs ix' = procs ix \<and> set ps \<subseteq> set (table (procs ix)) \<and>
      (map (proc_view ix') ps, view_of ix') = spec_find (spec_split cmd) (ns_path ix cur) (view_of ix))"
  unfolding FindProc_def by (rule FindProc_rec_returns [OF assms(3) refl assms(1,2)]) simp

section \<open>Choosing a procedure\<close>

definition takes_more :: "nat \<Rightarrow> Proc \<Rightarrow> bool" where
  "takes_more n p \<longleftrightarrow> unat (required_args p) < n \<and>
     (n \<le> unat (required_args p + optional_args p) \<or> is_variadic p)"

lemma BestFit_loop_best:
  "BestFit_loop n (Some p) ps = Some
     (case find (\<lambda>q. unat (required_args q) = n) ps of
        Some q \<Rightarrow> q
      | None \<Rightarrow> last (p # filter (takes_more n) ps))"
proof (induction ps arbitrary: p)
  case (Cons q ps)
  consider "n < unat (required_args q)" | "n = unat (required_args q)" | "unat (required_args q) < n"
    by linarith
  then show ?case
    using Cons [of p] Cons [of q] by cases (auto simp: takes_more_def split: option.split)
qed simp

lemma BestFit_loop_eq:
  assumes "list_all (\<lambda>p. \<not> is_variadic p) ps"
  shows "map_option (proc_view ix) (BestFit_loop n (Some p) ps)
     = spec_best n (map (proc_view ix) (p # ps))"
proof -
  have "find (exact_fit n) (map (proc_view ix) ps)
      = map_option (proc_view ix) (find (\<lambda>q. unat (required_args q) = n) ps)"
    by (induction ps) (auto simp: exact_fit_def proc_view_def)
  moreover have "filter (optional_fit n) (map (proc_view ix) ps) = map (proc_view ix) (filter (takes_more n) ps)"
    using assms by (induction ps) (auto simp: optional_fit_def takes_more_def proc_view_def)
  ultimately show ?thesis
    by (auto simp: BestFit_loop_best last_map split: option.split)
qed

lemma BestFit_eq:
  assumes "list_all (\<lambda>p. \<not> is_variadic p) ps" "call_words call \<noteq> []"
  shows "map_option (proc_view ix) (BestFitProcToCall ps call)
    = spec_best (length (call_words call) - 1) (map (proc_view ix) ps)"
proof -
  have "1 \<le> length (call_words call)" using assms(2) by (cases "call_words call") auto
  then show ?thesis
    using assms(1) BestFit_loop_eq [where ix = ix] by (cases ps) (auto simp: BestFitProcToCall_def)
qed

lemma BestFit_loop_mem: "BestFit_loop n b ps = Some p \<Longrightarrow> b = Some p \<or> p \<in> set ps"
  by (induction ps arbitrary: b) (auto split: if_splits)

lemma add_reference_returns:
  assumes "index_ok ix" "p \<in> set (table (procs ix))" "ix' = AddCommandReference ix loc p ty"
  shows "index_ok ix' \<and> grows ix ix' \<and> view_of ix' = (view_of ix)\<lparr>view_refs := view_refs (view_of ix) @
    [\<lparr>ref_location = loc, ref_id = proc_id p, ref_type = ty\<rparr>]\<rparr>"
proof -
  have tab: "proc_db.table_ok (procs ix)" using assms(1) by (simp add: index_ok_def)
  have ix': "namespaces ix' = namespaces ix" "variables ix' = variables ix"
    "global_namespace_id ix' = global_namespace_id ix" "table (procs ix') = table (procs ix)"
    "references (procs ix') = references (procs ix) @ [\<lparr>ref_location = loc, ref_id = proc_id p, ref_type = ty\<rparr>]"
    by (simp_all add: assms(3) AddCommandReference_def AddReference_def Let_def)
  have tree: "tree_ok ix'" using assms(1) tree_ok_cong [of ix' ix] by (simp add: ix')
  have g: "grows ix ix'" by (simp add: grows_def extends_def ix')
  have "proc_db.table_ok (procs ix')"
    using proc_db.AddReference_ok [OF tab, of "\<lparr>ref_location = loc, ref_id = proc_id p, ref_type = ty\<rparr>"]
      proc_db.row_in_table [OF tab assms(2)]
    by (simp add: assms(3) AddCommandReference_def)
  then have "index_ok ix'"
    using assms(1) tree proc_ok_grows [OF g] by (simp add: index_ok_def ix'(2,4) scopes_ok_def ix'(1))
  then show ?thesis
    using g same_view [OF g assms(1) tree] by (simp add: view_of_def ix'(1,4,5))
qed

section \<open>The passes\<close>

text \<open>
  The scripts the indexer is safe on: trees as the parser builds them, with plain names of the
  procedures that are defined and called, and proper lists of formal arguments.
\<close>

definition call_ok :: "Call \<Rightarrow> bool" where
  "call_ok c \<longleftrightarrow> shaped_call c \<and>
     (case call_type c of
        PROC \<Rightarrow> plain (word_str (call_words c ! 1)) \<and> args_ok (call_words c ! 2)
      | USER \<Rightarrow> plain (word_str (call_words c ! 0))
      | _ \<Rightarrow> True)"

definition script_safe :: "Script \<Rightarrow> bool" where
  "script_safe s \<longleftrightarrow> tree_all call_ok (words_in_script s) (calls_in_script s)"

text \<open>The state of a pass: where it is, and what a step may do to it.\<close>

definition scan_ok :: "scan_state \<Rightarrow> bool" where
  "scan_ok st \<longleftrightarrow> index_ok (fst st) \<and> nsPath (snd st) \<noteq> [] \<and> list_all (ns_valid (fst st)) (nsPath (snd st))"

definition here :: "scan_state \<Rightarrow> string list" where
  "here st = ns_path (fst st) (last (nsPath (snd st)))"

definition refines :: "scan_state \<Rightarrow> IndexView \<Rightarrow> scan_state \<Rightarrow> bool" where
  "refines st v r \<longleftrightarrow> snd r = snd st \<and> index_ok (fst r) \<and> grows (fst st) (fst r) \<and> view_of (fst r) = v"

lemma refines_scan_ok:
  assumes "scan_ok st" "refines st v r"
  shows "scan_ok r" and "here r = here st" and "view_of (fst r) = v"
proof -
  have "ns_valid (fst st) (last (nsPath (snd st)))"
    using assms(1) by (simp add: scan_ok_def list_all_iff)
  then show "here r = here st"
    using assms grows_path [of "fst st" "fst r"] by (simp add: refines_def here_def scan_ok_def)
  show "scan_ok r"
    using assms by (auto simp: scan_ok_def refines_def list_all_iff intro: grows_valid)
  show "view_of (fst r) = v" using assms(2) by (simp add: refines_def)
qed

lemma refines_trans: "refines st v r \<Longrightarrow> refines r v' r' \<Longrightarrow> refines st v' r'"
  unfolding refines_def by (auto intro: grows_trans)

lemma refines_refl: "scan_ok st \<Longrightarrow> refines st (view_of (fst st)) st"
  by (simp add: refines_def scan_ok_def)

lemma refines_seq:
  assumes "scan_ok st" "returns m (refines st v)"
    and "\<And>r. scan_ok r \<Longrightarrow> here r = here st \<Longrightarrow> view_of (fst r) = v \<Longrightarrow> returns (k r) (refines r v')"
  shows "returns (rbind m k) (refines st v')"
  using refines_scan_ok [OF assms(1)]
  by (intro returns_rbind [OF assms(2)] returns_mono [OF assms(3)]) (auto intro: refines_trans)

text \<open>A body that is walked in a namespace, which is left again.\<close>

lemma in_namespace_refines:
  assumes st: "scan_ok (ix, ctx)" and parts: "NamespaceParts qn = Inr parts" and i: "i < length ws"
    and body: "\<And>r. scan_ok r \<Longrightarrow> here r = name_base qn (here (ix, ctx)) @ parts \<Longrightarrow>
      view_of (fst r) = spec_resolve (name_base qn (here (ix, ctx))) parts (view_of ix) \<Longrightarrow>
      returns (walk r (ws ! i)) (refines r v)"
  shows "returns (rbind (ResolveNamespace ix qn (last (nsPath ctx))) (\<lambda>(target, ix).
      rbind (nth_r ws i) (\<lambda>w. rbind (walk (ix, push_ns target ctx) w) (\<lambda>(ix, ctx).
      Inr (ix, pop_ns ctx))))) (refines (ix, ctx) v)"
proof (rule returns_rbind [OF Resolve_returns [OF _ _ parts]], goal_cases)
  case 1 show ?case using st by (simp add: scan_ok_def)
next
  case 2 show ?case using st by (simp add: scan_ok_def list_all_iff)
next
  case (3 r)
  obtain target ix' where r: "r = (target, ix')" by (cases r)
  let ?st = "(ix', push_ns target ctx)"
  have ok: "scan_ok ?st"
    using 3 st by (auto simp: r scan_ok_def push_ns_def list_all_iff intro: grows_valid)
  have "returns (walk ?st (ws ! i)) (refines ?st v)"
    using 3 by (intro body [OF ok]) (auto simp: r here_def push_ns_def)
  moreover have "refines (ix, ctx) v (fst q, pop_ns (snd q))" if "refines ?st v q" for q
    using that 3 by (auto simp: r refines_def pop_ns_def push_ns_def intro: grows_trans)
  ultimately show ?case
    using i by (auto simp: r split_beta returns_def)
qed

text \<open>The name of a \<open>namespace eval\<close> is relative, whatever it looks like.\<close>

lemma eval_name_simps [simp]:
  "NamespaceParts (eval_name w) = Inr (split_sep (word_str w))" "name_base (eval_name w) p = p"
  by (simp_all add: eval_name_def NamespaceParts_def name_base_def)

text \<open>
  Both passes walk lists of words and lists of calls from left to right. The four walks share
  this interface: a step for one element and its description, and the recursion over a list.
\<close>

locale list_walk =
  fixes step :: "scan_state \<Rightarrow> 'x \<Rightarrow> scan_state result"
    and walk :: "scan_state \<Rightarrow> 'x list \<Rightarrow> scan_state result"
    and spec_step :: "string list \<Rightarrow> 'x \<Rightarrow> IndexView \<Rightarrow> IndexView"
    and spec_walk :: "string list \<Rightarrow> 'x list \<Rightarrow> IndexView \<Rightarrow> IndexView"
  assumes walk_Nil: "walk st [] = Inr st"
    and walk_Cons: "walk st (x # xs) = rbind (step st x) (\<lambda>st. walk st xs)"
    and spec_Nil: "spec_walk path [] v = v"
    and spec_Cons: "spec_walk path (x # xs) v = spec_walk path xs (spec_step path x v)"
begin

definition step_refines :: "'x \<Rightarrow> bool" where
  "step_refines x \<longleftrightarrow> (\<forall>st. scan_ok st \<longrightarrow>
     returns (step st x) (refines st (spec_step (here st) x (view_of (fst st)))))"

lemma step_refinesD:
  "step_refines x \<Longrightarrow> scan_ok st \<Longrightarrow>
   returns (step st x) (refines st (spec_step (here st) x (view_of (fst st))))"
  unfolding step_refines_def by blast

lemma walk_refines:
  "\<forall>x \<in> set xs. step_refines x \<Longrightarrow> scan_ok st \<Longrightarrow>
   returns (walk st xs) (refines st (spec_walk (here st) xs (view_of (fst st))))"
proof (induction xs arbitrary: st)
  case Nil
  then show ?case by (simp add: walk_Nil spec_Nil refines_refl)
next
  case (Cons x xs)
  show ?case
    unfolding walk_Cons spec_Cons
  proof (rule refines_seq [OF Cons.prems(2) step_refinesD], goal_cases)
    case (3 r)
    then show ?case using Cons.IH [of r] Cons.prems(1) by simp
  qed (use Cons.prems in simp_all)
qed

end

interpretation scan_words: list_walk ScanWord ScanWords spec_scan_word spec_scan_words
  by unfold_locales simp_all

interpretation scan_calls: list_walk ScanCall ScanCalls spec_scan_call spec_scan_calls
  by unfold_locales simp_all

interpretation index_words: list_walk IndexWord IndexWords spec_index_word spec_index_words
  by unfold_locales simp_all

interpretation index_calls: list_walk IndexCall IndexCalls spec_index_call spec_index_calls
  by unfold_locales simp_all

lemma scan_ok_current:
  assumes "scan_ok (ix, ctx)"
  shows "current_ns ctx = Inr (last (nsPath ctx))" and "ns_valid ix (last (nsPath ctx))"
    and "index_ok ix"
  using assms by (auto simp: scan_ok_def current_ns_def list_all_iff)

definition scan_refines :: "Script \<Rightarrow> bool" where
  "scan_refines s \<longleftrightarrow> (\<forall>st. scan_ok st \<longrightarrow>
     returns (ScanScript st s) (refines st (spec_scan (here st) s (view_of (fst st)))))"

lemma ScanWord_refines:
  assumes "shaped (Word ty loc x d)" "data_inv scan_words.step_refines scan_refines d"
  shows "scan_words.step_refines (Word ty loc x d)"
  unfolding scan_words.step_refines_def
proof (intro allI impI)
  fix st
  assume st: "scan_ok st"
  show "returns (ScanWord st (Word ty loc x d))
      (refines st (spec_scan_word (here st) (Word ty loc x d) (view_of (fst st))))"
    using shaped_cases [OF assms(1)]
  proof cases
    case (1 ws)
    then show ?thesis using assms(2) st scan_words.walk_refines [of ws st]
      by (auto simp: data_inv_def list_all_iff)
  next
    case (3 s)
    then show ?thesis using assms(2) st by (simp add: data_inv_def scan_refines_def del: split_paired_All)
  qed (use st in \<open>auto intro: refines_refl\<close>)
qed

lemma scan_proc_refines:
  assumes st: "scan_ok (ix, ctx)" and ws: "2 < length ws" "plain (word_str (ws ! 1))" "args_ok (ws ! 2)"
    and words: "\<And>st. scan_ok st \<Longrightarrow> returns (ScanWords st ws) (refines st (spec_scan_words (here st) ws (view_of (fst st))))"
  shows "returns (rbind (AddProcToIndex ix (last (nsPath ctx)) ws) (\<lambda>ix. ScanWords (ix, ctx) ws))
    (refines (ix, ctx) (spec_scan_words (here (ix, ctx)) ws (spec_define (here (ix, ctx)) ws (view_of ix))))"
proof (rule returns_rbind [OF AddProcToIndex_returns [OF scan_ok_current(3,2) [OF st] ws]])
  fix ix'
  assume ix': "index_ok ix' \<and> grows ix ix' \<and>
    view_of ix' = spec_define (ns_path ix (last (nsPath ctx))) ws (view_of ix)"
  have r: "refines (ix, ctx) (view_of ix') (ix', ctx)" using ix' by (simp add: refines_def)
  note ok = refines_scan_ok [OF st r]
  show "returns (ScanWords (ix', ctx) ws)
    (refines (ix, ctx) (spec_scan_words (here (ix, ctx)) ws (spec_define (here (ix, ctx)) ws (view_of ix))))"
    using words [OF ok(1)] ix' ok(2) refines_trans [OF r]
    by (auto simp: here_def elim!: returns_mono)
qed

lemma ScanCall_refines:
  assumes "call_ok (Call ty ws cns)" "list_all scan_words.step_refines ws"
  shows "scan_calls.step_refines (Call ty ws cns)"
  unfolding scan_calls.step_refines_def
proof (intro allI impI)
  fix st
  assume st: "scan_ok st"
  obtain ix ctx where eq: "st = (ix, ctx)" by (cases st)
  note cur = scan_ok_current [OF st [unfolded eq]]
  have words: "returns (ScanWords r ws) (refines r (spec_scan_words (here r) ws (view_of (fst r))))"
    if "scan_ok r" for r
    using assms(2) that by (intro scan_words.walk_refines) (auto simp: list_all_iff)
  have "returns (ScanCall (ix, ctx) (Call ty ws cns))
      (refines (ix, ctx) (spec_scan_call (here (ix, ctx)) (Call ty ws cns) (view_of ix)))"
  proof (cases ty)
    case PROC
    then have ws: "2 < length ws" "plain (word_str (ws ! 1))" "args_ok (ws ! 2)"
      using assms(1) by (auto simp: call_ok_def arity_ok_def dest!: shaped_call_arity)
    with PROC cur scan_proc_refines [OF st [unfolded eq] ws words] show ?thesis by simp
  next
    case NAMESPACE_EVAL
    then have ws: "2 < length ws" "3 < length ws"
      using assms(1) by (auto simp: call_ok_def arity_ok_def dest!: shaped_call_arity)
    have walk: "returns (ScanWord r (ws ! 3)) (refines r (spec_scan_word (here r) (ws ! 3) (view_of (fst r))))"
      if "scan_ok r" for r
      using assms(2) that ws(2) by (intro scan_words.step_refinesD) (auto simp: list_all_iff)
    have "returns (rbind (ResolveNamespace ix (eval_name (ws ! 2)) (last (nsPath ctx))) (\<lambda>(target, ix).
         rbind (nth_r ws 3) (\<lambda>w3.
         rbind (ScanWord (ix, push_ns target ctx) w3) (\<lambda>(ix, ctx).
         Inr (ix, pop_ns ctx)))))
        (refines (ix, ctx) (spec_scan_word (here (ix, ctx) @ split_sep (word_str (ws ! 2))) (ws ! 3)
          (spec_resolve (here (ix, ctx)) (split_sep (word_str (ws ! 2))) (view_of ix))))"
    proof (rule in_namespace_refines [OF st [unfolded eq] eval_name_simps(1) ws(2)], goal_cases)
      case (1 r)
      then show ?case using walk [OF 1(1)] by simp
    qed
    with NAMESPACE_EVAL cur ws show ?thesis by (simp add: Let_def)
  qed (use words [OF st] cur in \<open>simp_all add: eq\<close>)
  then show "returns (ScanCall st (Call ty ws cns))
      (refines st (spec_scan_call (here st) (Call ty ws cns) (view_of (fst st))))"
    by (simp add: eq)
qed

lemma ScanScript_refines:
  assumes "script_safe s" "scan_ok st"
  shows "returns (ScanScript st s) (refines st (spec_scan (here st) s (view_of (fst st))))"
proof -
  have "scan_refines s"
  proof (rule tree_induct [where P = scan_words.step_refines and C = scan_calls.step_refines,
        OF ScanWord_refines ScanCall_refines _ assms(1) [unfolded script_safe_def]])
    fix loc cs
    assume "list_all scan_calls.step_refines cs"
    then show "scan_refines (Script loc cs)"
      by (simp add: scan_refines_def scan_calls.walk_refines list_all_iff del: split_paired_All)
  qed
  then show ?thesis using assms(2) by (simp add: scan_refines_def del: split_paired_All)
qed

section \<open>The second pass\<close>

definition index_refines :: "Script \<Rightarrow> bool" where
  "index_refines s \<longleftrightarrow> (\<forall>st. scan_ok st \<longrightarrow>
     returns (IndexScript st s) (refines st (spec_index (here st) s (view_of (fst st)))))"

lemma IndexWord_refines:
  assumes "shaped (Word ty loc x d)" "data_inv index_words.step_refines index_refines d"
  shows "index_words.step_refines (Word ty loc x d)"
  unfolding index_words.step_refines_def
proof (intro allI impI)
  fix st
  assume st: "scan_ok st"
  show "returns (IndexWord st (Word ty loc x d))
      (refines st (spec_index_word (here st) (Word ty loc x d) (view_of (fst st))))"
    using shaped_cases [OF assms(1)]
  proof cases
    case (1 ws)
    then show ?thesis using assms(2) st index_words.walk_refines [of ws st]
      by (auto simp: data_inv_def list_all_iff)
  next
    case (3 s)
    then show ?thesis using assms(2) st by (simp add: data_inv_def index_refines_def del: split_paired_All)
  next
    case (4 n ws)
    then show ?thesis using assms(2) st index_words.walk_refines [of ws st]
      by (simp add: data_inv_def list_all_iff)
  qed (use st in \<open>auto intro: refines_refl\<close>)
qed

lemma best_use:
  assumes f: "index_ok ix" "set found \<subseteq> set (table (procs ix))" and ws: "ws \<noteq> []"
    and find: "spec_find (spec_split (word_str (ws ! 0))) path v = (map (proc_view ix) found, view_of ix)"
    and ix': "ix' = (case BestFitProcToCall found (Call ty ws cns) of
       Some p \<Rightarrow> AddCommandReference ix (word_location (ws ! 0)) p USAGE | None \<Rightarrow> ix)"
  shows "index_ok ix' \<and> grows ix ix' \<and> view_of ix' = spec_use path ws v"
proof -
  let ?best = "BestFitProcToCall found (Call ty ws cns)"
  have "list_all (\<lambda>p. \<not> is_variadic p) found"
    using f by (auto simp: list_all_iff index_ok_def proc_ok_def)
  then have best: "map_option (proc_view ix) ?best = spec_best (length ws - 1) (map (proc_view ix) found)"
    using BestFit_eq [of found "Call ty ws cns" ix] ws by simp
  show ?thesis
  proof (cases ?best)
    case None
    with best have "spec_best (length ws - 1) (map (proc_view ix) found) = None" by simp
    with None f find show ?thesis by (simp add: ix' spec_use_def)
  next
    case (Some p)
    with best have sp: "spec_best (length ws - 1) (map (proc_view ix) found) = Some (proc_view ix p)" by simp
    have p: "p \<in> set (table (procs ix))"
      using Some BestFit_loop_mem f(2) by (fastforce simp: BestFitProcToCall_def)
    note add = add_reference_returns [OF f(1) p, of ix' "word_location (ws ! 0)" USAGE]
    from Some have "ix' = AddCommandReference ix (word_location (ws ! 0)) p USAGE" by (simp add: ix')
    with add find sp show ?thesis by (simp add: spec_use_def proc_view_def)
  qed
qed

lemma use_refines:
  assumes st: "scan_ok (ix, ctx)" and ws: "ws \<noteq> []" "plain (word_str (ws ! 0))"
    and k: "\<And>r. scan_ok r \<Longrightarrow> here r = here (ix, ctx) \<Longrightarrow>
      view_of (fst r) = spec_use (here (ix, ctx)) ws (view_of ix) \<Longrightarrow> returns (k r) (refines r v)"
  shows "returns (rbind (FindProc ix (last (nsPath ctx)) (word_str (ws ! 0))) (\<lambda>(found, ix).
         let ix = (case BestFitProcToCall found (Call ty ws cns) of
                     Some p \<Rightarrow> AddCommandReference ix (word_location (ws ! 0)) p USAGE
                   | None \<Rightarrow> ix)
         in k (ix, ctx))) (refines (ix, ctx) v)"
proof (rule returns_rbind [OF FindProc_returns [OF _ _ ws(2)]], goal_cases)
  case 1 show ?case using scan_ok_current(3) [OF st] .
next
  case 2 show ?case using scan_ok_current(2) [OF st] .
next
  case (3 r)
  obtain found ix1 where r: "r = (found, ix1)" by (cases r)
  have f: "index_ok ix1" "grows ix ix1" "set found \<subseteq> set (table (procs ix1))"
    "spec_find (spec_split (word_str (ws ! 0))) (here (ix, ctx)) (view_of ix) = (map (proc_view ix1) found, view_of ix1)"
    using 3 by (simp_all add: r here_def)
  obtain ix2 where ix2: "ix2 = (case BestFitProcToCall found (Call ty ws cns) of
      Some p \<Rightarrow> AddCommandReference ix1 (word_location (ws ! 0)) p USAGE | None \<Rightarrow> ix1)" by simp
  have ok: "refines (ix, ctx) (spec_use (here (ix, ctx)) ws (view_of ix)) (ix2, ctx)"
    using best_use [OF f(1,3) ws(1) f(4) ix2] f(2) by (auto simp: refines_def intro: grows_trans)
  note ok2 = refines_scan_ok [OF st ok]
  have "returns (k (ix2, ctx)) (refines (ix, ctx) v)"
    using refines_trans [OF ok] by (intro returns_mono [OF k [OF ok2]]) auto
  then show ?case by (simp add: r ix2)
qed

lemma index_body_refines:
  assumes st: "scan_ok (ix, ctx)" and ws: "NamespaceParts qn = Inr parts" "3 < length ws"
    and walk: "index_words.step_refines (ws ! 3)"
  shows "returns (rbind (ResolveNamespace ix qn (last (nsPath ctx))) (\<lambda>(target, ix).
         rbind (nth_r ws 3) (\<lambda>w3.
         rbind (IndexWord (ix, push_ns target ctx) w3) (\<lambda>(ix, ctx).
         Inr (ix, pop_ns ctx)))))
    (refines (ix, ctx) (spec_index_word (name_base qn (here (ix, ctx)) @ parts) (ws ! 3)
      (spec_resolve (name_base qn (here (ix, ctx))) parts (view_of ix))))"
proof (rule in_namespace_refines [OF st ws], goal_cases)
  case (1 r)
  with index_words.step_refinesD [OF walk 1(1)] show ?case by simp
qed

lemma IndexCall_refines:
  assumes "call_ok (Call ty ws cns)" "list_all index_words.step_refines ws"
  shows "index_calls.step_refines (Call ty ws cns)"
  unfolding index_calls.step_refines_def
proof (intro allI impI)
  fix st
  assume st': "scan_ok st"
  obtain ix ctx where eq: "st = (ix, ctx)" by (cases st)
  note st = st' [unfolded eq] and cur = scan_ok_current [OF st' [unfolded eq]]
  have words: "returns (IndexWords r ws) (refines r (spec_index_words (here r) ws (view_of (fst r))))"
    if "scan_ok r" for r
    using assms(2) that by (intro index_words.walk_refines) (auto simp: list_all_iff)
  have body: "index_words.step_refines (ws ! 3)" if "3 < length ws"
    using assms(2) that by (simp add: list_all_length)
  have "returns (IndexCall (ix, ctx) (Call ty ws cns))
      (refines (ix, ctx) (spec_index_call (here (ix, ctx)) (Call ty ws cns) (view_of ix)))"
  proof (cases ty)
    case PROC
    then have ws: "1 < length ws" "3 < length ws" "plain (word_str (ws ! 1))"
      using assms(1) by (auto simp: call_ok_def arity_ok_def dest!: shaped_call_arity)
    show ?thesis
      using PROC cur ws index_body_refines [OF st plain_parts [OF ws(3)] ws(2) body [OF ws(2)]] by (simp add: Let_def SplitName_spec)
  next
    case NAMESPACE_EVAL
    then have ws: "2 < length ws" "3 < length ws"
      using assms(1) by (auto simp: call_ok_def arity_ok_def dest!: shaped_call_arity)
    show ?thesis
      using NAMESPACE_EVAL cur ws index_body_refines [OF st eval_name_simps(1) ws(2) body [OF ws(2)]] by (simp add: Let_def)
  next
    case USER
    then have ws: "ws \<noteq> []" "plain (word_str (ws ! 0))"
      using assms(1) by (auto simp: call_ok_def arity_ok_def dest!: shaped_call_arity)
    have "returns (rbind (FindProc ix (last (nsPath ctx)) (word_str (ws ! 0))) (\<lambda>(found, ix).
         let ix = (case BestFitProcToCall found (Call ty ws cns) of
                     Some p \<Rightarrow> AddCommandReference ix (word_location (ws ! 0)) p USAGE
                   | None \<Rightarrow> ix)
         in IndexWords (ix, ctx) ws))
        (refines (ix, ctx) (spec_index_words (here (ix, ctx)) ws (spec_use (here (ix, ctx)) ws (view_of ix))))"
      by (rule use_refines [OF st ws]) (metis words)
    then show ?thesis
      using USER cur ws by (simp add: Let_def)
  qed (use words [OF st] cur in simp_all)
  then show "returns (IndexCall st (Call ty ws cns))
      (refines st (spec_index_call (here st) (Call ty ws cns) (view_of (fst st))))"
    by (simp add: eq)
qed

lemma IndexScript_refines:
  assumes "script_safe s" "scan_ok st"
  shows "returns (IndexScript st s) (refines st (spec_index (here st) s (view_of (fst st))))"
proof -
  have "index_refines s"
  proof (rule tree_induct [where P = index_words.step_refines and C = index_calls.step_refines,
        OF IndexWord_refines IndexCall_refines _ assms(1) [unfolded script_safe_def]])
    fix loc cs
    assume "list_all index_calls.step_refines cs"
    then show "index_refines (Script loc cs)"
      by (simp add: index_refines_def index_calls.walk_refines list_all_iff del: split_paired_All)
  qed
  then show ?thesis using assms(2) by (simp add: index_refines_def del: split_paired_All)
qed

section \<open>The index of a script\<close>

lemma Build_returns:
  assumes "script_safe s" "scan_ok (ix, ctx)"
  shows "returns (Build ix ctx s) (refines (ix, ctx) (spec_build (here (ix, ctx)) s (view_of ix)))"
  unfolding Build_def spec_build_def
proof (rule refines_seq [OF assms(2) ScanScript_refines [OF assms]], goal_cases)
  case (1 r)
  then show ?case using IndexScript_refines [OF assms(1) 1(1)] by simp
qed

end
