(* ===== verification/ScriptCursor.thy ===== *)
theory ScriptCursor
  imports ScriptProps
begin

text \<open>
  The lookup of a text position in a syntax tree (\<open>FindPositionInScript\<close> and
  \<open>FindPositionInWord\<close> of \<open>src/src/analyzer/index.cpp\<close>), and what it finds. The pointers of a
  cursor are modelled by the calls and words they point to, a null pointer by \<open>None\<close>.
\<close>

section \<open>Operations\<close>

record ScriptCursor =
  cursor_call :: "Call option"
  cursor_argument :: nat
  cursor_word :: "Word option"

definition null_cursor :: ScriptCursor where
  "null_cursor = \<lparr>cursor_call = None, cursor_argument = 0, cursor_word = None\<rparr>"

text \<open>
  The loops of the two functions are the middle three functions; the result of the inner loop of
  \<open>FindPositionInScript\<close> tells whether it returned from the function.
\<close>

function FindPositionInWord :: "ScriptCursor \<Rightarrow> Word \<Rightarrow> LinePos \<Rightarrow> ScriptCursor option result"
  and FindPositionInWords :: "ScriptCursor \<Rightarrow> Word list \<Rightarrow> LinePos \<Rightarrow> ScriptCursor option result"
  and FindPositionInArgs ::
    "Call \<Rightarrow> nat \<Rightarrow> Word list \<Rightarrow> ScriptCursor \<Rightarrow> LinePos \<Rightarrow> (bool \<times> ScriptCursor) result"
  and FindPositionInCalls :: "Call list \<Rightarrow> ScriptCursor \<Rightarrow> LinePos \<Rightarrow> ScriptCursor result"
  and FindPositionInScript :: "Script \<Rightarrow> LinePos \<Rightarrow> ScriptCursor result"
where
  "FindPositionInWord result (Word ty loc x d) pos =
     (if loc_line loc > line pos then Inr None
      else if loc_line loc = line pos \<and> loc_column loc > column pos then Inr None
      else if ty = SCRIPT
      then (case d of ScriptPtr s \<Rightarrow> rbind (FindPositionInScript s pos) (\<lambda>result. Inr (Some result))
            | _ \<Rightarrow> Inl BadVariantAccess)
      else if ty = TOKEN_LIST \<or> ty = EXPAND
      then (case d of WordVec subWords \<Rightarrow> FindPositionInWords result subWords pos
            | _ \<Rightarrow> Inl BadVariantAccess)
      else Inr (Some (result\<lparr>cursor_word := Some (Word ty loc x d)\<rparr>)))"
| "FindPositionInWords result [] pos = Inr (Some result)"
| "FindPositionInWords result (w # ws) pos =
     rbind (FindPositionInWord result w pos) (\<lambda>subresult.
     case subresult of None \<Rightarrow> Inr None | Some result \<Rightarrow> FindPositionInWords result ws pos)"
| "FindPositionInArgs call arg [] result pos = Inr (False, result)"
| "FindPositionInArgs call arg (w # ws) result pos =
     rbind (FindPositionInWord \<lparr>cursor_call = Some call, cursor_argument = arg, cursor_word = None\<rparr> w pos)
       (\<lambda>subresult.
        case subresult of
          None \<Rightarrow> Inr (True, result)
        | Some result \<Rightarrow> FindPositionInArgs call (arg + 1) ws result pos)"
| "FindPositionInCalls [] result pos = Inr result"
| "FindPositionInCalls (Call ty ws n # cs) result pos =
     rbind (FindPositionInArgs (Call ty ws n) 0 ws result pos) (\<lambda>(returned, result).
     if returned then Inr result else FindPositionInCalls cs result pos)"
| "FindPositionInScript (Script loc cs) pos = FindPositionInCalls cs null_cursor pos"
  by pat_completeness auto
termination
  by (relation "measure (\<lambda>x. case x of
      Inl (Inl (r, w, pos)) \<Rightarrow> size w
    | Inl (Inr (r, ws, pos)) \<Rightarrow> size_list size ws
    | Inr (Inl (c, i, ws, r, pos)) \<Rightarrow> size_list size ws
    | Inr (Inr (Inl (cs, r, pos))) \<Rightarrow> size_list size cs
    | Inr (Inr (Inr (s, pos))) \<Rightarrow> size s)") simp_all

section \<open>What is found\<close>

abbreviation word_pos :: "Word \<Rightarrow> LinePos" where
  "word_pos w \<equiv> loc_pos (word_location w)"

lemma pos_after: "(loc_line l > line pos \<or> loc_line l = line pos \<and> loc_column l > column pos)
    \<longleftrightarrow> \<not> loc_pos l \<le> pos"
  by (cases pos) (auto simp: loc_pos_def LinePos_order)

text \<open>
  A word is passed when it starts at or before the position and, for a list of parts, all of
  them are passed.
\<close>

primrec passed :: "LinePos \<Rightarrow> Word \<Rightarrow> bool" and passed_data :: "LinePos \<Rightarrow> word_data \<Rightarrow> bool"
  and passed_call :: "LinePos \<Rightarrow> Call \<Rightarrow> bool" and passed_script :: "LinePos \<Rightarrow> Script \<Rightarrow> bool"
where
  "passed pos (Word ty loc x d) \<longleftrightarrow>
     loc_pos loc \<le> pos \<and> (ty = TOKEN_LIST \<or> ty = EXPAND \<longrightarrow> passed_data pos d)"
| "passed_data pos Nothing \<longleftrightarrow> True"
| "passed_data pos (ArrayAccess n ws) \<longleftrightarrow> list_all (passed pos) ws"
| "passed_data pos (ScriptPtr s) \<longleftrightarrow> passed_script pos s"
| "passed_data pos (WordVec ws) \<longleftrightarrow> list_all (passed pos) ws"
| "passed_data pos (WordPtr w) \<longleftrightarrow> passed pos w"
| "passed_call pos (Call ty ws n) \<longleftrightarrow> list_all (passed pos) ws"
| "passed_script pos (Script loc cs) \<longleftrightarrow> list_all (passed_call pos) cs"

text \<open>The arguments of a script in the order of the loops: call, index and word.\<close>

definition call_args :: "Call \<Rightarrow> (Call \<times> nat \<times> Word) list" where
  "call_args c = map (\<lambda>(i, w). (c, i, w)) (enumerate 0 (call_words c))"

definition script_args :: "Script \<Rightarrow> (Call \<times> nat \<times> Word) list" where
  "script_args s = concat (map call_args (commands s))"

lemma script_args_mem:
  "(c, i, w) \<in> set (script_args s) \<longleftrightarrow> c \<in> set (commands s) \<and> i < length (call_words c) \<and> w = call_words c ! i"
  by (force simp: script_args_def call_args_def in_set_enumerate_eq)

lemma script_arg_size: "(c, i, w) \<in> set (script_args s) \<Longrightarrow> size w < size s"
proof -
  assume a: "(c, i, w) \<in> set (script_args s)"
  then have "size w \<le> size_list size (call_words c)"
    by (intro size_list_estimation' [of w]) (auto simp: script_args_mem)
  moreover have "size_list size (call_words c) < size c" by (cases c) simp
  moreover have "size c \<le> size_list size (commands s)"
    using a by (intro size_list_estimation' [of c]) (auto simp: script_args_mem)
  moreover have "size_list size (commands s) < size s" by (cases s) simp
  ultimately show ?thesis by linarith
qed

text \<open>
  The cursor for a script: the one for the last argument of the longest prefix of passed
  arguments. Inside a list of parts the parts are followed one after the other; a nested script
  has a cursor of its own.
\<close>

function cursor_in_word :: "LinePos \<Rightarrow> Word \<Rightarrow> ScriptCursor \<Rightarrow> ScriptCursor"
  and cursor_in_script :: "LinePos \<Rightarrow> Script \<Rightarrow> ScriptCursor"
where
  "cursor_in_word pos (Word ty loc x d) r =
     (case d of
        ScriptPtr s \<Rightarrow> cursor_in_script pos s
      | WordVec ws \<Rightarrow> if ty = TOKEN_LIST \<or> ty = EXPAND then fold (cursor_in_word pos) ws r
                      else r\<lparr>cursor_word := Some (Word ty loc x d)\<rparr>
      | _ \<Rightarrow> r\<lparr>cursor_word := Some (Word ty loc x d)\<rparr>)"
| "cursor_in_script pos s =
     (let reached = takeWhile (\<lambda>(c, i, w). passed pos w) (script_args s) in
      if reached = [] then null_cursor
      else case last reached of (c, i, w) \<Rightarrow>
        cursor_in_word pos w \<lparr>cursor_call = Some c, cursor_argument = i, cursor_word = None\<rparr>)"
  by pat_completeness auto

termination
proof (relation "measure (\<lambda>x. case x of Inl (pos, w, r) \<Rightarrow> size w | Inr (pos, s) \<Rightarrow> size s)", goal_cases)
  case (4 pos s reached c y i w)
  then have "(c, i, w) \<in> set (script_args s)"
    by (metis last_in_set set_takeWhileD)
  then show ?case by (simp add: script_arg_size)
qed (auto dest!: size_list_estimation' [where f = size, OF _ order_refl])

declare cursor_in_word.simps [simp del] cursor_in_script.simps [simp del]
declare FindPositionInWord.simps [simp del]

section \<open>The loops compute the cursor\<close>

definition arg_cursor :: "LinePos \<Rightarrow> Call \<times> nat \<times> Word \<Rightarrow> ScriptCursor" where
  "arg_cursor pos a =
     (case a of (c, i, w) \<Rightarrow>
        cursor_in_word pos w \<lparr>cursor_call = Some c, cursor_argument = i, cursor_word = None\<rparr>)"

definition arg_passed :: "LinePos \<Rightarrow> Call \<times> nat \<times> Word \<Rightarrow> bool" where
  "arg_passed pos a = (case a of (c, i, w) \<Rightarrow> passed pos w)"

definition last_cursor :: "LinePos \<Rightarrow> ScriptCursor \<Rightarrow> (Call \<times> nat \<times> Word) list \<Rightarrow> ScriptCursor" where
  "last_cursor pos r as = (if as = [] then r else arg_cursor pos (last as))"

lemma cursor_in_script_eq:
  "cursor_in_script pos s = last_cursor pos null_cursor (takeWhile (arg_passed pos) (script_args s))"
proof -
  have "arg_passed pos = (\<lambda>(c, i, w). passed pos w)" by (auto simp: arg_passed_def)
  then show ?thesis
    by (simp add: cursor_in_script.simps Let_def last_cursor_def arg_cursor_def)
qed

text \<open>What a call of \<open>FindPositionInWord\<close> is to return.\<close>

definition finds :: "LinePos \<Rightarrow> Word \<Rightarrow> bool" where
  "finds pos w \<longleftrightarrow> (\<forall>r. FindPositionInWord r w pos
     = Inr (if passed pos w then Some (cursor_in_word pos w r) else None))"

lemma findsD:
  "finds pos w \<Longrightarrow> FindPositionInWord r w pos
     = Inr (if passed pos w then Some (cursor_in_word pos w r) else None)"
  unfolding finds_def by blast

lemma FindPositionInWords_eq:
  "list_all (finds pos) ws \<Longrightarrow> FindPositionInWords r ws pos
    = Inr (if list_all (passed pos) ws then Some (fold (cursor_in_word pos) ws r) else None)"
  by (induction ws arbitrary: r) (auto simp: findsD)

lemma FindPositionInArgs_eq:
  "list_all (finds pos) ws \<Longrightarrow> as = map (\<lambda>(i, w). (c, i, w)) (enumerate i ws) \<Longrightarrow>
   FindPositionInArgs c i ws r pos
     = Inr (\<not> list_all (arg_passed pos) as, last_cursor pos r (takeWhile (arg_passed pos) as))"
proof (induction ws arbitrary: i r as)
  case (Cons w ws)
  then show ?case
    by (auto simp: findsD arg_passed_def last_cursor_def arg_cursor_def)
qed (simp add: last_cursor_def)

definition call_finds :: "LinePos \<Rightarrow> Call \<Rightarrow> bool" where
  "call_finds pos c \<longleftrightarrow> list_all (finds pos) (call_words c)"

lemma FindPositionInCalls_eq:
  "list_all (call_finds pos) cs \<Longrightarrow>
   FindPositionInCalls cs r pos
     = Inr (last_cursor pos r (takeWhile (arg_passed pos) (concat (map call_args cs))))"
proof (induction cs arbitrary: r)
  case (Cons c cs)
  obtain ty ws n where c: "c = Call ty ws n" by (cases c)
  let ?as = "call_args c"
  have args: "FindPositionInArgs c 0 ws r pos
      = Inr (\<not> list_all (arg_passed pos) ?as, last_cursor pos r (takeWhile (arg_passed pos) ?as))"
    using Cons.prems by (intro FindPositionInArgs_eq) (simp_all add: call_finds_def c call_args_def)
  show ?case
  proof (cases "list_all (arg_passed pos) ?as")
    case True
    then have app: "takeWhile (arg_passed pos) (?as @ as) = ?as @ takeWhile (arg_passed pos) as" for as
      by (intro takeWhile_append2) (simp add: list_all_iff)
    have all: "takeWhile (arg_passed pos) ?as = ?as"
      using True by (simp add: takeWhile_eq_all_conv list_all_iff)
    have "FindPositionInCalls (c # cs) r pos = FindPositionInCalls cs (last_cursor pos r ?as) pos"
      using args [unfolded all] True by (simp add: c)
    then show ?thesis
      using Cons by (simp add: app last_cursor_def)
  next
    case False
    then have "takeWhile (arg_passed pos) (?as @ as) = takeWhile (arg_passed pos) ?as" for as
      by (auto simp: list_all_iff intro: takeWhile_append1)
    with False args show ?thesis by (simp add: c)
  qed
qed (simp add: last_cursor_def)

lemma FindPositionInScript_eq:
  assumes "list_all shaped (words_in_script s)"
  shows "FindPositionInScript s pos = Inr (cursor_in_script pos s)"
proof (rule tree_induct [where P = "finds pos" and C = "call_finds pos" and G = "\<lambda>_. True"
      and S = "\<lambda>s. FindPositionInScript s pos = Inr (cursor_in_script pos s)"])
  fix ty loc x d
  assume w: "shaped (Word ty loc x d)"
    and d: "data_inv (finds pos) (\<lambda>s. FindPositionInScript s pos = Inr (cursor_in_script pos s)) d"
  have "\<not> loc_pos loc \<le> pos \<Longrightarrow> FindPositionInWord r (Word ty loc x d) pos = Inr None" for r
    using pos_after [where l = loc and pos = pos] by (auto simp: FindPositionInWord.simps)
  moreover have "loc_pos loc \<le> pos \<Longrightarrow> FindPositionInWord r (Word ty loc x d) pos
      = Inr (if passed pos (Word ty loc x d) then Some (cursor_in_word pos (Word ty loc x d) r) else None)" for r
    using pos_after [where l = loc and pos = pos] d
    by (cases rule: shaped_cases [OF w])
      (auto simp: FindPositionInWord.simps cursor_in_word.simps data_inv_def FindPositionInWords_eq)
  ultimately show "finds pos (Word ty loc x d)"
    unfolding finds_def by (cases "loc_pos loc \<le> pos") simp_all
next
  fix ty ws n
  assume "list_all (finds pos) ws"
  then show "call_finds pos (Call ty ws n)" by (simp add: call_finds_def)
next
  fix loc cs
  assume "list_all (call_finds pos) cs"
  then show "FindPositionInScript (Script loc cs) pos = Inr (cursor_in_script pos (Script loc cs))"
    by (simp add: FindPositionInCalls_eq cursor_in_script_eq script_args_def)
qed (use assms in \<open>simp add: tree_all_def list_all_iff\<close>)

section \<open>What the cursor points to\<close>

text \<open>
  The call of a cursor is one of the tree and its argument one of the call; its word is one of
  the tree and starts at or before the position.
\<close>

definition cursor_ok :: "LinePos \<Rightarrow> Word set \<Rightarrow> Call set \<Rightarrow> ScriptCursor \<Rightarrow> bool" where
  "cursor_ok pos ws cs r \<longleftrightarrow>
     (\<forall>c. cursor_call r = Some c \<longrightarrow> c \<in> cs \<and> cursor_argument r < length (call_words c)) \<and>
     (\<forall>w. cursor_word r = Some w \<longrightarrow> w \<in> ws \<and> word_pos w \<le> pos)"

lemma cursor_ok_mono: "cursor_ok pos ws cs r \<Longrightarrow> ws \<subseteq> ws' \<Longrightarrow> cs \<subseteq> cs' \<Longrightarrow> cursor_ok pos ws' cs' r"
  unfolding cursor_ok_def by blast

lemma script_arg_in:
  assumes "(c, i, w) \<in> set (script_args s)"
  shows "c \<in> set (calls_in_script s)" and "i < length (call_words c)"
    and "set (words_in w) \<subseteq> set (words_in_script s)" and "set (calls_in w) \<subseteq> set (calls_in_script s)"
proof -
  obtain loc cs where s: "s = Script loc cs" by (cases s)
  obtain ty ws n where c: "c = Call ty ws n" by (cases c)
  have a: "c \<in> set cs" "i < length ws" "w = ws ! i" using assms by (simp_all add: script_args_mem s c)
  then show "c \<in> set (calls_in_script s)" "i < length (call_words c)"
    by (force simp: s c)+
  have "set (words_in w) \<subseteq> set (words_in_call c)" "set (calls_in w) \<subseteq> set (calls_in_call c)"
    unfolding a(3) c using nth_mem [OF a(2)] by auto
  with a(1) show "set (words_in w) \<subseteq> set (words_in_script s)" "set (calls_in w) \<subseteq> set (calls_in_script s)"
    by (auto simp: s)
qed

lemma cursor_in_ok:
  shows "passed pos w \<Longrightarrow> cursor_ok pos ws cs r \<Longrightarrow> set (words_in w) \<subseteq> ws \<Longrightarrow> set (calls_in w) \<subseteq> cs \<Longrightarrow>
      cursor_ok pos ws cs (cursor_in_word pos w r)"
    and "cursor_ok pos (set (words_in_script s)) (set (calls_in_script s)) (cursor_in_script pos s)"
proof (induction pos w r and pos s arbitrary: ws cs rule: cursor_in_word_cursor_in_script.induct)
  case (1 pos ty loc x d r)
  have word: "cursor_ok pos ws cs (r\<lparr>cursor_word := Some (Word ty loc x d)\<rparr>)"
    using "1.prems" by (auto simp: cursor_ok_def)
  show ?case
  proof (cases d)
    case (ScriptPtr s)
    then have "cursor_ok pos ws cs (cursor_in_script pos s)"
      using "1.IH"(1) "1.prems"(3,4) by (intro cursor_ok_mono [OF "1.IH"(1)]) auto
    with ScriptPtr show ?thesis by (simp add: cursor_in_word.simps)
  next
    case (WordVec vs)
    have step: "cursor_ok pos ws cs (cursor_in_word pos u q)"
      if "ty = TOKEN_LIST \<or> ty = EXPAND" "u \<in> set vs" "cursor_ok pos ws cs q" for u q
      using "1.prems" that WordVec by (intro "1.IH"(2) [OF WordVec that(1,2)]) (auto simp: list_all_iff)
    have "cursor_ok pos ws cs (fold (cursor_in_word pos) us q)"
      if "cursor_ok pos ws cs q" "set us \<subseteq> set vs" "ty = TOKEN_LIST \<or> ty = EXPAND" for us q
      by (rule fold_invariant [where Q = "\<lambda>u. u \<in> set vs" and P = "cursor_ok pos ws cs", OF _ that(1) step [OF that(3)]])
        (use that(2) in auto)
    with WordVec word "1.prems"(2) show ?thesis by (simp add: cursor_in_word.simps)
  qed (use word in \<open>simp_all add: cursor_in_word.simps\<close>)
next
  case (2 pos s)
  define reached where "reached = takeWhile (arg_passed pos) (script_args s)"
  have eq: "cursor_in_script pos s = last_cursor pos null_cursor reached"
    by (simp add: cursor_in_script_eq reached_def)
  show ?case
  proof (cases "reached = []")
    case True
    then show ?thesis by (simp add: eq last_cursor_def null_cursor_def cursor_ok_def)
  next
    case False
    obtain c i w where last: "last reached = (c, i, w)" by (metis prod_cases3)
    have "(c, i, w) \<in> set reached" using False last by (metis last_in_set)
    then have arg: "(c, i, w) \<in> set (script_args s)" and "passed pos w"
      unfolding reached_def by (auto dest: set_takeWhileD simp: arg_passed_def)
    note in_arg = script_arg_in [OF arg]
    have p: "arg_passed pos = (\<lambda>(c, i, w). passed pos w)" by (auto simp: arg_passed_def)
    have "cursor_ok pos (set (words_in_script s)) (set (calls_in_script s))
        (cursor_in_word pos w \<lparr>cursor_call = Some c, cursor_argument = i, cursor_word = None\<rparr>)"
      using False last in_arg \<open>passed pos w\<close>
      by (intro "2.IH") (auto simp: reached_def p cursor_ok_def)
    with False last show ?thesis by (simp add: eq last_cursor_def arg_cursor_def)
  qed
qed

lemma FindPositionInScript_ok:
  assumes "list_all shaped (words_in_script s)"
  shows "returns (FindPositionInScript s pos)
    (cursor_ok pos (set (words_in_script s)) (set (calls_in_script s)))"
  using cursor_in_ok(2) by (simp add: FindPositionInScript_eq [OF assms])

text \<open>
  The argument that decides: after the arguments \<open>before\<close>, which are passed, \<open>a\<close> is the last one
  that starts at or before the position. When all of its parts do, the cursor is for \<open>a\<close>;
  when one of them starts later, it is the cursor of the argument before \<open>a\<close>.
\<close>

lemma cursor_at_arg:
  assumes "script_args s = before @ (c, i, w) # after" "list_all (arg_passed pos) before"
    and "after = [] \<or> pos < word_pos (snd (snd (hd after)))"
  shows "cursor_in_script pos s =
    (if passed pos w then arg_cursor pos (c, i, w) else last_cursor pos null_cursor before)"
proof -
  have "takeWhile (arg_passed pos) after = []"
  proof (cases after)
    case (Cons a as)
    obtain c' i' ty loc x d where "a = (c', i', Word ty loc x d)"
      by (metis prod_cases3 Word.exhaust)
    with Cons assms(3) show ?thesis by (simp add: arg_passed_def not_le)
  qed simp
  then have "takeWhile (arg_passed pos) (script_args s)
      = (if passed pos w then before @ [(c, i, w)] else before)"
    using assms(2) by (auto simp: assms(1) list_all_iff arg_passed_def takeWhile_append2)
  then show ?thesis by (simp add: cursor_in_script_eq last_cursor_def)
qed

end
