(* ===== verification/Examples.thy ===== *)
theory Examples
  imports ParserCorrect IndexCorrect ScriptCursor
begin

text \<open>
  A small source text with the answers of Tcl's parser for it, the tree and the index that the
  program builds from it: the concrete data on which the properties are instantiated.
\<close>

section \<open>A text\<close>

text \<open>A procedure that calls itself, and a call of it on the second line.\<close>

definition example_text :: string where
  "example_text = ''proc f {} {f}'' @ [newline_char] @ ''f'' @ [newline_char]"

definition simple_word :: "nat \<Rightarrow> nat \<Rightarrow> nat \<Rightarrow> nat \<Rightarrow> Tcl_Token list" where
  "simple_word off n toff tn =
     [\<lparr>tok_type = TCL_TOKEN_SIMPLE_WORD, tok_start = off, tok_size = n, numComponents = 1\<rparr>,
      \<lparr>tok_type = TCL_TOKEN_TEXT, tok_start = toff, tok_size = tn, numComponents = 0\<rparr>]"

definition one_word :: "nat \<Rightarrow> nat \<Rightarrow> Tcl_Parse" where
  "one_word off n = \<lparr>commentSize = 0, commandStart = off, commandSize = n, numWords = 1,
     tokenPtr = simple_word off 1 off 1\<rparr>"

definition example_command :: Tcl_Parse where
  "example_command = \<lparr>commentSize = 0, commandStart = 0, commandSize = 14, numWords = 4,
     tokenPtr = simple_word 0 4 0 4 @ simple_word 5 1 5 1 @ simple_word 7 2 8 0 @ simple_word 10 3 11 1\<rparr>"

definition example_tcl :: tcl where
  "example_tcl = \<lparr>
     Tcl_ParseCommand = (\<lambda>c off n.
       if off = 0 \<and> n = 16 then Some example_command
       else if off = 11 \<and> n = 1 \<or> off = 14 \<and> n = 2 then Some (one_word off n)
       else None),
     TclFindElement = (\<lambda>c off n. if n = 0 then Some (off, off, 0) else None)\<rparr>"

definition example_file :: SourceFile where
  "example_file = make_source_file ''example.tcl'' example_text"

definition example_context :: ParseContext where
  "example_context = \<lparr>ctx_file = example_file, file_addr = 1, cur_ns = ''''\<rparr>"

definition example_script :: Script where
  "example_script = (case parse_file example_tcl example_context of Inr (s, _) \<Rightarrow> s
     | Inl _ \<Rightarrow> Script \<lparr>sourceFile = 0, loc_offset = 0, loc_line = 0, loc_column = 0\<rparr> [])"

section \<open>Tcl's answers are as documented\<close>

lemma command_words_simple_word:
  "lo \<le> off \<Longrightarrow> off \<le> toff \<Longrightarrow> toff + tn \<le> off + n \<Longrightarrow> command_words (off + n) hi m ts \<Longrightarrow>
   command_words lo hi (Suc m) (simple_word off n toff tn @ ts)"
  by (auto simp: simple_word_def intro: command_words_simple)

lemma one_word_ok: "0 < n \<Longrightarrow> command_words off (off + n) (Suc 0) (simple_word off 1 off 1)"
  using command_words_simple_word [of off off off 1 1 "off + n" 0 "[]"]
  by (simp add: command_words_nil)

lemma example_command_ok: "command_words 0 14 4 (tokenPtr example_command)"
proof -
  have "command_words 0 14 (Suc (Suc (Suc (Suc 0)))) (tokenPtr example_command)"
    unfolding example_command_def Tcl_Parse.select_convs append_assoc [symmetric]
    unfolding append_assoc
    by (intro command_words_simple_word
        command_words_simple_word [where ts = "[]" and m = 0, unfolded append_Nil2] command_words_nil) auto
  then show ?thesis by (simp add: eval_nat_numeral)
qed

lemma length_example_text: "length example_text = 16"
  by code_simp

lemma example_documented: "tcl_documented example_tcl example_text"
  unfolding tcl_documented_def length_example_text
proof (intro conjI allI impI)
  fix off n pr
  assume "Tcl_ParseCommand example_tcl example_text off n = Some pr" "off + n \<le> (16::nat)"
  then have "off = 0 \<and> n = 16 \<and> pr = example_command \<or>
      (off = 11 \<and> n = 1 \<or> off = 14 \<and> n = 2) \<and> pr = one_word off n"
    by (auto simp: example_tcl_def split: if_splits)
  then show "off < commandStart pr + commandSize pr" "commandStart pr + commandSize pr \<le> off + n"
    "command_words off (commandStart pr + commandSize pr) (numWords pr) (tokenPtr pr)"
    using example_command_ok one_word_ok [of 1 11] one_word_ok [of 2 14]
    by (auto simp: example_command_def one_word_def)
next
  fix off n e nx sz
  assume "TclFindElement example_tcl example_text off n = Some (e, nx, sz)"
  then show "off \<le> nx" "nx \<le> off + n" "off + n \<le> e \<or> off \<le> e \<and> e + sz \<le> nx \<and> off < nx"
    by (auto simp: example_tcl_def split: if_splits)
qed

section \<open>The tree and the index\<close>

lemma example_parse: "parse_file example_tcl example_context = Inr (example_script, example_context)"
  by code_simp

definition global_context :: ScanContext where
  "global_context = \<lparr>nsPath = [global_namespace_id make_index]\<rparr>"

lemma example_safe: "script_safe example_script"
  by code_simp

lemma global_scan_ok: "scan_ok (make_index, global_context)"
  using index_ok_make_index tree_okD(2) [OF tree_ok_make_index]
  by (simp add: scan_ok_def global_context_def)

lemma here_global: "here (make_index, global_context) = []"
  using tree_ok_make_index by (simp add: here_def global_context_def)

definition example_index :: Index where
  "example_index = (case Build make_index global_context example_script of Inr (ix, _) \<Rightarrow> ix
     | Inl _ \<Rightarrow> make_index)"

lemma example_build: "Build make_index global_context example_script = Inr (example_index, global_context)"
  by code_simp

section \<open>A procedure in a namespace\<close>

text \<open>A procedure in a namespace that calls itself.\<close>

definition nested_text :: string where
  "nested_text = ''namespace eval a {proc b {} {b}}''"

definition nested_tcl :: tcl where
  "nested_tcl = \<lparr>
     Tcl_ParseCommand = (\<lambda>c off n.
       if off = 0 \<and> n = 32 then Some \<lparr>commentSize = 0, commandStart = 0, commandSize = 32, numWords = 4,
         tokenPtr = simple_word 0 9 0 9 @ simple_word 10 4 10 4 @ simple_word 15 1 15 1 @ simple_word 17 15 18 13\<rparr>
       else if off = 18 \<and> n = 13 then Some \<lparr>commentSize = 0, commandStart = 18, commandSize = 13, numWords = 4,
         tokenPtr = simple_word 18 4 18 4 @ simple_word 23 1 23 1 @ simple_word 25 2 26 0 @ simple_word 28 3 29 1\<rparr>
       else if off = 29 \<and> n = 1 then Some (one_word 29 1)
       else None),
     TclFindElement = (\<lambda>c off n. if n = 0 then Some (off, off, 0) else None)\<rparr>"

definition nested_context :: ParseContext where
  "nested_context = \<lparr>ctx_file = make_source_file ''nested.tcl'' nested_text, file_addr = 1, cur_ns = ''''\<rparr>"

lemma four_words:
  assumes "lo \<le> a" "a \<le> ta" "ta + tn \<le> a + n" "a + n \<le> b" "b \<le> tb" "tb + tm \<le> b + m"
    "b + m \<le> c" "c \<le> tc" "tc + tk \<le> c + k" "c + k \<le> d" "d \<le> td" "td + te \<le> d + l" "d + l \<le> hi"
  shows "command_words lo hi 4
    (simple_word a n ta tn @ simple_word b m tb tm @ simple_word c k tc tk @ simple_word d l td te)"
proof -
  have "command_words lo hi (Suc (Suc (Suc (Suc 0))))
    (simple_word a n ta tn @ simple_word b m tb tm @ simple_word c k tc tk @ simple_word d l td te @ [])"
    using assms by (intro command_words_simple_word command_words_nil) auto
  then show ?thesis by (simp add: eval_nat_numeral)
qed

lemma nested_documented: "tcl_documented nested_tcl nested_text"
proof -
  have len: "length nested_text = 32" by code_simp
  have "off < commandStart pr + commandSize pr \<and> commandStart pr + commandSize pr \<le> off + n \<and>
      command_words off (commandStart pr + commandSize pr) (numWords pr) (tokenPtr pr)"
    if "Tcl_ParseCommand nested_tcl nested_text off n = Some pr" for off n pr
    using that one_word_ok [of 1 29]
    by (auto simp: nested_tcl_def one_word_def split: if_splits intro!: four_words)
  then show ?thesis
    unfolding tcl_documented_def len by (auto simp: nested_tcl_def split: if_splits)
qed

definition nested_file :: SourceFile where
  "nested_file = make_source_file ''nested.tcl'' nested_text"

definition nested_script :: Script where
  "nested_script = (case parse_file nested_tcl nested_context of Inr (s, _) \<Rightarrow> s
     | Inl _ \<Rightarrow> Script \<lparr>sourceFile = 0, loc_offset = 0, loc_line = 0, loc_column = 0\<rparr> [])"

lemma nested_parse: "parse_file nested_tcl nested_context = Inr (nested_script, nested_context)"
  by code_simp

lemma nested_safe: "script_safe nested_script"
  by code_simp

definition nested_index :: Index where
  "nested_index = (case Build make_index global_context nested_script of Inr (ix, _) \<Rightarrow> ix
     | Inl _ \<Rightarrow> make_index)"

lemma nested_build: "Build make_index global_context nested_script = Inr (nested_index, global_context)"
  by code_simp

end
