(* ===== verification/ParserScopes.thy ===== *)
theory ParserScopes
  imports ParserCorrect IndexSpec
begin

text \<open>
  The namespaces of the calls of a tree. The parser and the indexer keep track of the current
  namespace on their own: the parser builds a string with \<open>AbsPath\<close> while it descends into the
  bodies of \<open>proc\<close> and \<open>namespace eval\<close>, the indexer resolves a path of components. This theory
  specifies the first and shows where the two agree.
\<close>

section \<open>Calls with the namespace around them\<close>

text \<open>
  All calls of a tree with the namespace they are in: the fourth word of a call is in the
  namespace that \<open>B\<close> gives for the call, the other words are where the call is.
\<close>

primrec scoped_word :: "(call_type \<Rightarrow> Word list \<Rightarrow> 'n \<Rightarrow> 'n) \<Rightarrow> Word \<Rightarrow> 'n \<Rightarrow> ('n \<times> Call) list"
  and scoped_data :: "(call_type \<Rightarrow> Word list \<Rightarrow> 'n \<Rightarrow> 'n) \<Rightarrow> word_data \<Rightarrow> 'n \<Rightarrow> ('n \<times> Call) list"
  and scoped_call :: "(call_type \<Rightarrow> Word list \<Rightarrow> 'n \<Rightarrow> 'n) \<Rightarrow> Call \<Rightarrow> 'n \<Rightarrow> ('n \<times> Call) list"
  and scoped_script :: "(call_type \<Rightarrow> Word list \<Rightarrow> 'n \<Rightarrow> 'n) \<Rightarrow> Script \<Rightarrow> 'n \<Rightarrow> ('n \<times> Call) list"
where
  "scoped_word B (Word t l x d) = scoped_data B d"
| "scoped_data B Nothing = (\<lambda>n. [])"
| "scoped_data B (ArrayAccess name ws) = (\<lambda>n. concat (map (\<lambda>f. f n) (map (scoped_word B) ws)))"
| "scoped_data B (ScriptPtr s) = scoped_script B s"
| "scoped_data B (WordVec ws) = (\<lambda>n. concat (map (\<lambda>f. f n) (map (scoped_word B) ws)))"
| "scoped_data B (WordPtr w) = scoped_word B w"
| "scoped_call B (Call t ws m) = (\<lambda>n. (n, Call t ws m) #
     (let fs = map (scoped_word B) ws in
      concat (map (\<lambda>f. f n) (take 3 fs)) @ concat (map (\<lambda>f. f (B t ws n)) (take 1 (drop 3 fs))) @
      concat (map (\<lambda>f. f n) (drop 4 fs))))"
| "scoped_script B (Script l cs) = (\<lambda>n. concat (map (\<lambda>f. f n) (map (scoped_call B) cs)))"

text \<open>The walk meets every call of the tree once, in the order of the tree.\<close>

lemma scoped_append:
  "map snd (concat (map (\<lambda>w. scoped_word B w n) (take 3 ws)) @
     concat (map (\<lambda>w. scoped_word B w m) (take 1 (drop 3 ws))) @
     concat (map (\<lambda>w. scoped_word B w n) (drop 4 ws))) = concat (map calls_in ws)"
  if "\<And>w k. w \<in> set ws \<Longrightarrow> map snd (scoped_word B w k) = calls_in w"
proof -
  have part: "map snd (concat (map (\<lambda>w. scoped_word B w k) us)) = concat (map calls_in us)"
    if "set us \<subseteq> set ws" for us k
    using that \<open>\<And>w k. w \<in> set ws \<Longrightarrow> map snd (scoped_word B w k) = calls_in w\<close>
    by (auto simp: map_concat o_def intro!: arg_cong [where f = concat] map_cong)
  have "drop 4 ws = drop 1 (drop 3 ws)" by simp
  then have "take 3 ws @ take 1 (drop 3 ws) @ drop 4 ws = ws" by (simp only: append_take_drop_id)
  then have "concat (map calls_in ws)
      = concat (map calls_in (take 3 ws)) @ concat (map calls_in (take 1 (drop 3 ws))) @ concat (map calls_in (drop 4 ws))"
    by (metis concat_append map_append)
  then show ?thesis
    using part [OF set_take_subset [of 3]] part [OF set_drop_subset [of 4]]
      part [OF order_trans [OF set_take_subset [of 1 "drop 3 ws"] set_drop_subset [of 3]]]
    by simp
qed

lemma scoped_calls: "map snd (scoped_script B s n) = calls_in_script s"
proof -
  have "(\<forall>n. map snd (scoped_word B w n) = calls_in w) \<and>
    (\<forall>n. map snd (scoped_data B d n) = calls_in_data d) \<and>
    (\<forall>n. map snd (scoped_call B c n) = calls_in_call c) \<and>
    (\<forall>n. map snd (scoped_script B s n) = calls_in_script s)" for w d c
  proof (induction rule: Word_word_data_Call_Script.induct)
    case (Call ty ws m)
    then show ?case
      using scoped_append [of ws B] by (simp add: take_map drop_map o_def Let_def)
  qed (auto simp: map_concat o_def intro!: arg_cong [where f = concat] map_cong)
  then show ?thesis by blast
qed

text \<open>What a body keeps of the namespace around it holds of all namespaces of the walk.\<close>

lemma scoped_keeps:
  assumes B: "\<And>ty ws m n. K (Call ty ws m) \<Longrightarrow> I n \<Longrightarrow> I (B ty ws n)"
    and "I n" "list_all K (calls_in_script s)"
  shows "list_all (\<lambda>(n, c). I n) (scoped_script B s n)"
proof -
  let ?ok = "\<lambda>f cs. \<forall>n. I n \<longrightarrow> list_all K cs \<longrightarrow> list_all (\<lambda>(n, c). I n) (f n)"
  have "?ok (scoped_word B w) (calls_in w) \<and> ?ok (scoped_data B d) (calls_in_data d) \<and>
    ?ok (scoped_call B c) (calls_in_call c) \<and> ?ok (scoped_script B s) (calls_in_script s)" for w d c
  proof (induction rule: Word_word_data_Call_Script.induct)
    case (Call ty ws m)
    have word: "list_all (\<lambda>(n, c). I n) (scoped_word B w k)"
      if "I k" "w \<in> set ws" "list_all K (concat (map calls_in ws))" for k w
      using that Call by (auto simp: list_all_iff)
    have words: "list_all (\<lambda>w. list_all (\<lambda>(n, c). I n) (scoped_word B w k)) us"
      if "I k" "set us \<subseteq> set ws" "list_all K (concat (map calls_in ws))" for k us
      using word that by (metis (no_types, lifting) list_all_iff subsetD)
    have sub: "set (take (Suc 0) (drop 3 ws)) \<subseteq> set ws"
      by (rule order_trans [OF set_take_subset set_drop_subset])
    show ?case
      using words [OF _ set_take_subset] words [OF _ set_drop_subset] words [OF _ sub] B
      by (auto simp: take_map drop_map o_def Let_def list.pred_map)
  qed (auto simp: list_all_iff)
  then show ?thesis using assms(2,3) by blast
qed

text \<open>The namespace in which the parser is in a body, as \<open>ParseCommand\<close> computes it.\<close>

definition body_ns :: "call_type \<Rightarrow> Word list \<Rightarrow> string \<Rightarrow> string" where
  "body_ns ty ws n =
     (case ty of
        PROC \<Rightarrow> if word_type (ws ! 1) = TEXT then Namespace_str (AbsPath (spec_split (word_str (ws ! 1))) n) else n
      | NAMESPACE_EVAL \<Rightarrow> if word_type (ws ! 2) = TEXT then Path (AbsPath (spec_split (word_str (ws ! 2))) n) else n
      | _ \<Rightarrow> n)"

text \<open>The path at which the indexer walks a body.\<close>

definition body_path :: "call_type \<Rightarrow> Word list \<Rightarrow> string list \<Rightarrow> string list" where
  "body_path ty ws path =
     (case ty of
        PROC \<Rightarrow> (let qn = spec_split (word_str (ws ! 1)) in name_base qn path @ name_parts qn)
      | NAMESPACE_EVAL \<Rightarrow> path @ split_sep (word_str (ws ! 2))
      | _ \<Rightarrow> path)"

section \<open>The parser tags calls with the namespace around them\<close>

definition tag_ok :: "string \<times> Call \<Rightarrow> bool" where
  "tag_ok p \<longleftrightarrow> call_ns (snd p) = fst p"

definition tagged_word :: "string \<Rightarrow> Word \<Rightarrow> bool" where
  "tagged_word n w \<longleftrightarrow> list_all tag_ok (scoped_word body_ns w n)"

definition tagged_script :: "string \<Rightarrow> Script \<Rightarrow> bool" where
  "tagged_script n s \<longleftrightarrow> list_all tag_ok (scoped_script body_ns s n)"

lemma tagged_word_data:
  "tagged_word n w \<longleftrightarrow>
     (case word_data w of Nothing \<Rightarrow> True | ArrayAccess _ ws \<Rightarrow> list_all (tagged_word n) ws
      | ScriptPtr s \<Rightarrow> tagged_script n s | WordVec ws \<Rightarrow> list_all (tagged_word n) ws
      | WordPtr w \<Rightarrow> tagged_word n w)"
  by (cases w) (auto simp: tagged_word_def [abs_def] tagged_script_def list.pred_map o_def split: word_data.split)

lemma tagged_word_simps [simp]:
  "tagged_word n (Word t l x Nothing)"
  "tagged_word n (Word t l x (WordVec ws)) \<longleftrightarrow> list_all (tagged_word n) ws"
  "tagged_word n (Word t l x (ArrayAccess nm ws)) \<longleftrightarrow> list_all (tagged_word n) ws"
  "tagged_word n (Word t l x (ScriptPtr s)) \<longleftrightarrow> tagged_script n s"
  "tagged_word n (set_type t w) \<longleftrightarrow> tagged_word n w"
  "tagged_word n (set_data (WordVec ws) w) \<longleftrightarrow> list_all (tagged_word n) ws"
  "tagged_word n (set_data (ScriptPtr s) w) \<longleftrightarrow> tagged_script n s"
  by (simp_all add: tagged_word_data [of n "Word _ _ _ _"] tagged_word_data [of n "set_data _ _"]
      tagged_word_data [of n "set_type _ _"] tagged_word_data [of n w])

definition tagged_call :: "string \<Rightarrow> Call \<Rightarrow> bool" where
  "tagged_call n c \<longleftrightarrow> list_all tag_ok (scoped_call body_ns c n)"

lemma tagged_call_iff:
  "tagged_call n (Call ty ws m) \<longleftrightarrow> m = n \<and> list_all (tagged_word n) (take 3 ws) \<and>
     list_all (tagged_word (body_ns ty ws n)) (take 1 (drop 3 ws)) \<and> list_all (tagged_word n) (drop 4 ws)"
  by (simp add: tagged_call_def tag_ok_def [of "(_, _)"] tagged_word_def [abs_def] list.pred_map o_def
      take_map drop_map)

lemma tagged_script_iff: "tagged_script n (Script l cs) \<longleftrightarrow> list_all (tagged_call n) cs"
  by (simp add: tagged_script_def tagged_call_def [abs_def] list.pred_map o_def)

lemma tagged_call_plain:
  assumes "body_ns ty ws n = n" "list_all (tagged_word n) ws"
  shows "tagged_call n (Call ty ws n)"
  using assms by (auto simp: tagged_call_iff list_all_iff dest: in_set_takeD in_set_dropD)


text \<open>
  Facts about what is returned, if anything is: \<open>parse_file_returns\<close> shows that something is.
  \<open>tags PW\<close>: a parser of words leaves the context as it is and tags the calls in its words.
\<close>

definition tags :: "word_parser \<Rightarrow> bool" where
  "tags PW \<longleftrightarrow> (\<forall>ctx pr i w j ctx'. PW ctx pr i = Inr (w, j, ctx') \<longrightarrow> ctx' = ctx \<and> tagged_word (cur_ns ctx) w)"

definition tags_scripts :: "script_parser \<Rightarrow> bool" where
  "tags_scripts PS \<longleftrightarrow> (\<forall>ctx off n s ctx'. PS ctx off n = Inr (s, ctx') \<longrightarrow> ctx' = ctx \<and> tagged_script (cur_ns ctx) s)"

lemma tagsD: "tags PW \<Longrightarrow> PW ctx pr i = Inr (w, j, ctx') \<Longrightarrow> ctx' = ctx \<and> tagged_word (cur_ns ctx) w"
  unfolding tags_def by blast

lemma tags_scriptsD:
  "tags_scripts PS \<Longrightarrow> PS ctx off n = Inr (s, ctx') \<Longrightarrow> ctx' = ctx \<and> tagged_script (cur_ns ctx) s"
  unfolding tags_scripts_def by blast

lemma parse_components_tags:
  assumes "tags PW"
  shows "parse_components PW k ctx pr i m = Inr (ws, j, ctx') \<Longrightarrow> ctx' = ctx \<and> list_all (tagged_word (cur_ns ctx)) ws"
proof (induction k arbitrary: i ws)
  case 0
  then show ?case by (simp add: parse_components.simps split: if_splits)
next
  case (Suc k)
  then show ?case
    by (subst (asm) (2) parse_components.simps)
      (auto simp: rbind_Inr_iff split: if_splits dest!: tagsD [OF assms])
qed

lemma ParseWord_tags:
  assumes "tags_scripts PS"
  shows "tags (ParseWord PS k)"
proof (induction k)
  case 0
  show ?case by (simp add: tags_def ParseWord.simps)
next
  case (Suc k)
  note comps = parse_components_tags [OF Suc]
  have "ctx' = ctx \<and> tagged_word (cur_ns ctx) w"
    if run: "ParseWord PS (Suc k) ctx pr i = Inr (w, j, ctx')" for ctx pr i w j ctx'
  proof -
    obtain t where t: "nth_r (tokenPtr pr) i = Inr t"
      using run by (cases "nth_r (tokenPtr pr) i") (auto simp: ParseWord.simps)
    show ?thesis
      using run
      by (cases "tok_type t")
        (auto simp: ParseWord.simps(2) t rbind_Inr_iff Let_def split: if_splits
          dest!: tagsD [OF Suc] comps tags_scriptsD [OF assms])
  qed
  then show ?case unfolding tags_def by blast
qed

text \<open>Taking a word apart into a list keeps no calls.\<close>

lemma WordToList_loop_tags:
  "WordToList_loop T k ctx list n last_pos vec = Inr (Some ws) \<Longrightarrow> list_all (tagged_word m) vec \<Longrightarrow>
   list_all (tagged_word m) ws"
  by (induction T k ctx list n last_pos vec rule: WordToList_loop.induct)
    (auto simp: WordToList_loop.simps rbind_Inr_iff Let_def split: option.splits if_splits)

lemma WordToList_tags:
  "WordToList T ctx w = Inr w' \<Longrightarrow> tagged_word m w \<Longrightarrow> tagged_word m w'"
  by (auto simp: WordToList_def rbind_Inr_iff split: string_view.splits option.splits if_splits
      dest!: WordToList_loop_tags [where m = m])

lemma WordToList_all_tags:
  "WordToList_all T ctx ws = Inr ws' \<Longrightarrow> list_all (tagged_word m) ws \<Longrightarrow> list_all (tagged_word m) ws'"
  by (induction ws arbitrary: ws') (auto simp: rbind_Inr_iff dest: WordToList_tags)

lemma list_of_lists_tags:
  assumes "list_of_lists T ctx w = Inr w'" "tagged_word m w"
  shows "tagged_word m w'"
proof -
  obtain u where u: "WordToList T ctx w = Inr u" using assms(1) by (auto simp: list_of_lists_def rbind_Inr_iff)
  then have m: "tagged_word m u" using assms(2) by (rule WordToList_tags)
  show ?thesis
  proof (cases "word_type u = LIST")
    case True
    then obtain vec ps where "word_data u = WordVec vec" "WordToList_all T ctx vec = Inr ps" "w' = set_data (WordVec ps) u"
      using assms(1) u by (auto simp: list_of_lists_def rbind_Inr_iff get_WordVec_def split: word_data.splits)
    with m show ?thesis by (simp add: tagged_word_data [of m u] WordToList_all_tags)
  qed (use assms(1) u m in \<open>simp add: list_of_lists_def\<close>)
qed


text \<open>
  The closures of \<open>ParseCommand\<close> append a word whose calls are in the current namespace and leave
  the context as it is; a body is tagged with the namespace that is current while it is parsed.
\<close>

lemma error_word_tags: "error_word ctx pr msg = Inr w \<Longrightarrow> tagged_word n w"
  by (auto simp: error_word_def rbind_Inr_iff)

lemma parseWord_tags:
  assumes "tags PW" "parseWord PW pr st = Inr (w, st')"
  shows "words st' = words st @ [w] \<and> pctx st' = pctx st \<and> tagged_word (cur_ns (pctx st)) w"
  using assms(2)
  by (auto simp: parseWord_def push_word_def rbind_Inr_iff split: if_splits
      dest: error_word_tags dest!: tagsD [OF assms(1)])

lemma parseArgs_tags:
  assumes "tags PW" "parseArgs T PW pr st = Inr (w, st')"
  shows "words st' = words st @ [w] \<and> pctx st' = pctx st \<and> tagged_word (cur_ns (pctx st)) w"
  using assms(2)
  by (auto simp: parseArgs_def push_word_def rbind_Inr_iff split: if_splits
      dest: error_word_tags list_of_lists_tags dest!: tagsD [OF assms(1)])

lemma parseBody_tags:
  assumes "tags PW" "tags_scripts PS" "parseBody PS PW pr st = Inr (w, st')"
  shows "words st' = words st @ [w] \<and> pctx st' = pctx st \<and> tagged_word (cur_ns (pctx st)) w"
  using assms(3)
  by (auto simp: parseBody_def push_word_def rbind_Inr_iff split: if_splits string_view.splits
      dest: error_word_tags dest!: tagsD [OF assms(1)] tags_scriptsD [OF assms(2)])

lemma enter_Inr:
  "(if b then rbind (SplitName s) (\<lambda>qn. Inr (f qn)) else Inr x) = Inr y \<longleftrightarrow> y = (if b then f (spec_split s) else x)"
  by (auto simp: SplitName_spec)

lemma parse_proc_tags:
  assumes "tags PW" "tags_scripts PS" "parse_proc T PS PW pr st = Inr st'"
  shows "\<exists>name args body. words st' = words st @ [name, args, body] \<and> pctx st' = pctx st \<and>
    list_all (tagged_word (cur_ns (pctx st))) [name, args] \<and>
    tagged_word (if word_type name = TEXT
      then Namespace_str (AbsPath (spec_split (word_str name)) (cur_ns (pctx st))) else cur_ns (pctx st)) body"
proof -
  obtain name st1 args st2 st3 body st4 where run: "parseWord PW pr st = Inr (name, st1)"
    "parseArgs T PW pr st1 = Inr (args, st2)" "parseBody PS PW pr st3 = Inr (body, st4)"
    "st3 = (if word_type name = TEXT
      then set_ns (Namespace_str (AbsPath (spec_split (word_str name)) (cur_ns (pctx st2)))) st2 else st2)"
    "st' = set_ns (cur_ns (pctx st2)) st4"
    using assms(3) by (auto simp: parse_proc_def rbind_Inr_iff Let_def enter_Inr)
  note tags = parseWord_tags [OF assms(1) run(1)] parseArgs_tags [OF assms(1) run(2)]
    parseBody_tags [OF assms(1,2) run(3)]
  show ?thesis
    using tags unfolding run(4,5) by (cases "word_type name = TEXT") (simp_all add: set_ns_def)
qed

lemma parse_namespace_eval_tags:
  assumes "tags PW" "tags_scripts PS" "parse_namespace_eval PS PW pr st = Inr st'"
  shows "\<exists>arg body. words st' = words st @ [arg, body] \<and> pctx st' = pctx st \<and>
    tagged_word (cur_ns (pctx st)) arg \<and>
    tagged_word (if word_type arg = TEXT
      then Path (AbsPath (spec_split (word_str arg)) (cur_ns (pctx st))) else cur_ns (pctx st)) body"
proof -
  obtain arg st1 st2 body st3 where run: "parseWord PW pr st = Inr (arg, st1)"
    "parseBody PS PW pr st2 = Inr (body, st3)"
    "st2 = (if word_type arg = TEXT
      then set_ns (Path (AbsPath (spec_split (word_str arg)) (cur_ns (pctx st1)))) st1 else st1)"
    "st' = set_ns (cur_ns (pctx st1)) st3"
    using assms(3) by (auto simp: parse_namespace_eval_def rbind_Inr_iff Let_def enter_Inr)
  note tags = parseWord_tags [OF assms(1) run(1)] parseBody_tags [OF assms(1,2) run(2)]
  show ?thesis
    using tags unfolding run(3,4) by (cases "word_type arg = TEXT") (simp_all add: set_ns_def)
qed

text \<open>\<open>gives m P\<close>: what the computation returns, if it returns normally, satisfies \<open>P\<close>.\<close>

definition gives :: "'a result \<Rightarrow> ('a \<Rightarrow> bool) \<Rightarrow> bool" where
  "gives m P \<longleftrightarrow> (\<forall>x. m = Inr x \<longrightarrow> P x)"

lemma gives_Inr [simp]: "gives (Inr x) P \<longleftrightarrow> P x"
  by (simp add: gives_def)

lemma gives_rbind: "(\<And>x. m = Inr x \<Longrightarrow> gives (f x) P) \<Longrightarrow> gives (rbind m f) P"
  by (auto simp: gives_def rbind_Inr_iff)

lemma gives_if: "(b \<Longrightarrow> gives m P) \<Longrightarrow> (\<not> b \<Longrightarrow> gives n P) \<Longrightarrow> gives (if b then m else n) P"
  by simp

text \<open>The words of a call whose body, if it has one, is in the namespace of the call.\<close>

definition plain_tags :: "CommandState \<Rightarrow> CommandState \<Rightarrow> bool" where
  "plain_tags st st' \<longleftrightarrow> pctx st' = pctx st \<and>
     (\<exists>ws. words st' = words st @ ws \<and> list_all (tagged_word (cur_ns (pctx st))) ws)"

lemma plain_tags_refl: "plain_tags st st"
  by (simp add: plain_tags_def)

lemma plain_tags_step:
  assumes "plain_tags st st1" "words st2 = words st1 @ [w] \<and> pctx st2 = pctx st1 \<and> tagged_word (cur_ns (pctx st1)) w"
  shows "plain_tags st st2"
  using assms by (auto simp: plain_tags_def)

text \<open>
  What \<open>parse_known\<close> leaves: whatever words follow in the namespace of the call, its words are
  tagged as those of a call of the type.
\<close>

definition known_tags :: "CommandState \<Rightarrow> call_type \<Rightarrow> CommandState \<Rightarrow> bool" where
  "known_tags st ty st' \<longleftrightarrow> pctx st' = pctx st \<and>
     (\<forall>us. list_all (tagged_word (cur_ns (pctx st))) us \<longrightarrow>
        tagged_call (cur_ns (pctx st)) (Call ty (words st' @ us) (cur_ns (pctx st))))"

lemma parse_known_tags:
  assumes PW: "tags PW" and PS: "tags_scripts PS" and run: "parse_known T PS PW pr w st = Inr (ty, st')"
    and st: "words st = [w]" "tagged_word (cur_ns (pctx st)) w"
  shows "known_tags st ty st'"
proof -
  have plain: "known_tags st ty st'" if "plain_tags st st'" "ty \<noteq> PROC" "ty \<noteq> NAMESPACE_EVAL" for ty st'
  proof -
    have "body_ns ty ws n = n" for ws n using that(2,3) by (simp add: body_ns_def split: call_type.split)
    then show ?thesis using that(1) st by (auto simp: known_tags_def plain_tags_def intro!: tagged_call_plain)
  qed
  have word: "plain_tags st st2" if "parseWord PW pr st1 = Inr (w, st2)" "plain_tags st st1" for w st1 st2
    using that(2) parseWord_tags [OF PW that(1)] by (rule plain_tags_step)
  have body: "plain_tags st st2" if "parseBody PS PW pr st1 = Inr (w, st2)" "plain_tags st st1" for w st1 st2
    using that(2) parseBody_tags [OF PW PS that(1)] by (rule plain_tags_step)
  have proc: "known_tags st PROC st'" if "parse_proc T PS PW pr st = Inr st'" for st'
    using parse_proc_tags [OF PW PS that] st
    by (auto simp: known_tags_def tagged_call_iff body_ns_def eval_nat_numeral)
  have namespace: "known_tags st NAMESPACE_EVAL st2"
    if "parseWord PW pr st = Inr (sub, st1)" "parse_namespace_eval PS PW pr st1 = Inr st2" for sub st1 st2
    using parseWord_tags [OF PW that(1)] parse_namespace_eval_tags [OF PW PS that(2)] st
    by (auto simp: known_tags_def tagged_call_iff body_ns_def eval_nat_numeral)
  have user: "known_tags st USER st" using plain_tags_refl by (rule plain) simp_all
  note plain_types = plain [where ty = WHILE, simplified] plain [where ty = FOR, simplified] plain [where ty = FOREACH, simplified]
    plain [where ty = USER, simplified]
  have "gives (parse_known T PS PW pr w st) (\<lambda>r. known_tags st (fst r) (snd r))"
    unfolding parse_known_def split_beta
    by (intro gives_if gives_rbind)
      (auto intro: proc namespace user, (metis plain_types word body plain_tags_refl)+)
  then show ?thesis using run by (simp add: gives_def)
qed


lemma ParseCommand_tags:
  assumes PS: "tags_scripts PS" and run: "ParseCommand T PS ctx pr s = Inr (s', ctx')"
    and s: "tagged_script (cur_ns ctx) s"
  shows "ctx' = ctx \<and> tagged_script (cur_ns ctx) s'"
proof (cases "numWords pr < 1")
  case True
  with run s show ?thesis by (simp add: ParseCommand_def)
next
  case False
  let ?PW = "ParseWord PS (length (tokenPtr pr))" and ?st = "\<lparr>words = [], tokenIndex = 0, pctx = ctx\<rparr>"
  have PW: "tags ?PW" using PS by (rule ParseWord_tags)
  obtain w st1 ty st2 us i ctx2 where run: "parseWord ?PW pr ?st = Inr (w, st1)"
    "parse_known T PS ?PW pr w st1 = Inr (ty, st2)"
    "parse_components ?PW (length (tokenPtr pr)) (pctx st2) pr (tokenIndex st2) (length (tokenPtr pr))
      = Inr (us, i, ctx2)"
    "s' = Script (script_location s) (commands s @ [Call ty (words st2 @ us) (cur_ns ctx)])" "ctx' = ctx2"
    using run False by (auto simp: ParseCommand_def parseRest_def rbind_Inr_iff Let_def)
  have st1: "words st1 = [w] \<and> pctx st1 = ctx \<and> tagged_word (cur_ns ctx) w"
    using parseWord_tags [OF PW run(1)] by simp
  then have "known_tags st1 ty st2" using parse_known_tags [OF PW PS run(2)] by simp
  with st1 have known: "pctx st2 = ctx" "\<And>us. list_all (tagged_word (cur_ns ctx)) us \<Longrightarrow>
      tagged_call (cur_ns ctx) (Call ty (words st2 @ us) (cur_ns ctx))"
    by (simp_all add: known_tags_def)
  then show ?thesis
    using parse_components_tags [OF PW run(3)] s unfolding run(4,5)
    by (cases s) (simp add: tagged_script_iff)
qed

lemma ParseScript_loop_tags:
  assumes PS: "tags_scripts PS"
  shows "ParseScript_loop T PS k ctx off n s = Inr (s', ctx') \<Longrightarrow> tagged_script (cur_ns ctx) s \<Longrightarrow>
    ctx' = ctx \<and> tagged_script (cur_ns ctx) s'"
proof (induction k arbitrary: off n s)
  case 0
  then show ?case by (simp add: ParseScript_loop.simps split: if_splits option.splits)
next
  case (Suc k)
  show ?case
  proof (cases "n > 0 \<and> Tcl_ParseCommand T (contents (ctx_file ctx)) off n \<noteq> None")
    case False
    with Suc.prems show ?thesis by (auto simp: ParseScript_loop.simps [of _ _ "Suc k"] split: if_splits)
  next
    case True
    then obtain pr where pr: "n > 0" "Tcl_ParseCommand T (contents (ctx_file ctx)) off n = Some pr" by auto
    from Suc.prems(1) obtain s1 ctx1 off1 n1 where run: "ParseCommand T PS ctx pr s = Inr (s1, ctx1)"
      "ParseScript_loop T PS k ctx1 off1 n1 s1 = Inr (s', ctx')"
      by (auto simp: ParseScript_loop.simps [of _ _ "Suc k"] pr rbind_Inr_iff Let_def)
    then show ?thesis
      using ParseCommand_tags [OF PS run(1) Suc.prems(2)] Suc.IH by blast
  qed
qed

lemma ParseScript_tags: "tags_scripts (ParseScript T k)"
proof (induction k)
  case 0
  show ?case by (simp add: tags_scripts_def)
next
  case (Suc k)
  have "ctx' = ctx \<and> tagged_script (cur_ns ctx) s"
    if "ParseScript T (Suc k) ctx off n = Inr (s, ctx')" for ctx off n s ctx'
    using that by (auto simp: rbind_Inr_iff tagged_script_iff dest!: ParseScript_loop_tags [OF Suc])
  then show ?case unfolding tags_scripts_def by blast
qed

lemma parse_file_tags:
  "parse_file T ctx = Inr (s, ctx') \<Longrightarrow> tagged_script (cur_ns ctx) s"
  unfolding parse_file_def using tags_scriptsD [OF ParseScript_tags] by blast


section \<open>Where parser and indexer agree\<close>

text \<open>
  The parser and the indexer agree on the namespace of a body when its name is a list of proper
  components that is either a single one, or absolute, or read in the global namespace; an
  absolute name is not one of these for \<open>namespace eval\<close>, whose name the indexer always takes
  as relative.
\<close>

definition relative_name :: "string list \<Rightarrow> string \<Rightarrow> bool" where
  "relative_name path s \<longleftrightarrow> simple_names (split_sep s) \<and> (length (split_sep s) = 1 \<or> path = [])"

definition absolute_name :: "string \<Rightarrow> bool" where
  "absolute_name s \<longleftrightarrow> sep_at s 0 \<and> simple_names (split_sep (drop 2 s))"

definition agrees :: "string list \<times> Call \<Rightarrow> bool" where
  "agrees p =
     (case p of (path, Call ty ws m) \<Rightarrow>
        (case ty of
           PROC \<Rightarrow> word_type (ws ! 1) = TEXT \<and>
             (relative_name path (word_str (ws ! 1)) \<or> absolute_name (word_str (ws ! 1)))
         | NAMESPACE_EVAL \<Rightarrow> word_type (ws ! 2) = TEXT \<and> relative_name path (word_str (ws ! 2))
         | _ \<Rightarrow> True))"

text \<open>The name of the namespace with a path, as calls carry it: empty for the global one.\<close>

definition ns_tag :: "string list \<Rightarrow> string" where
  "ns_tag path = (if path = [] then [] else abs_name path)"

lemma ns_tag_snoc: "ns_tag (path @ [p]) = ns_tag path @ ''::'' @ p"
  by (simp add: ns_tag_def abs_name_def join_sep_snoc)

lemma split_sep_snoc:
  obtains ps p where "split_sep s = ps @ [p]" "s = join_sep (ps @ [p])"
  by (metis append_butlast_last_id join_split_sep split_sep_nonempty)

lemma relative_split:
  assumes "split_sep s = ps @ [p]" "simple_names (ps @ [p])"
  shows "spec_split s = \<lparr>ns = (if ps = [] then None else Some (join_sep ps)), qname = p, absolute = False\<rparr>"
proof -
  have s: "s = join_sep (ps @ [p])" using assms(1) by (metis join_split_sep)
  have p: "p \<noteq> []" "CHR '':'' \<notin> set p" using assms(2) by simp_all
  have "\<not> sep_at s 0"
    using join_sep_simple_start [OF _ assms(2)] unfolding s [symmetric] by (cases s) auto
  then have "SplitName s = Inr \<lparr>ns = (if ps = [] then None else Some (join_sep ps)), qname = p, absolute = False\<rparr>"
    using SplitName_unqualified [OF p(2,1)] SplitName_qualified [OF p(2), of "join_sep ps"]
    by (cases "ps = []") (simp_all add: s join_sep_snoc)
  then show ?thesis by (simp add: spec_split_def)
qed

lemma relative_agrees:
  assumes "relative_name path s"
  shows "Namespace_str (AbsPath (spec_split s) (ns_tag path)) = ns_tag (path @ name_parts (spec_split s)) \<and>
    \<not> absolute (spec_split s) \<and> simple_names (name_parts (spec_split s)) \<and>
    Path (AbsPath (spec_split s) (ns_tag path)) = ns_tag (path @ split_sep s)"
proof -
  obtain ps p where s: "split_sep s = ps @ [p]" "s = join_sep (ps @ [p])" by (rule split_sep_snoc)
  have simple: "simple_names (ps @ [p])" and or: "ps = [] \<or> path = []"
    using assms by (auto simp: relative_name_def s(1))
  have parts: "name_parts (spec_split s) = ps"
    using simple by (simp add: relative_split [OF s(1) simple] name_parts_def NamespaceParts_def split_join_simple)
  show ?thesis
    unfolding parts using or simple
    by (auto simp: relative_split [OF s(1) simple] AbsPath_def Namespace_str_def Path_def s(1)
        ns_tag_def abs_name_def join_sep_snoc simple_names_def)
qed

lemma absolute_agrees:
  assumes "absolute_name s"
  shows "Namespace_str (AbsPath (spec_split s) n) = ns_tag (name_parts (spec_split s)) \<and>
    absolute (spec_split s) \<and> simple_names (name_parts (spec_split s))"
proof -
  obtain ps p where s: "split_sep (drop 2 s) = ps @ [p]" "drop 2 s = join_sep (ps @ [p])" by (rule split_sep_snoc)
  have simple: "simple_names (ps @ [p])" and at: "sep_at s 0"
    using assms by (auto simp: absolute_name_def s(1))
  have "s = ''::'' @ drop 2 s" using sep_split [OF at] by (simp add: numeral_2_eq_2)
  then have "s = abs_name (ps @ [p])" by (simp only: abs_name_def s(2) [symmetric])
  then have split: "spec_split s = \<lparr>ns = Some (if ps = [] then [] else abs_name ps), qname = p, absolute = True\<rparr>"
    using SplitName_abs_name [OF simple] by (simp add: spec_split_def)
  have "simple_names ps" using simple by simp
  then show ?thesis
    by (simp add: split name_parts_def NamespaceParts_abs_name AbsPath_def Namespace_str_def ns_tag_def)
qed

lemma body_agrees:
  assumes "agrees (path, Call ty ws m)" "simple_names path"
  shows "body_ns ty ws (ns_tag path) = ns_tag (body_path ty ws path) \<and> simple_names (body_path ty ws path)"
  using assms relative_agrees [of path] absolute_agrees
  by (cases ty)
    (auto simp: agrees_def body_ns_def body_path_def Let_def name_base_def relative_name_def simple_names_def)


text \<open>The walks of parser and indexer, related by the name of the path.\<close>

definition related :: "(string \<Rightarrow> (string \<times> Call) list) \<Rightarrow> (string list \<Rightarrow> (string list \<times> Call) list) \<Rightarrow> bool" where
  "related f g \<longleftrightarrow> (\<forall>path. simple_names path \<longrightarrow> list_all agrees (g path) \<longrightarrow>
     f (ns_tag path) = map (\<lambda>(p, c). (ns_tag p, c)) (g path) \<and> list_all (\<lambda>(p, c). simple_names p) (g path))"

lemma relatedD:
  "related f g \<Longrightarrow> simple_names path \<Longrightarrow> list_all agrees (g path) \<Longrightarrow>
   f (ns_tag path) = map (\<lambda>(p, c). (ns_tag p, c)) (g path) \<and> list_all (\<lambda>(p, c). simple_names p) (g path)"
  unfolding related_def by blast

lemma related_concat:
  "list_all (\<lambda>w. related (F w) (G w)) ws \<Longrightarrow>
   related (\<lambda>n. concat (map (\<lambda>w. F w n) ws)) (\<lambda>p. concat (map (\<lambda>w. G w p) ws))"
proof (induction ws)
  case Nil
  show ?case by (simp add: related_def)
next
  case (Cons w ws)
  then have w: "related (F w) (G w)"
    and ws: "related (\<lambda>n. concat (map (\<lambda>w. F w n) ws)) (\<lambda>p. concat (map (\<lambda>w. G w p) ws))"
    by simp_all
  show ?case
    unfolding related_def
    using relatedD [OF w] relatedD [OF ws] by simp
qed

lemma related_call:
  assumes "list_all (\<lambda>w. related (scoped_word body_ns w) (scoped_word body_path w)) ws"
  shows "related (scoped_call body_ns (Call ty ws m)) (scoped_call body_path (Call ty ws m))"
proof -
  have part: "related (\<lambda>n. concat (map (\<lambda>w. scoped_word body_ns w n) us))
      (\<lambda>p. concat (map (\<lambda>w. scoped_word body_path w p) us))" if "set us \<subseteq> set ws" for us
    using assms that by (intro related_concat) (auto simp: list_all_iff)
  note parts = part [OF set_take_subset [of 3]] part [OF set_drop_subset [of 4]]
    part [OF order_trans [OF set_take_subset [of 1 "drop 3 ws"] set_drop_subset [of 3]]]
  show ?thesis
    unfolding related_def
  proof (intro allI impI)
    fix path
    assume path: "simple_names path" and ok: "list_all agrees (scoped_call body_path (Call ty ws m) path)"
    then have "agrees (path, Call ty ws m)" by simp
    note body = body_agrees [OF this path]
    show "scoped_call body_ns (Call ty ws m) (ns_tag path)
        = map (\<lambda>(p, c). (ns_tag p, c)) (scoped_call body_path (Call ty ws m) path) \<and>
      list_all (\<lambda>(p, c). simple_names p) (scoped_call body_path (Call ty ws m) path)"
      using relatedD [OF parts(1) path] relatedD [OF parts(2) path]
        relatedD [OF parts(3), of "body_path ty ws path"] body path ok
      by (simp add: take_map drop_map o_def Let_def)
  qed
qed

lemma related_script: "related (scoped_script body_ns s) (scoped_script body_path s)"
proof -
  have "related (scoped_word body_ns w) (scoped_word body_path w) \<and>
    related (scoped_data body_ns d) (scoped_data body_path d) \<and>
    related (scoped_call body_ns c) (scoped_call body_path c) \<and>
    related (scoped_script body_ns s) (scoped_script body_path s)" for w d c
  proof (induction rule: Word_word_data_Call_Script.induct)
    case (Call ty ws m)
    then show ?case by (intro related_call) (simp add: list_all_iff)
  next
    case Nothing
    show ?case by (simp add: related_def)
  qed (auto simp: list_all_iff o_def intro!: related_concat)
  then show ?thesis by blast
qed

text \<open>
  Both walks of a parsed file: with names on which they agree, every call of the tree carries the
  name of the path at which the indexer is when it comes to the call.
\<close>

definition placed :: "string list \<times> Call \<Rightarrow> bool" where
  "placed p \<longleftrightarrow> simple_names (fst p) \<and> call_ns (snd p) = ns_tag (fst p)"

lemma tagged_placed:
  assumes "tagged_script (ns_tag path) s" "simple_names path" "list_all agrees (scoped_script body_path s path)"
  shows "list_all placed (scoped_script body_path s path)"
  using assms(1) relatedD [OF related_script assms(2,3)]
  by (auto simp: tagged_script_def tag_ok_def placed_def list_all_iff)

lemma parse_file_placed:
  assumes "parse_file T ctx = Inr (s, ctx')" "cur_ns ctx = []" "list_all agrees (scoped_script body_path s [])"
  shows "list_all placed (scoped_script body_path s [])"
  using tagged_placed [of "[]" s] parse_file_tags [OF assms(1)] assms(2,3)
  by (simp add: ns_tag_def simple_names_def)

end
