(* ===== verification/ParserProperties.thy ===== *)
theory ParserProperties
  imports Examples ParserScopes
begin

text \<open>
  The properties of the parser and of the lookup of positions in its trees.
\<close>



section \<open>The namespaces of calls\<close>





text \<open>Where they do not agree: an absolute name of a \<open>namespace eval\<close>, and a qualified relative name
  below another namespace.\<close>

lemma namespaces_differ:
  "body_ns NAMESPACE_EVAL [w, w, Word TEXT l (Literal ''::a'') Nothing] [] = ''::a'' \<and>
   body_path NAMESPACE_EVAL [w, w, Word TEXT l (Literal ''::a'') Nothing] [] = [[], ''a''] \<and>
   body_ns NAMESPACE_EVAL [w, w, Word TEXT l (Literal ''b::c'') Nothing] ''::a'' = ''::ab::c'' \<and>
   body_path NAMESPACE_EVAL [w, w, Word TEXT l (Literal ''b::c'') Nothing] [''a''] = [''a'', ''b'', ''c'']"
  by code_simp

section \<open>Positions\<close>

text \<open>C35: looking a position up in a well-formed tree always returns the cursor of the last argument
  before the first one that is not passed. Its call is a call of the tree with that argument, its
  word a word of the tree that starts at or before the position.\<close>

theorem FindPosition_correct:
  assumes "list_all shaped (words_in_script s)"
  shows "returns (FindPositionInScript s pos) (\<lambda>r. r = cursor_in_script pos s \<and>
    (\<forall>c. cursor_call r = Some c \<longrightarrow> c \<in> set (calls_in_script s) \<and> cursor_argument r < length (call_words c)) \<and>
    (\<forall>w. cursor_word r = Some w \<longrightarrow> w \<in> set (words_in_script s) \<and> word_pos w \<le> pos))"
  using FindPositionInScript_ok [OF assms, of pos] FindPositionInScript_eq [OF assms, of pos]
  by (simp add: cursor_ok_def)

theorem FindPosition_correct_witness:
  "returns (FindPositionInScript example_script (LinePos 1 0)) (\<lambda>r. r = cursor_in_script (LinePos 1 0) example_script \<and>
    (\<forall>c. cursor_call r = Some c \<longrightarrow> c \<in> set (calls_in_script example_script) \<and> cursor_argument r < length (call_words c)) \<and>
    (\<forall>w. cursor_word r = Some w \<longrightarrow> w \<in> set (words_in_script example_script) \<and> word_pos w \<le> LinePos 1 0))"
proof (rule FindPosition_correct)
  show "list_all shaped (words_in_script example_script)" by code_simp
qed

text \<open>C36: when the arguments in front of an argument are passed and those after it start later, the
  cursor is at the argument if all of its parts start at or before the position; if one part
  starts later, the argument is discarded and the cursor is the one for the argument in front of
  it, although the position is inside of the argument.\<close>

theorem FindPosition_at_argument:
  assumes "list_all shaped (words_in_script s)"
    and "script_args s = before @ (c, i, w) # after" "list_all (\<lambda>(c, i, w). passed pos w) before"
    and "after = [] \<or> pos < word_pos (snd (snd (hd after)))"
  shows "FindPositionInScript s pos =
    Inr (if passed pos w
         then cursor_in_word pos w \<lparr>cursor_call = Some c, cursor_argument = i, cursor_word = None\<rparr>
         else if before = [] then null_cursor
         else case last before of (c, i, w) \<Rightarrow>
           cursor_in_word pos w \<lparr>cursor_call = Some c, cursor_argument = i, cursor_word = None\<rparr>)"
proof -
  have "list_all (arg_passed pos) before"
    using assms(3) by (simp add: arg_passed_def list_all_iff split_beta)
  from cursor_at_arg [OF assms(2) this assms(4)] show ?thesis
    by (simp add: FindPositionInScript_eq [OF assms(1)] last_cursor_def arg_cursor_def)
qed

text \<open>The word \<open>"x$y"\<close>, asked for at its first character.\<close>

definition split_word :: Word where
  "split_word = Word TOKEN_LIST \<lparr>sourceFile = 1, loc_offset = 2, loc_line = 0, loc_column = 2\<rparr>
     (View 2 ''x$y'')
     (WordVec [Word TEXT \<lparr>sourceFile = 1, loc_offset = 2, loc_line = 0, loc_column = 2\<rparr> (View 2 ''x'') Nothing,
       Word VARIABLE \<lparr>sourceFile = 1, loc_offset = 4, loc_line = 0, loc_column = 4\<rparr> (View 4 ''y'') Nothing])"

definition split_call :: Call where
  "split_call = Call USER
     [Word TEXT \<lparr>sourceFile = 1, loc_offset = 0, loc_line = 0, loc_column = 0\<rparr> (View 0 ''f'') Nothing,
      split_word] []"

definition split_script :: Script where
  "split_script = Script \<lparr>sourceFile = 1, loc_offset = 0, loc_line = 0, loc_column = 0\<rparr> [split_call]"

theorem FindPosition_at_argument_witness:
  "FindPositionInScript split_script (LinePos 0 2)
    = Inr \<lparr>cursor_call = Some split_call, cursor_argument = 0, cursor_word = Some (call_words split_call ! 0)\<rparr>"
proof -
  have shaped: "list_all shaped (words_in_script split_script)" by code_simp
  have args: "script_args split_script = [(split_call, 0, call_words split_call ! 0)] @ (split_call, 1, split_word) # []"
    by code_simp
  have before: "list_all (\<lambda>(c, i, w). passed (LinePos 0 2) w) [(split_call, 0, call_words split_call ! 0)]"
    by code_simp
  have part: "\<not> passed (LinePos 0 2) split_word" by code_simp
  show ?thesis
    using FindPosition_at_argument [OF shaped args before] part
    by (simp add: split_call_def cursor_in_word.simps)
qed

end
