(* ===== verification/IndexLocations.thy ===== *)
theory IndexLocations
  imports IndexCorrect
begin

text \<open>
  The references of an index are at words of the script that was indexed: a consequence of the
  specification of the two passes.
\<close>

section \<open>References in the specification\<close>

definition locs_in :: "SourceLocation set \<Rightarrow> IndexView \<Rightarrow> bool" where
  "locs_in L v \<longleftrightarrow> (\<forall>r \<in> set (view_refs v). ref_location r \<in> L)"

definition locations :: "Word list \<Rightarrow> SourceLocation set" where
  "locations ws = word_location ` set ws"

lemma locations_simps [simp]:
  "locations [] = {}"
  "locations (w # ws) = insert (word_location w) (locations ws)"
  "locations (ws @ ws') = locations ws \<union> locations ws'"
  by (auto simp: locations_def)

lemma location_of_nth: "i < length ws \<Longrightarrow> word_location (ws ! i) \<in> locations (concat (map words_in ws))"
  by (auto simp: locations_def words_in_eq intro!: image_eqI [OF refl] bexI [OF _ nth_mem])

lemma locations_nth:
  "i < length ws \<Longrightarrow> locations (words_in (ws ! i)) \<subseteq> locations (concat (map words_in ws))"
  by (auto simp: locations_def intro!: imageI bexI [OF _ nth_mem])

lemma tree_all_nth:
  "tree_all G (concat (map words_in ws)) (concat (map calls_in ws)) \<Longrightarrow> i < length ws \<Longrightarrow>
   tree_all G (words_in (ws ! i)) (calls_in (ws ! i))"
  by (auto simp: tree_all_def list_all_iff)

lemma locs_in_resolve [simp]: "locs_in L (spec_resolve b ps v) = locs_in L v"
  by (simp add: locs_in_def)

lemma locs_in_define:
  "locs_in L v \<Longrightarrow> word_location (ws ! 1) \<in> L \<Longrightarrow> locs_in L (spec_define path ws v)"
  by (auto simp: locs_in_def spec_define_def Let_def)

lemma locs_in_use:
  assumes "locs_in L v" "word_location (ws ! 0) \<in> L"
  shows "locs_in L (spec_use path ws v)"
proof -
  obtain found v' where f: "spec_find (spec_split (word_str (ws ! 0))) path v = (found, v')"
    by (metis surj_pair)
  then have "view_refs v' = view_refs v"
    using spec_find_view [of "spec_split (word_str (ws ! 0))" path v] by simp
  then show ?thesis
    using assms by (auto simp: spec_use_def f locs_in_def split: option.split)
qed

lemma spec_scan_locs:
  shows "tree_all call_ok (words_in w) (calls_in w) \<Longrightarrow> locations (words_in w) \<subseteq> L \<Longrightarrow> locs_in L v \<Longrightarrow>
      locs_in L (spec_scan_word path w v)"
    and "tree_all call_ok (concat (map words_in ws)) (concat (map calls_in ws)) \<Longrightarrow>
      locations (concat (map words_in ws)) \<subseteq> L \<Longrightarrow> locs_in L v \<Longrightarrow> locs_in L (spec_scan_words path ws v)"
    and "tree_all call_ok (words_in_call c) (calls_in_call c) \<Longrightarrow> locations (words_in_call c) \<subseteq> L \<Longrightarrow>
      locs_in L v \<Longrightarrow> locs_in L (spec_scan_call path c v)"
    and "tree_all call_ok (concat (map words_in_call cs)) (concat (map calls_in_call cs)) \<Longrightarrow>
      locations (concat (map words_in_call cs)) \<subseteq> L \<Longrightarrow> locs_in L v \<Longrightarrow> locs_in L (spec_scan_calls path cs v)"
    and "tree_all call_ok (words_in_script s) (calls_in_script s) \<Longrightarrow> locations (words_in_script s) \<subseteq> L \<Longrightarrow>
      locs_in L v \<Longrightarrow> locs_in L (spec_scan path s v)"
proof (induction path w v and path ws v and path c v and path cs v and path s v
    rule: spec_scan_word_spec_scan_words_spec_scan_call_spec_scan_calls_spec_scan.induct)
  case (1 path ty loc x d v)
  then show ?case by (auto split: word_data.split)
next
  case (4 path ty ws cns v)
  show ?case
  proof (cases ty)
    case PROC
    then have "1 < length ws" using "4.prems"(1) by (auto simp: call_ok_def arity_ok_def dest!: shaped_call_arity)
    then have "word_location (ws ! 1) \<in> L" using location_of_nth "4.prems"(2) by auto
    then have "locs_in L (spec_define path ws v)" using "4.prems"(3) by (simp add: locs_in_define)
    then show ?thesis using 4 PROC by simp
  next
    case NAMESPACE_EVAL
    then show ?thesis
      using 4 tree_all_nth [of call_ok ws 3] locations_nth [of 3 ws]
      by (auto simp: Let_def)
  qed (use 4 in simp_all)
qed simp_all

lemma spec_index_locs:
  shows "tree_all call_ok (words_in w) (calls_in w) \<Longrightarrow> locations (words_in w) \<subseteq> L \<Longrightarrow> locs_in L v \<Longrightarrow>
      locs_in L (spec_index_word path w v)"
    and "tree_all call_ok (concat (map words_in ws)) (concat (map calls_in ws)) \<Longrightarrow>
      locations (concat (map words_in ws)) \<subseteq> L \<Longrightarrow> locs_in L v \<Longrightarrow> locs_in L (spec_index_words path ws v)"
    and "tree_all call_ok (words_in_call c) (calls_in_call c) \<Longrightarrow> locations (words_in_call c) \<subseteq> L \<Longrightarrow>
      locs_in L v \<Longrightarrow> locs_in L (spec_index_call path c v)"
    and "tree_all call_ok (concat (map words_in_call cs)) (concat (map calls_in_call cs)) \<Longrightarrow>
      locations (concat (map words_in_call cs)) \<subseteq> L \<Longrightarrow> locs_in L v \<Longrightarrow> locs_in L (spec_index_calls path cs v)"
    and "tree_all call_ok (words_in_script s) (calls_in_script s) \<Longrightarrow> locations (words_in_script s) \<subseteq> L \<Longrightarrow>
      locs_in L v \<Longrightarrow> locs_in L (spec_index path s v)"
proof (induction path w v and path ws v and path c v and path cs v and path s v
    rule: spec_index_word_spec_index_words_spec_index_call_spec_index_calls_spec_index.induct)
  case (1 path ty loc x d v)
  then show ?case by (auto split: word_data.split)
next
  case (4 path ty ws cns v)
  show ?case
  proof (cases ty)
    case USER
    then have "0 < length ws" using "4.prems"(1) by (auto simp: call_ok_def arity_ok_def dest!: shaped_call_arity)
    then have "word_location (ws ! 0) \<in> L" using location_of_nth "4.prems"(2) by auto
    then have "locs_in L (spec_use path ws v)" using "4.prems"(3) by (simp add: locs_in_use)
    then show ?thesis using 4 USER by simp
  next
    case PROC
    then show ?thesis
      using 4 tree_all_nth [of call_ok ws 3] locations_nth [of 3 ws]
      by (auto simp: Let_def)
  next
    case NAMESPACE_EVAL
    then show ?thesis
      using 4 tree_all_nth [of call_ok ws 3] locations_nth [of 3 ws]
      by (auto simp: Let_def)
  qed (use 4 in simp_all)
qed simp_all

lemma spec_build_locs:
  "script_safe s \<Longrightarrow> locs_in (locations (words_in_script s)) v \<Longrightarrow>
   locs_in (locations (words_in_script s)) (spec_build path s v)"
  unfolding spec_build_def script_safe_def by (intro spec_index_locs(5) spec_scan_locs(5) order_refl)

section \<open>References in the index of a script\<close>

lemma references_at_words:
  assumes "script_safe s" "view_of ix = spec_build path s (view_of make_index)" "r \<in> set (references (procs ix))"
  shows "ref_location r \<in> word_location ` set (words_in_script s)"
proof -
  have "locs_in (locations (words_in_script s)) (view_of make_index)"
    by (simp add: locs_in_def view_of_def make_index_eqs empty_record_def)
  then have "locs_in (locations (words_in_script s)) (view_of ix)"
    unfolding assms(2) by (rule spec_build_locs [OF assms(1)])
  with assms(3) show ?thesis by (auto simp: locs_in_def locations_def view_of_def)
qed

end
