(* ===== verification/IndexProperties.thy ===== *)
theory IndexProperties
  imports Examples IndexLocations
begin

text \<open>
  The properties of the tables, the namespaces, the procedures and the index as a whole.
\<close>

section \<open>Tables\<close>

text \<open>C34: the references recorded for a procedure that is found by name are all and only those that
  were added for it, in the order in which they were added.\<close>

theorem proc_references_complete:
  assumes "index_ok ix" "e \<in> set (mm_equal_range n (byName (procs ix)))"
  shows "returns (Get (procs ix) (snd e)) (\<lambda>p. proc_name p = n \<and> proc_id p = snd e \<and>
    map (\<lambda>k. references (procs ix) ! snd k) (mm_equal_range (proc_id p) (refsByID (procs ix)))
      = filter (\<lambda>r. ref_id r = proc_id p) (references (procs ix)))"
proof -
  have ok: "proc_db.table_ok (procs ix)" using assms(1) by (simp add: index_ok_def)
  show ?thesis
    using proc_db.byName_ids [OF ok assms(2)] proc_db.get_id_row [OF ok] proc_db.refs_range [OF ok]
    by simp
qed

theorem proc_references_complete_witness:
  "returns (Get (procs example_index) 1) (\<lambda>p. proc_name p = ''f'' \<and> proc_id p = 1 \<and>
    map (\<lambda>k. references (procs example_index) ! snd k)
        (mm_equal_range (proc_id p) (refsByID (procs example_index)))
      = filter (\<lambda>r. ref_id r = proc_id p) (references (procs example_index)))"
proof -
  have ok: "index_ok example_index"
    using Build_returns [OF example_safe global_scan_ok] by (simp add: example_build refines_def)
  have mem: "(''f'', 1) \<in> set (mm_equal_range ''f'' (byName (procs example_index)))" by code_simp
  show ?thesis using proc_references_complete [OF ok mem] by simp
qed

section \<open>Namespaces\<close>

text \<open>C14: resolving a namespace from a valid one always returns the namespace whose path is the one
  the name denotes, keeps the tree well-formed, adds exactly the missing namespaces on the way and
  leaves what was there, the procedures and the variables alone.\<close>

theorem ResolveNamespace_correct:
  assumes "tree_ok ix" "ns_valid ix cur" "NamespaceParts qn = Inr parts"
  shows "returns (ResolveNamespace ix qn cur) (\<lambda>(i, ix').
    tree_ok ix' \<and> extends ix ix' \<and> procs ix' = procs ix \<and> variables ix' = variables ix \<and>
    ns_valid ix' i \<and> ns_path ix' i = (if absolute qn then [] else ns_path ix cur) @ parts \<and>
    ns_paths ix' = ns_paths ix \<union>
      (\<lambda>qs. (if absolute qn then [] else ns_path ix cur) @ qs) ` set (prefixes parts))"
  using ResolveNamespace_returns [OF assms]
  by (rule returns_mono) (auto simp: resolved_def base_path_def way_def split_beta)

theorem ResolveNamespace_correct_witness:
  "returns (ResolveNamespace make_index \<lparr>ns = Some ''a::b'', qname = [], absolute = False\<rparr> 1) (\<lambda>(i, ix').
    tree_ok ix' \<and> extends make_index ix' \<and> procs ix' = procs make_index \<and>
    variables ix' = variables make_index \<and>
    ns_valid ix' i \<and> ns_path ix' i = ns_path make_index 1 @ [''a'', ''b''] \<and>
    ns_paths ix' = ns_paths make_index \<union>
      (\<lambda>qs. ns_path make_index 1 @ qs) ` set (prefixes [''a'', ''b'']))"
proof -
  have 1: "ns_valid make_index 1" by code_simp
  have 2: "NamespaceParts \<lparr>ns = Some ''a::b'', qname = [], absolute = False\<rparr> = Inr [''a'', ''b'']" by code_simp
  show ?thesis using ResolveNamespace_correct [OF tree_ok_make_index 1 2] by simp
qed

text \<open>Resolving a namespace that exists changes nothing and returns the one namespace with the
  path.\<close>

lemma ResolveNamespace_idempotent:
  assumes "tree_ok ix" "ns_valid ix cur" "ResolveNamespace ix qn cur = Inr (i, ix')"
  shows "ResolveNamespace ix' qn cur = Inr (i, ix')"
proof -
  obtain parts where parts: "NamespaceParts qn = Inr parts"
    using assms(3) by (cases "NamespaceParts qn") (auto simp: ResolveNamespace_def)
  have r: "resolved ix (base_path ix qn cur @ parts) (i, ix')"
    using ResolveNamespace_returns [OF assms(1,2) parts] assms(3) by simp
  then have ok: "tree_ok ix'" "extends ix ix'" "ns_valid ix' i" "ns_path ix' i = base_path ix qn cur @ parts"
    by (simp_all add: resolved_def)
  have "base_path ix' qn cur = base_path ix qn cur"
    using extends_path [OF assms(1) ok(1,2) assms(2)] by (simp add: base_path_def)
  with ok have "ns_lookup ix' (base_path ix' qn cur @ parts) = Some i"
    by (simp add: ns_lookup_Some)
  with ResolveNamespace_existing [OF ok(1) extends_valid [OF ok(2) assms(2)] parts] show ?thesis
    by simp
qed

definition index_with_a :: "nat \<times> Index" where
  "index_with_a = (case ResolveNamespace make_index \<lparr>ns = Some ''a'', qname = [], absolute = False\<rparr> 1 of
     Inr r \<Rightarrow> r | Inl _ \<Rightarrow> (0, make_index))"

text \<open>Looking an absolute name up finds the one namespace with that path, or nothing when there
  is none; it never fails.\<close>

lemma FindNamespace_correct:
  assumes "tree_ok ix" "simple_names ps"
  shows "\<exists>r. FindNamespace ix (if ps = [] then [] else abs_name ps) = Inr r \<and>
    (\<forall>i. r = Some i \<longleftrightarrow> ns_valid ix i \<and> ns_path ix i = ps) \<and> (r = None \<longleftrightarrow> ps \<notin> ns_paths ix)"
  using FindNamespace_abs_name [OF assms] ns_lookup_Some [OF assms(1), of ps] ns_lookup_None [of ix ps]
  by simp

lemma FindNamespace_correct_witness:
  "\<exists>r. FindNamespace make_index ''::a'' = Inr r \<and>
    (\<forall>i. r = Some i \<longleftrightarrow> ns_valid make_index i \<and> ns_path make_index i = [''a'']) \<and>
    (r = None \<longleftrightarrow> [''a''] \<notin> ns_paths make_index)"
  using FindNamespace_correct [OF tree_ok_make_index, of "[''a'']"]
  by (simp add: simple_names_def abs_name_def)

text \<open>The printed name of a namespace is its absolute name (empty for the global one), and
  looking it up finds the namespace again.\<close>

lemma GetPrintName_roundtrip:
  assumes "tree_ok ix" "ns_valid ix i" "simple_names (ns_path ix i)"
  shows "GetPrintName_ns ix (ns_row ix i) = Inr (if ns_path ix i = [] then [] else abs_name (ns_path ix i))
    \<and> rbind (GetPrintName_ns ix (ns_row ix i)) (FindNamespace ix) = Inr (Some i)"
  using GetPrintName_ns_eq [OF assms(1,2)] FindNamespace_GetPrintName [OF assms] by simp

lemma GetPrintName_roundtrip_witness:
  "GetPrintName_ns (snd index_with_a) (ns_row (snd index_with_a) 2) = Inr ''::a''
    \<and> rbind (GetPrintName_ns (snd index_with_a) (ns_row (snd index_with_a) 2)) (FindNamespace (snd index_with_a))
      = Inr (Some 2)"
proof -
  have "returns (ResolveNamespace make_index \<lparr>ns = Some ''a'', qname = [], absolute = False\<rparr> 1)
      (\<lambda>r. resolved make_index [''a''] r \<and> ns_paths (snd r) = ns_paths make_index \<union> way [] [''a''])"
  proof -
    have 1: "ns_valid make_index 1" by code_simp
    have 2: "NamespaceParts \<lparr>ns = Some ''a'', qname = [], absolute = False\<rparr> = Inr [''a'']" by code_simp
    have 3: "base_path make_index \<lparr>ns = Some ''a'', qname = [], absolute = False\<rparr> 1 = []" by code_simp
    show ?thesis using ResolveNamespace_returns [OF tree_ok_make_index 1 2] unfolding 3 by simp
  qed
  then have ok: "tree_ok (snd index_with_a)"
    by (auto simp: index_with_a_def resolved_def returns_def)
  have 4: "ns_valid (snd index_with_a) 2" by code_simp
  have 5: "ns_path (snd index_with_a) 2 = [''a'']" by code_simp
  have 6: "(if ns_path (snd index_with_a) 2 = [] then [] else abs_name (ns_path (snd index_with_a) 2)) = ''::a''"
    by (simp add: 5 abs_name_def)
  have 7: "simple_names (ns_path (snd index_with_a) 2)" by (simp add: 5 simple_names_def)
  show ?thesis using GetPrintName_roundtrip [OF ok 4 7] unfolding 6 .
qed

text \<open>The printed name of a procedure is the absolute name of its namespace and its own name.\<close>

lemma GetPrintName_proc:
  assumes "index_ok ix" "p \<in> set (table (procs ix))"
  shows "GetPrintName_proc ix p = Inr (''::'' @ join_sep (ns_path ix (proc_namespace p) @ [proc_name p]))"
  using assms GetPrintName_proc_eq [of ix p] by (simp add: index_ok_def proc_ok_def abs_name_def)

lemma GetPrintName_proc_example:
  "GetPrintName_proc example_index (table (procs example_index) ! 0) = Inr ''::f''"
proof -
  have ok: "index_ok example_index"
    using Build_returns [OF example_safe global_scan_ok] by (simp add: example_build refines_def)
  have mem: "table (procs example_index) ! 0 \<in> set (table (procs example_index))" by code_simp
  have "ns_path example_index (proc_namespace (table (procs example_index) ! 0))
      @ [proc_name (table (procs example_index) ! 0)] = [''f'']" by code_simp
  then show ?thesis using GetPrintName_proc [OF ok mem] by simp
qed

section \<open>Procedures\<close>

text \<open>C10: indexing the definition of a procedure adds one procedure, in the namespace and under the
  name that its name denotes, with the counts of its formal arguments, and a reference to the word
  that names it; the index stays well-formed and keeps what it had.\<close>

theorem AddProcToIndex_correct:
  assumes "index_ok ix" "ns_valid ix cur"
    and "2 < length ws" "plain (word_str (ws ! 1))" "args_ok (ws ! 2)"
  shows "returns (AddProcToIndex ix cur ws) (\<lambda>ix'. index_ok ix' \<and> grows ix ix' \<and>
    view_of ix' = spec_define (ns_path ix cur) ws (view_of ix))"
  using assms by (rule AddProcToIndex_returns)

definition example_proc_words :: "Word list" where
  "example_proc_words = call_words (commands example_script ! 0)"

theorem AddProcToIndex_correct_witness:
  "returns (AddProcToIndex make_index 1 example_proc_words) (\<lambda>ix'. index_ok ix' \<and> grows make_index ix' \<and>
    view_of ix' = spec_define [] example_proc_words (view_of make_index))"
proof -
  have 1: "ns_valid make_index 1" by code_simp
  have 2: "2 < length example_proc_words" "plain (word_str (example_proc_words ! 1))"
    "args_ok (example_proc_words ! 2)" "ns_path make_index 1 = []" by code_simp+
  show ?thesis using AddProcToIndex_correct [OF index_ok_make_index 1 2(1-3)] unfolding 2(4) .
qed

text \<open>With proper formal arguments, indexing the definition of a procedure fails exactly for the
  names whose namespace is one colon, and then with \<open>std::out_of_range\<close>.\<close>

lemma AddProcToIndex_out_of_range:
  assumes "index_ok ix" "ns_valid ix cur" "2 < length ws" "args_ok (ws ! 2)"
  shows "AddProcToIndex ix cur ws = Inl OutOfRange \<longleftrightarrow> \<not> plain (word_str (ws ! 1))"
proof (cases "plain (word_str (ws ! 1))")
  case True
  then show ?thesis using AddProcToIndex_returns [OF assms(1-3) True assms(4)] by (auto simp: returns_def)
next
  case False
  let ?qn = "spec_split (word_str (ws ! 1))"
  have qn: "absolute ?qn" "NamespaceParts ?qn = Inl OutOfRange"
    using False NamespaceParts_absolute_short [OF SplitName_spec] by (auto simp: plain_def)
  obtain p ix1 where built: "(if word_type (ws ! 2) = LIST
      then rbind (get_WordVec (ws ! 2)) (\<lambda>vec. add_arguments ix (new_Proc\<lparr>proc_name := qname ?qn\<rparr>) vec)
      else Inr (new_Proc\<lparr>proc_name := qname ?qn\<rparr>, ix)) = Inr (p, ix1)"
    using proc_built_returns [OF assms(1,4) refl] by (auto simp: returns_def)
  have len: "1 < length ws" using assms(3) by simp
  have "AddProcToIndex ix cur ws = Inl OutOfRange"
    unfolding AddProcToIndex_def SplitName_spec nth_r_ok [OF len] nth_r_ok [OF assms(3)] rbind_simps
      Let_def built
    using qn by (simp add: ResolveNamespace_def)
  then show ?thesis using False by simp
qed

definition odd_proc_words :: "Word list" where
  "odd_proc_words = (let w = (\<lambda>s. Word TEXT \<lparr>sourceFile = 1, loc_offset = 0, loc_line = 0, loc_column = 0\<rparr>
       (View 0 s) Nothing) in [w ''proc'', w '':::x'', w ''a'', w ''b''])"

text \<open>A list of formal arguments with an empty list as an element reads the first element of an
  empty vector.\<close>

lemma add_arguments_empty_element:
  assumes "word_type a \<noteq> TEXT" "word_data a = WordVec []"
  shows "add_arguments ix p (a # as) = Inl Undefined"
  using assms by (simp add: get_WordVec_def nth_r_def)

lemma add_arguments_empty_element_witness:
  "add_arguments make_index new_Proc [Word LIST \<lparr>sourceFile = 1, loc_offset = 0, loc_line = 0, loc_column = 0\<rparr>
     (View 0 []) (WordVec [])] = Inl Undefined"
  by (rule add_arguments_empty_element) simp_all

text \<open>C11: looking a procedure up always returns the procedures of that name in the innermost namespace
  that has any, from the current one outwards (for an absolute name, in the namespace it names
  only); it may add namespaces to the index, but no procedures and no references.\<close>

theorem FindProc_correct:
  assumes "index_ok ix" "ns_valid ix cur" "plain cmd" "SplitName cmd = Inr qn"
  shows "returns (FindProc ix cur cmd) (\<lambda>(ps, ix'). index_ok ix' \<and> grows ix ix' \<and> procs ix' = procs ix \<and>
    map (proc_view ix') ps =
      first_nonempty (map (\<lambda>d. procs_at d (qname qn) (view_of ix)) (search_paths qn (ns_path ix cur))))"
proof -
  have "spec_split cmd = qn" using SplitName_spec [of cmd] assms(4) by simp
  then show ?thesis
    using FindProc_returns [OF assms(1-3)] spec_find_found [of qn "ns_path ix cur" "view_of ix"]
    by (auto elim!: returns_mono dest!: arg_cong [where f = fst])
qed

theorem FindProc_correct_witness:
  "returns (FindProc example_index 1 ''f'') (\<lambda>(ps, ix'). index_ok ix' \<and> grows example_index ix' \<and>
    procs ix' = procs example_index \<and>
    map (proc_view ix') ps =
      [\<lparr>pv_id = 1, pv_path = [], pv_name = ''f'', pv_required = 0, pv_optional = 0\<rparr>])"
proof -
  have ok: "index_ok example_index"
    using Build_returns [OF example_safe global_scan_ok] by (simp add: example_build refines_def)
  have 1: "ns_valid example_index 1" by code_simp
  have 2: "plain ''f''" "SplitName ''f'' = Inr \<lparr>ns = None, qname = ''f'', absolute = False\<rparr>" by code_simp+
  have 3: "search_paths \<lparr>ns = None, qname = ''f'', absolute = False\<rparr> (ns_path example_index 1) = [[]]"
    by code_simp
  have 4: "procs_at [] ''f'' (view_of example_index)
      = [\<lparr>pv_id = 1, pv_path = [], pv_name = ''f'', pv_required = 0, pv_optional = 0\<rparr>]"
    by code_simp
  show ?thesis using FindProc_correct [OF ok 1 2] unfolding 3 by (simp add: 4)
qed

text \<open>C12: the procedure chosen for a call is the first candidate unless a later one fits: the first
  of the later ones whose required arguments are as many as the call has, or else the last of the
  later ones that takes them with its optional or variadic arguments. The first candidate itself
  need not fit, and one that fits exactly is passed over for a later one.\<close>

theorem BestFit_correct:
  assumes "call_words call \<noteq> []" and "n = length (call_words call) - 1"
  shows "BestFitProcToCall ps call =
    (case ps of
       [] \<Rightarrow> None
     | p # qs \<Rightarrow> Some
        (case find (\<lambda>q. unat (required_args q) = n) qs of
           Some q \<Rightarrow> q
         | None \<Rightarrow> last (p # filter (\<lambda>q. unat (required_args q) < n \<and>
             (n \<le> unat (required_args q + optional_args q) \<or> is_variadic q)) qs)))"
proof -
  have "1 \<le> length (call_words call)" using assms(1) by (cases "call_words call") auto
  then have "BestFitProcToCall (p # qs) call = BestFit_loop n (Some p) qs" for p qs
    using assms(2) by (simp add: BestFitProcToCall_def)
  then show ?thesis
    unfolding BestFit_loop_best takes_more_def [abs_def] by (cases ps) (simp_all add: BestFitProcToCall_def)
qed

definition exact_proc :: Proc where
  "exact_proc = new_Proc\<lparr>proc_id := 1, required_args := 1\<rparr>"

definition optional_proc :: Proc where
  "optional_proc = new_Proc\<lparr>proc_id := 2, optional_args := 1\<rparr>"

definition one_arg_call :: Call where
  "one_arg_call = Call USER (take 2 example_proc_words) []"

theorem BestFit_correct_witness:
  "BestFitProcToCall [exact_proc, optional_proc] one_arg_call = Some optional_proc"
proof -
  have 1: "call_words one_arg_call \<noteq> []" by code_simp
  have 2: "1 = length (call_words one_arg_call) - 1" by code_simp
  show ?thesis
    unfolding BestFit_correct [OF 1 2] by (simp add: exact_proc_def optional_proc_def new_Proc_def)
qed

section \<open>The index of a script\<close>

text \<open>C2: building the index of a well-formed script with plain names always returns, restores the
  context, keeps the index well-formed, and its effect on the abstract view is that of the
  specification: first all definitions, then the references of the calls.\<close>

theorem Build_correct:
  assumes "script_safe s" "scan_ok (ix, ctx)"
  shows "returns (Build ix ctx s) (\<lambda>(ix', ctx'). ctx' = ctx \<and> index_ok ix' \<and> grows ix ix' \<and>
    view_of ix' = spec_build (ns_path ix (last (nsPath ctx))) s (view_of ix))"
  using Build_returns [OF assms] by (rule returns_mono) (auto simp: refines_def here_def)

theorem Build_correct_witness:
  "index_ok example_index \<and> view_of example_index = spec_build [] example_script (view_of make_index) \<and>
   map (\<lambda>r. (loc_offset (ref_location r), ref_id r, ref_type r)) (view_refs (view_of example_index))
     = [(5, 1, DEFINITION), (11, 1, USAGE), (14, 1, USAGE)]"
proof -
  have 1: "ns_path make_index (last (nsPath global_context)) = []" by code_simp
  have 2: "map (\<lambda>r. (loc_offset (ref_location r), ref_id r, ref_type r)) (view_refs (view_of example_index))
     = [(5, 1, DEFINITION), (11, 1, USAGE), (14, 1, USAGE)]" by code_simp
  show ?thesis
    using Build_correct [OF example_safe global_scan_ok] 2 unfolding 1 example_build by simp
qed

text \<open>C19: every text is parsed and indexed without a failure when the procedures it defines and calls
  have plain names and proper lists of formal arguments; the index is the one that the specification
  makes of the tree, and every reference in it is at a word of the tree and to a procedure of the
  index.\<close>

theorem parse_and_index:
  assumes "tcl_documented T c" "ctx = \<lparr>ctx_file = make_source_file n c, file_addr = a, cur_ns = []\<rparr>"
    and "\<And>s. parse_file T ctx = Inr (s, ctx) \<Longrightarrow> list_all call_ok (calls_in_script s)"
  shows "returns (rbind (parse_file T ctx) (\<lambda>(s, _). Build make_index global_context s))
    (\<lambda>(ix, _). index_ok ix \<and> (\<exists>s. parse_file T ctx = Inr (s, ctx) \<and>
      view_of ix = spec_build [] s (view_of make_index) \<and>
      (\<forall>r \<in> set (references (procs ix)). valid_id (procs ix) (ref_id r) \<and>
         ref_location r \<in> word_location ` set (words_in_script s))))"
proof -
  have "ctx_ok (make_source_file n c) a ctx" by (simp add: ctx_ok_def assms(2))
  then obtain s where s: "parse_file T ctx = Inr (s, ctx)"
    and "good T (make_source_file n c) a 0 (length c) (words_in_script s) (calls_in_script s)"
    using parse_file_returns [of "make_source_file n c" a ctx T] assms(1) by (auto simp: returns_def)
  with assms(3) [OF s] have safe: "script_safe s"
    by (auto simp: script_safe_def tree_all_def good_def list_all_iff)
  obtain ix where ix: "Build make_index global_context s = Inr (ix, global_context)" "index_ok ix"
    "view_of ix = spec_build [] s (view_of make_index)"
    using Build_returns [OF safe global_scan_ok] here_global by (auto simp: refines_def returns_def)
  then show ?thesis
    using s references_at_words [OF safe ix(3)] by (auto simp: index_ok_def proc_db.table_ok_def)
qed

theorem parse_and_index_witness:
  "returns (rbind (parse_file example_tcl example_context) (\<lambda>(s, _). Build make_index global_context s))
    (\<lambda>(ix, _). index_ok ix \<and> (\<exists>s. parse_file example_tcl example_context = Inr (s, example_context) \<and>
      view_of ix = spec_build [] s (view_of make_index) \<and>
      (\<forall>r \<in> set (references (procs ix)). valid_id (procs ix) (ref_id r) \<and>
         ref_location r \<in> word_location ` set (words_in_script s))))"
proof (rule parse_and_index [OF example_documented])
  show "example_context = \<lparr>ctx_file = make_source_file ''example.tcl'' example_text, file_addr = 1, cur_ns = []\<rparr>"
    by (simp add: example_context_def example_file_def)
  show "list_all call_ok (calls_in_script s)" if "parse_file example_tcl example_context = Inr (s, example_context)" for s
    using that example_safe by (simp add: example_parse script_safe_def tree_all_def)
qed

text \<open>C39: in the index of a script no procedure is variadic, an argument named \<open>args\<close> counting as
  required, and the list of procedures of every scope holds nothing but zeros.\<close>

theorem index_never_variadic:
  assumes "script_safe s" "Build make_index global_context s = Inr (ix, ctx)"
  shows "(\<forall>p \<in> set (table (procs ix)). \<not> is_variadic p) \<and>
    (\<forall>n \<in> set (table (namespaces ix)). set (scope_procs (ns_scope n)) \<subseteq> {0})"
proof -
  have ok: "index_ok ix" using Build_returns [OF assms(1) global_scan_ok] assms(2) by (simp add: refines_def)
  then have "tree_ok ix" by simp
  then have "ns_db.table_ok (namespaces ix)" by (rule tree_okD)
  then have "set (scope_procs (ns_scope n)) \<subseteq> {0}" if "n \<in> set (table (namespaces ix))" for n
    using ns_db.row_in_table [OF _ that] ok by (metis index_ok_def scopes_ok_def)
  moreover have "\<forall>p \<in> set (table (procs ix)). \<not> is_variadic p"
    using ok by (simp add: index_ok_def proc_ok_def)
  ultimately show ?thesis by blast
qed

definition args_script :: Script where
  "args_script = (let w = (\<lambda>s. Word TEXT \<lparr>sourceFile = 1, loc_offset = 0, loc_line = 0, loc_column = 0\<rparr> (View 0 s) Nothing);
       l = \<lparr>sourceFile = 1, loc_offset = 0, loc_line = 0, loc_column = 0\<rparr>
     in Script l [Call PROC [w ''proc'', w ''f'', Word LIST l (View 0 ''a args'') (WordVec [w ''a'', w ''args'']), w ''b''] []])"

definition args_index :: Index where
  "args_index = (case Build make_index global_context args_script of Inr (ix, _) \<Rightarrow> ix | Inl _ \<Rightarrow> make_index)"

theorem index_never_variadic_witness:
  "\<not> is_variadic (table (procs args_index) ! 0) \<and> required_args (table (procs args_index) ! 0) = 2 \<and>
   scope_procs (ns_scope (table (namespaces args_index) ! 0)) = [0]"
proof -
  have 1: "script_safe args_script" by code_simp
  have 2: "Build make_index global_context args_script = Inr (args_index, global_context)" by code_simp
  have 3: "table (procs args_index) ! 0 \<in> set (table (procs args_index))"
    "required_args (table (procs args_index) ! 0) = 2"
    "scope_procs (ns_scope (table (namespaces args_index) ! 0)) = [0]" by code_simp+
  show ?thesis using index_never_variadic [OF 1 2] 3 by simp
qed

end
