(* ===== verification/Analyzer.thy ===== *)
theory Analyzer
  imports IndexCorrect ParserCorrect
begin

text \<open>
  Model of the command-line analyzer, \<open>src/src/analyzer.cpp\<close>: the arguments of \<open>main\<close>, the
  source it reads, and the report it prints about the index.
\<close>

section \<open>The environment and the outcome of the program\<close>

text \<open>What the program can read: its standard input and the files it may open.\<close>

record environment =
  std_in :: string
  file_system :: "string \<rightharpoonup> string"

record outcome =
  exit_code :: nat
  std_out :: string
  std_err :: string

definition failed :: "string \<Rightarrow> outcome" where
  "failed msg = \<lparr>exit_code = 1, std_out = '''', std_err = msg @ [newline_char]\<rparr>"

section \<open>Arguments\<close>

datatype arguments_result = RunTests | Stop outcome | SourceGiven SourceFile

text \<open>
  The loop over the arguments. Reading the standard input consumes it. A missing value of an
  option is a null pointer, from which a string is made: undefined behaviour.
\<close>

fun parse_arguments :: "environment \<Rightarrow> string list \<Rightarrow> SourceFile \<Rightarrow> arguments_result result" where
  "parse_arguments env [] mainFile = Inr (SourceGiven mainFile)"
| "parse_arguments env (arg # argv) mainFile =
     (if arg = ''--test'' then Inr RunTests
      else if arg = ''--file'' then
        (case argv of
           [] \<Rightarrow> Inl Undefined
         | arg # argv \<Rightarrow>
             if arg = ''-''
             then parse_arguments (env\<lparr>std_in := ''''\<rparr>) argv (make_source_file ''stdin'' (std_in env))
             else (case file_system env arg of
                     None \<Rightarrow> Inr (Stop (failed (''Unable to read file: '' @ arg)))
                   | Some text \<Rightarrow> parse_arguments env argv (make_source_file arg text)))
      else if arg = ''--string'' then
        (case argv of
           [] \<Rightarrow> Inl Undefined
         | text # argv \<Rightarrow> parse_arguments env argv (make_source_file ''cmdline'' text))
      else Inr (Stop (failed (''Unrecognised argument: '' @ arg))))"

definition empty_file :: SourceFile where
  "empty_file = \<lparr>fileName = '''', contents = '''', newlines = []\<rparr>"

text \<open>\<open>Parser::Test::Run\<close> and \<open>Index::Test::Run\<close>; the latter is empty.\<close>

definition run_tests :: "unit result" where
  "run_tests = rbind TestQualifiedName (\<lambda>_. TestOffsetToLineByte)"

section \<open>The report\<close>

text \<open>The loops over \<open>byName\<close> and over the references of a procedure.\<close>

fun report_namespaces :: "Index \<Rightarrow> (string \<times> nat) list \<Rightarrow> string result" where
  "report_namespaces ix [] = Inr ''''"
| "report_namespaces ix (kv # kvs) =
     rbind (Get (namespaces ix) (snd kv)) (\<lambda>n.
     rbind (GetPrintName_ns ix n) (\<lambda>name.
     rbind (report_namespaces ix kvs) (\<lambda>out.
     Inr (''Namespace: '' @ name @ [newline_char] @ out))))"

fun report_references :: "(addr \<rightharpoonup> SourceFile) \<Rightarrow> Index \<Rightarrow> (nat \<times> nat) list \<Rightarrow> string result" where
  "report_references files ix [] = Inr ''''"
| "report_references files ix (kv # kvs) =
     rbind (nth_r (references (procs ix)) (snd kv)) (\<lambda>r.
     rbind (Get (procs ix) (ref_id r)) (\<lambda>p.
     rbind (GetPrintName_proc ix p) (\<lambda>name.
     rbind (show_location files (ref_location r)) (\<lambda>loc.
     rbind (report_references files ix kvs) (\<lambda>out.
     Inr (''  '' @ show_ReferenceType (ref_type r) @ '' Ref: '' @ name @ '' at '' @ loc
          @ [newline_char] @ out))))))"

fun report_procs :: "(addr \<rightharpoonup> SourceFile) \<Rightarrow> Index \<Rightarrow> (string \<times> nat) list \<Rightarrow> string result" where
  "report_procs files ix [] = Inr ''''"
| "report_procs files ix (kv # kvs) =
     rbind (Get (procs ix) (snd kv)) (\<lambda>p.
     rbind (GetPrintName_proc ix p) (\<lambda>name.
     rbind (report_references files ix (mm_equal_range (snd kv) (refsByID (procs ix)))) (\<lambda>refs.
     rbind (report_procs files ix kvs) (\<lambda>out.
     Inr (''Proc: '' @ name @ [newline_char] @ refs @ out)))))"

definition report :: "(addr \<rightharpoonup> SourceFile) \<Rightarrow> Index \<Rightarrow> string result" where
  "report files ix =
     rbind (report_namespaces ix (byName (namespaces ix))) (\<lambda>nss.
     rbind (report_procs files ix (byName (procs ix))) (\<lambda>ps.
     Inr (nss @ ps)))"

section \<open>The program\<close>

text \<open>The address of the local variable \<open>context.file\<close>.\<close>

definition main_file_addr :: addr where
  "main_file_addr = 1"

definition analyze :: "tcl \<Rightarrow> SourceFile \<Rightarrow> outcome result" where
  "analyze T mainFile =
     (let context = \<lparr>ctx_file = mainFile, file_addr = main_file_addr, cur_ns = ''''\<rparr> in
      rbind (parse_file T context) (\<lambda>(script, context).
      let index = make_index; scanContext = \<lparr>nsPath = [global_namespace_id index]\<rparr> in
      rbind (Build index scanContext script) (\<lambda>(index, scanContext).
      rbind (report [main_file_addr \<mapsto> ctx_file context] index) (\<lambda>out.
      Inr \<lparr>exit_code = 0, std_out = out, std_err = ''''\<rparr>))))"

definition main :: "tcl \<Rightarrow> environment \<Rightarrow> string list \<Rightarrow> outcome result" where
  "main T env argv =
     rbind (parse_arguments env (tl argv) empty_file) (\<lambda>args.
     case args of
       RunTests \<Rightarrow> rbind run_tests (\<lambda>_. Inr \<lparr>exit_code = 0, std_out = '''', std_err = ''''\<rparr>)
     | Stop out \<Rightarrow> Inr out
     | SourceGiven mainFile \<Rightarrow>
         if fileName mainFile = '''' then Inr (failed ''No script supplied'')
         else analyze T mainFile)"

end
