(* ===== verification/AnalyzerCorrect.thy ===== *)
theory AnalyzerCorrect
  imports Analyzer IndexLocations
begin

text \<open>
  The report of the analyzer in terms of the view of the index, the sources that a command line
  gives, and the proof that the program prints the report of the last of them.
\<close>

section \<open>The report\<close>

definition namespace_line :: "string list \<Rightarrow> string" where
  "namespace_line path = ''Namespace: '' @ (if path = [] then [] else abs_name path) @ [newline_char]"

definition reference_line :: "string \<Rightarrow> ProcView \<Rightarrow> Reference \<Rightarrow> string" where
  "reference_line fn p r = ''  '' @ show_ReferenceType (ref_type r) @ '' Ref: ''
     @ abs_name (pv_path p @ [pv_name p]) @ '' at '' @ fn @ '':'' @ show_nat (loc_line (ref_location r) + 1)
     @ '':'' @ show_nat (loc_column (ref_location r) + 1) @ [newline_char]"

definition proc_block :: "string \<Rightarrow> IndexView \<Rightarrow> ProcView \<Rightarrow> string" where
  "proc_block fn v p = ''Proc: '' @ abs_name (pv_path p @ [pv_name p]) @ [newline_char]
     @ concat (map (reference_line fn p) (filter (\<lambda>r. ref_id r = pv_id p) (view_refs v)))"

text \<open>
  The namespaces in the order of their own names, then the procedures in the order of their names,
  each with its references; equal names in the order of the index.
\<close>

definition report_spec :: "string \<Rightarrow> Index \<Rightarrow> string" where
  "report_spec fn ix =
     concat (map (\<lambda>n. namespace_line (ns_path ix (ns_id n))) (sort_key ns_name (table (namespaces ix)))) @
     concat (map (proc_block fn (view_of ix)) (sort_key pv_name (view_procs (view_of ix))))"

lemma insort_key_map: "insort_key f (g x) (map g ys) = map g (insort_key (\<lambda>z. f (g z)) x ys)"
  by (induction ys) simp_all

lemma sort_key_map: "sort_key f (map g xs) = map g (sort_key (\<lambda>z. f (g z)) xs)"
proof (induction xs)
  case (Cons x xs)
  have "sort_key f (map g (x # xs)) = insort_key f (g x) (sort_key f (map g xs))" by simp
  also have "\<dots> = map g (insort_key (\<lambda>z. f (g z)) x (sort_key (\<lambda>z. f (g z)) xs))"
    unfolding Cons.IH by (rule insort_key_map)
  finally show ?case by simp
qed simp

lemma report_namespaces_eq:
  assumes "tree_ok ix"
  shows "set rows \<subseteq> set (table (namespaces ix)) \<Longrightarrow>
    report_namespaces ix (map (\<lambda>n. (ns_name n, ns_id n)) rows)
      = Inr (concat (map (\<lambda>n. namespace_line (ns_path ix (ns_id n))) rows))"
proof (induction rows)
  case (Cons n rows)
  then have n: "ns_valid ix (ns_id n)" "ns_row ix (ns_id n) = n"
    using ns_db.row_in_table [OF tree_okD(1) [OF assms]] by auto
  with Cons GetPrintName_ns_eq [OF assms n(1)] show ?case by (simp add: namespace_line_def)
qed simp

lemma reference_line_eq:
  assumes "index_ok ix" "files a = Some f" "p \<in> set (table (procs ix))"
  shows "(\<And>r. r \<in> set rs \<Longrightarrow> ref_id r = proc_id p \<and> sourceFile (ref_location r) = a) \<Longrightarrow>
    (\<And>k. k \<in> set ks \<Longrightarrow> snd k < length (references (procs ix))) \<Longrightarrow>
    map (\<lambda>k. references (procs ix) ! snd k) ks = rs \<Longrightarrow>
    report_references files ix ks = Inr (concat (map (reference_line (fileName f) (proc_view ix p)) rs))"
proof (induction ks arbitrary: rs)
  case (Cons k ks)
  then obtain r rs' where rs: "rs = r # rs'" "references (procs ix) ! snd k = r"
    "map (\<lambda>k. references (procs ix) ! snd k) ks = rs'" by auto
  have "proc_db.table_ok (procs ix)" using assms(1) by (simp add: index_ok_def)
  note row = proc_db.row_in_table [OF this assms(3)]
  have "ref_id r = proc_id p" "sourceFile (ref_location r) = a" using Cons.prems(1) rs(1) by auto
  moreover have "report_references files ix ks
      = Inr (concat (map (reference_line (fileName f) (proc_view ix p)) rs'))"
    using Cons.IH [OF _ _ rs(3)] Cons.prems(1,2) rs(1) by auto
  moreover have "ns_valid ix (proc_namespace p)" using assms(1,3) by (simp add: index_ok_def proc_ok_def)
  then have "GetPrintName_proc ix p = Inr (abs_name (ns_path ix (proc_namespace p) @ [proc_name p]))"
    using assms(1) by (simp add: GetPrintName_proc_eq)
  ultimately show ?case
    using rs Cons.prems(2) assms(2) row
    by (simp add: reference_line_def [of _ _ r] show_location_def) (simp add: proc_view_def)
qed simp

lemma report_procs_eq:
  assumes "index_ok ix" "files a = Some f"
    and locs: "\<And>r. r \<in> set (references (procs ix)) \<Longrightarrow> sourceFile (ref_location r) = a"
  shows "set ps \<subseteq> set (table (procs ix)) \<Longrightarrow>
    report_procs files ix (map (\<lambda>p. (proc_name p, proc_id p)) ps)
      = Inr (concat (map (\<lambda>p. proc_block (fileName f) (view_of ix) (proc_view ix p)) ps))"
proof (induction ps)
  case (Cons p ps)
  have ok: "proc_db.table_ok (procs ix)" using assms(1) by (simp add: index_ok_def)
  have p: "p \<in> set (table (procs ix))" using Cons.prems by simp
  note row = proc_db.row_in_table [OF ok p]
  have "ns_valid ix (proc_namespace p)" using assms(1) p by (simp add: index_ok_def proc_ok_def)
  then have "GetPrintName_proc ix p = Inr (abs_name (ns_path ix (proc_namespace p) @ [proc_name p]))"
    using assms(1) by (simp add: GetPrintName_proc_eq)
  moreover have "report_references files ix (mm_equal_range (proc_id p) (refsByID (procs ix)))
      = Inr (concat (map (reference_line (fileName f) (proc_view ix p))
          (filter (\<lambda>r. ref_id r = proc_id p) (references (procs ix)))))"
    using locs proc_db.refs_range_bound [OF ok] proc_db.refs_range [OF ok]
    by (intro reference_line_eq [where files = files and a = a and f = f, OF assms(1,2) p]) auto
  ultimately show ?case
    using Cons row by (simp add: proc_block_def proc_view_def view_of_def)
qed simp

lemma report_eq:
  assumes "index_ok ix" "files a = Some f"
    and "\<And>r. r \<in> set (references (procs ix)) \<Longrightarrow> sourceFile (ref_location r) = a"
  shows "report files ix = Inr (report_spec (fileName f) ix)"
proof -
  have tree: "tree_ok ix" and procs: "proc_db.table_ok (procs ix)"
    using assms(1) by (simp_all add: index_ok_def)
  have "byName (namespaces ix) = map (\<lambda>n. (ns_name n, ns_id n)) (sort_key ns_name (table (namespaces ix)))"
    using tree_okD(1) [OF tree] by (simp add: ns_db.table_ok_def sort_key_map o_def)
  moreover have "byName (procs ix) = map (\<lambda>p. (proc_name p, proc_id p)) (sort_key proc_name (table (procs ix)))"
    using procs by (simp add: proc_db.table_ok_def sort_key_map o_def)
  moreover have "sort_key pv_name (view_procs (view_of ix))
      = map (proc_view ix) (sort_key proc_name (table (procs ix)))"
    by (simp add: view_of_def sort_key_map o_def proc_view_def)
  ultimately show ?thesis
    using report_namespaces_eq [OF tree, of "sort_key ns_name (table (namespaces ix))"]
      report_procs_eq [where files = files and a = a and f = f, OF assms, of "sort_key proc_name (table (procs ix))"]
    by (simp add: report_def report_spec_def o_def)
qed

section \<open>Command lines\<close>

text \<open>
  The sources that can be given on the command line, the arguments that give them, and the name and
  the text of a source that comes after others: the standard input can be read only once.
\<close>

datatype source = File string | StdIn | Text string

primrec source_arguments :: "source \<Rightarrow> string list" where
  "source_arguments (File name) = [''--file'', name]"
| "source_arguments StdIn = [''--file'', ''-'']"
| "source_arguments (Text c) = [''--string'', c]"

primrec source_content :: "environment \<Rightarrow> source list \<Rightarrow> source \<Rightarrow> (string \<times> string) option" where
  "source_content env before (File name) =
     (if name = ''-'' then None else map_option (Pair name) (file_system env name))"
| "source_content env before StdIn = Some (''stdin'', if StdIn \<in> set before then [] else std_in env)"
| "source_content env before (Text c) = Some (''cmdline'', c)"

text \<open>The environment after some sources were read.\<close>

definition after_sources :: "environment \<Rightarrow> source list \<Rightarrow> environment" where
  "after_sources env srcs = (if StdIn \<in> set srcs then env\<lparr>std_in := []\<rparr> else env)"

lemma source_content_after:
  "source_content (after_sources env [s]) before t = source_content env (s # before) t"
  by (cases t) (auto simp: after_sources_def)

lemma source_content_readable:
  "source_content (env\<lparr>std_in := x\<rparr>) before t = None \<longleftrightarrow> source_content env before t = None"
  by (cases t) auto

lemma parse_arguments_source:
  "source_content env [] s = Some (n, c) \<Longrightarrow>
   parse_arguments env (source_arguments s @ argv) f =
     parse_arguments (after_sources env [s]) argv (make_source_file n c)"
  by (cases s) (auto simp: after_sources_def split: if_splits)

text \<open>The last source counts, but all of them have to be readable.\<close>

lemma parse_arguments_sources:
  assumes "list_all (\<lambda>s. source_content env [] s \<noteq> None) before" "source_content env before last_source = Some (n, c)"
  shows "parse_arguments env (concat (map source_arguments (before @ [last_source]))) f
    = Inr (SourceGiven (make_source_file n c))"
  using assms
proof (induction before arbitrary: env f)
  case Nil
  then show ?case using parse_arguments_source [of env last_source n c "[]" f] by simp
next
  case (Cons s before)
  then obtain m d where s: "source_content env [] s = Some (m, d)" by auto
  have "list_all (\<lambda>s. source_content (after_sources env [s']) [] s \<noteq> None) before" for s'
    using Cons.prems(1) unfolding list_all_iff after_sources_def by (metis source_content_readable list.set_intros(2))
  with Cons.IH [of "after_sources env [s]"] Cons.prems(2) show ?case
    by (simp add: parse_arguments_source [OF s] source_content_after)
qed

section \<open>The program\<close>

text \<open>
  Parsing and indexing a text: the tree is well-formed, the index is the one that the specification
  describes, and its references are at words of the tree, in the file of the context.
\<close>

definition indexed :: "tcl \<Rightarrow> SourceFile \<Rightarrow> addr \<Rightarrow> Script \<Rightarrow> Index \<Rightarrow> bool" where
  "indexed T f a s ix \<longleftrightarrow>
     good T f a 0 (length (contents f)) (words_in_script s) (calls_in_script s) \<and> script_safe s \<and>
     index_ok ix \<and> view_of ix = spec_build [] s (view_of make_index) \<and>
     (\<forall>r \<in> set (references (procs ix)). sourceFile (ref_location r) = a)"

lemma parse_build_returns:
  assumes "tcl_documented T c" "f = make_source_file n c"
    and "ctx = \<lparr>ctx_file = f, file_addr = a, cur_ns = []\<rparr>"
    and "start = \<lparr>nsPath = [global_namespace_id make_index]\<rparr>"
    and "\<And>s ctx'. parse_file T ctx = Inr (s, ctx') \<Longrightarrow> list_all call_ok (calls_in_script s)"
  obtains s ix where "parse_file T ctx = Inr (s, ctx)" and "Build make_index start s = Inr (ix, start)"
    and "indexed T f a s ix"
proof -
  have f: "contents f = c" by (simp add: assms(2))
  have "ctx_ok f a ctx" by (simp add: ctx_ok_def assms(2,3))
  then obtain s where s: "parse_file T ctx = Inr (s, ctx)"
    and good: "good T f a 0 (length c) (words_in_script s) (calls_in_script s)"
    using parse_file_returns [of f a ctx T] assms(1) f by (auto simp: returns_def)
  with assms(5) [OF s] have safe: "script_safe s"
    by (auto simp: script_safe_def tree_all_def good_def list_all_iff)
  have st: "scan_ok (make_index, start)" "here (make_index, start) = []"
    using index_ok_make_index tree_okD(2) [OF tree_ok_make_index] tree_ok_make_index
    by (simp_all add: scan_ok_def here_def assms(4))
  obtain ix where ix: "Build make_index start s = Inr (ix, start)"
    "index_ok ix" "view_of ix = spec_build [] s (view_of make_index)"
    using Build_returns [OF safe st(1)] st(2) by (auto simp: refines_def returns_def)
  have "\<forall>r \<in> set (references (procs ix)). sourceFile (ref_location r) = a"
    using good references_at_words [OF safe ix(3)] unfolding good_def by (fastforce simp: located_def)
  with good safe ix(2,3) f have "indexed T f a s ix" by (simp add: indexed_def)
  with s ix(1) show thesis by (rule that)
qed

lemma analyze_returns:
  assumes "tcl_documented T c"
    and "\<And>s ctx. parse_file T \<lparr>ctx_file = make_source_file n c, file_addr = main_file_addr, cur_ns = []\<rparr>
      = Inr (s, ctx) \<Longrightarrow> list_all call_ok (calls_in_script s)"
  shows "returns (analyze T (make_source_file n c)) (\<lambda>out. \<exists>s ix ctx.
    parse_file T \<lparr>ctx_file = make_source_file n c, file_addr = main_file_addr, cur_ns = []\<rparr> = Inr (s, ctx) \<and>
    index_ok ix \<and> view_of ix = spec_build [] s (view_of make_index) \<and>
    out = \<lparr>exit_code = 0, std_out = report_spec n ix, std_err = []\<rparr>)"
proof -
  let ?f = "make_source_file n c"
  let ?ctx = "\<lparr>ctx_file = ?f, file_addr = main_file_addr, cur_ns = []\<rparr>"
  let ?start = "\<lparr>nsPath = [global_namespace_id make_index]\<rparr>"
  obtain s ix where s: "parse_file T ?ctx = Inr (s, ?ctx)" and ix: "Build make_index ?start s = Inr (ix, ?start)"
    and r: "indexed T ?f main_file_addr s ix"
    by (rule parse_build_returns [OF assms(1) refl refl refl assms(2)])
  then have "report [main_file_addr \<mapsto> ?f] ix = Inr (report_spec n ix)"
    using report_eq [of ix "[main_file_addr \<mapsto> ?f]" main_file_addr ?f] by (simp add: indexed_def)
  with s ix r show ?thesis by (auto simp: analyze_def Let_def indexed_def)
qed

end
