(* ===== verification/AnalyzerProperties.thy ===== *)
theory AnalyzerProperties
  imports AnalyzerCorrect Examples
begin

text \<open>
  The properties of the command-line analyzer.
\<close>



definition no_files :: environment where
  "no_files = \<lparr>std_in = [], file_system = Map.empty\<rparr>"


text \<open>The ways in which the analyzer stops before it analyzes anything: no source, an option that
  it does not know, a file that it cannot read (exit code 1 with a message); the tests (exit code
  0); an option without its value, which is undefined behaviour.\<close>

lemma main_stops:
  assumes "arg \<noteq> ''--test''" "arg \<noteq> ''--file''" "arg \<noteq> ''--string''"
    and "name \<noteq> ''-''" "file_system env name = None"
  shows "main T env [prog] = Inr (failed ''No script supplied'') \<and>
    main T env (prog # arg # argv) = Inr (failed (''Unrecognised argument: '' @ arg)) \<and>
    main T env (prog # ''--file'' # name # argv) = Inr (failed (''Unable to read file: '' @ name)) \<and>
    main T env (prog # ''--test'' # argv) = Inr \<lparr>exit_code = 0, std_out = [], std_err = []\<rparr> \<and>
    main T env [prog, ''--file''] = Inl Undefined \<and> main T env [prog, ''--string''] = Inl Undefined"
proof -
  have run: "run_tests = Inr ()" by code_simp
  show ?thesis using assms by (simp add: main_def empty_file_def run)
qed

lemma main_stops_witness:
  "main example_tcl no_files [''analyzer'', ''x''] = Inr (failed ''Unrecognised argument: x'') \<and>
   main example_tcl no_files [''analyzer'', ''--file'', ''x''] = Inr (failed ''Unable to read file: x'')"
  using main_stops [of "''x''" "''x''" no_files example_tcl "''analyzer''" "[]"]
  by (simp add: no_files_def)

end
