(* ===== verification/Comms.thy ===== *)
theory Comms
  imports Prelude
begin

text \<open>
  Model of the framing of messages in \<open>src/src/lsp/comms.cpp\<close>: \<open>read_message\<close> splits the bytes of a
  stream into messages, \<open>send_message\<close> writes a message with its header. The stream is the list of
  the pieces that successive reads deliver; its end is the end of the file.
\<close>

section \<open>Reading from the stream\<close>

text \<open>
  \<open>async_read_until\<close> reads until the buffer has a newline and gives the number of bytes up to and
  including the first one. A read at the end of the file is an error.
\<close>

fun find_char :: "char \<Rightarrow> string \<Rightarrow> nat option" where
  "find_char c [] = None"
| "find_char c (d # s) = (if d = c then Some 0 else map_option Suc (find_char c s))"

fun read_until :: "string \<Rightarrow> string list \<Rightarrow> (nat \<times> string \<times> string list) option" where
  "read_until buf [] = map_option (\<lambda>i. (i + 1, buf, [])) (find_char newline_char buf)"
| "read_until buf (c # cs) =
     (case find_char newline_char buf of
        Some i \<Rightarrow> Some (i + 1, buf, c # cs)
      | None \<Rightarrow> read_until (buf @ c) cs)"

text \<open>\<open>async_read\<close> with \<open>transfer_exactly (n)\<close> never takes more than \<open>n\<close> bytes.\<close>

fun read_exactly :: "nat \<Rightarrow> string \<Rightarrow> string list \<Rightarrow> (string \<times> string list) option" where
  "read_exactly n buf [] = (if n = 0 then Some (buf, []) else None)"
| "read_exactly n buf (c # cs) =
     (if n = 0 then Some (buf, c # cs)
      else if length c \<le> n then read_exactly (n - length c) (buf @ c) cs
      else Some (buf @ take n c, drop n c # cs))"

section \<open>Header lines\<close>

function strip_cr :: "string \<Rightarrow> string" where
  "strip_cr line =
     (if length line > 0 \<and> line ! (length line - 1) = return_char
      then strip_cr (take (length line - 1) line) else line)"
  by pat_completeness auto
termination by (relation "measure length") auto

declare strip_cr.simps [simp del]

text \<open>\<open>std::tolower\<close> and \<open>std::isspace\<close> in the C locale.\<close>

definition to_lower :: "char \<Rightarrow> char" where
  "to_lower c = (if 65 \<le> (of_char c :: nat) \<and> (of_char c :: nat) \<le> 90 then char_of ((of_char c :: nat) + 32) else c)"

definition is_space :: "char \<Rightarrow> bool" where
  "is_space c \<longleftrightarrow> of_char c = (32 :: nat) \<or> 9 \<le> (of_char c :: nat) \<and> (of_char c :: nat) \<le> 13"

text \<open>Comparison with a power of two, written over the integers to be evaluated quickly.\<close>

definition fits_bits :: "nat \<Rightarrow> nat \<Rightarrow> bool" where
  "fits_bits w n \<longleftrightarrow> int n < 2 ^ w"

lemma fits_bits_iff: "fits_bits w n \<longleftrightarrow> n < 2 ^ w"
proof -
  have "int n < 2 ^ w \<longleftrightarrow> int n < int (2 ^ w)" by simp
  then show ?thesis unfolding fits_bits_def of_nat_less_iff .
qed

text \<open>
  \<open>std::from_chars\<close> into a \<open>size_t\<close>: the digits at the start; none, or a value that does not fit
  64 bits, is an error and leaves the variable alone.
\<close>

definition from_chars :: "string \<Rightarrow> nat option" where
  "from_chars s =
     (let digits = takeWhile is_digit s in
      if digits = [] then None
      else if \<not> fits_bits 64 (read_digits digits) then None
      else Some (read_digits digits))"

text \<open>
  The body of the loop over the header lines: the new content length, and whether the loop goes
  on (it ends at an empty line and at a content length without a proper value).
\<close>

definition header_line :: "nat \<Rightarrow> string \<Rightarrow> nat \<times> bool" where
  "header_line content_length line =
     (let line = strip_cr line in
      if line = [] then (content_length, False)
      else
        (case find_char CHR '':'' line of
           None \<Rightarrow> (content_length, True)
         | Some colon \<Rightarrow>
             let header = map to_lower (take colon line) in
             if header \<noteq> ''content-length'' then (content_length, True)
             else
               let value = dropWhile is_space (drop (colon + 1) line) in
               if value = [] then (content_length, False)
               else (case from_chars value of
                       None \<Rightarrow> (content_length, False)
                     | Some n \<Rightarrow> (n, True))))"

section \<open>Messages\<close>

abbreviation stream_size :: "string \<Rightarrow> string list \<Rightarrow> nat" where
  "stream_size buf cs \<equiv> length buf + length (concat cs)"

lemma find_char_Some: "find_char c s = Some i \<Longrightarrow> i < length s \<and> s ! i = c \<and> c \<notin> set (take i s)"
  by (induction s arbitrary: i) (auto split: if_splits)

lemma find_char_None: "find_char c s = None \<longleftrightarrow> c \<notin> set s"
  by (induction s) auto

lemma read_until_bytes:
  "read_until buf cs = Some (n, buf', cs') \<Longrightarrow>
   buf' @ concat cs' = buf @ concat cs \<and> find_char newline_char buf' = Some (n - 1) \<and> 0 < n \<and> n \<le> length buf'"
  by (induction buf cs rule: read_until.induct) (auto split: option.splits dest: find_char_Some)

text \<open>The inner loop: the headers of a message; \<open>None\<close> is the return at the end of the stream.\<close>

function read_headers :: "string \<Rightarrow> string list \<Rightarrow> nat \<Rightarrow> (nat \<times> string \<times> string list) option" where
  "read_headers buf cs content_length =
     (case read_until buf cs of
        None \<Rightarrow> None
      | Some (bytes_read, buf, cs) \<Rightarrow>
          (case header_line content_length (take (bytes_read - 1) buf) of
             (content_length, go_on) \<Rightarrow>
               (if go_on then read_headers (drop bytes_read buf) cs content_length
                else Some (content_length, drop bytes_read buf, cs))))"
  by pat_completeness auto
termination
proof (relation "measure (\<lambda>(buf, cs, n). stream_size buf cs)", goal_cases)
  case (2 buf cs n r bytes_read q buf' cs' n' go_on)
  then show ?case using read_until_bytes [of buf cs bytes_read buf' cs']
    by (auto dest!: arg_cong [where f = length])
qed simp

declare read_headers.simps [simp del]

lemma read_headers_bytes:
  "read_headers buf cs n = Some (n', buf', cs') \<Longrightarrow> stream_size buf' cs' < stream_size buf cs"
proof (induction buf cs n rule: read_headers.induct)
  case (1 buf cs n)
  then obtain k b d where r: "read_until buf cs = Some (k, b, d)"
    by (auto simp: read_headers.simps [of buf cs n] split: option.splits)
  have len: "stream_size (drop k b) d < stream_size buf cs"
    using read_until_bytes [OF r] by (auto dest!: arg_cong [where f = length])
  obtain n1 go where h: "header_line n (take (k - 1) b) = (n1, go)" by (metis surj_pair)
  show ?case
  proof (cases go)
    case True
    then have "stream_size buf' cs' < stream_size (drop k b) d"
      using "1.IH" [OF r refl refl h [symmetric]] "1.prems" r h by (simp add: read_headers.simps [of buf cs n])
    with len show ?thesis by linarith
  next
    case False
    with "1.prems" r h have "buf' = drop k b" "cs' = d" by (auto simp: read_headers.simps [of buf cs n])
    with len show ?thesis by simp
  qed
qed

text \<open>
  The body of a message, and the outer loop up to the next text: \<open>Closed\<close> is the return at the end
  of the stream, \<open>Failed\<close> an exception that leaves the coroutine. \<open>buf.prepare\<close> throws
  \<open>length_error\<close> when the buffer would exceed the largest vector of characters; smaller
  allocations are taken to succeed.
\<close>

datatype 'a read_result = Closed | Failed | Yielded 'a string "string list"

definition read_body :: "nat \<Rightarrow> string \<Rightarrow> string list \<Rightarrow> string read_result" where
  "read_body content_length buf cs =
     (if \<not> fits_bits 63 (length buf + content_length) then Failed
      else
        case (if length buf < content_length then read_exactly (content_length - length buf) buf cs
              else Some (buf, cs)) of
          None \<Rightarrow> Closed
        | Some (buf, cs) \<Rightarrow> Yielded (take content_length buf) (drop content_length buf) cs)"

function next_text :: "string \<Rightarrow> string list \<Rightarrow> string read_result" where
  "next_text buf cs =
     (case read_headers buf cs 0 of
        None \<Rightarrow> Closed
      | Some (content_length, buf, cs) \<Rightarrow>
          if content_length = 0 then next_text buf cs
          else read_body content_length buf cs)"
  by pat_completeness auto
termination
  by (relation "measure (\<lambda>(buf, cs). stream_size buf cs)") (auto dest: read_headers_bytes)

declare next_text.simps [simp del]

text \<open>
  One resumption of the coroutine: the value that it yields is the text parsed by the JSON
  library, whose parser is an argument (\<open>None\<close> is its exception).
\<close>

definition read_message :: "(string \<Rightarrow> 'j option) \<Rightarrow> string \<Rightarrow> string list \<Rightarrow> 'j read_result" where
  "read_message parse buf cs =
     (case next_text buf cs of
        Closed \<Rightarrow> Closed
      | Failed \<Rightarrow> Failed
      | Yielded t buf cs \<Rightarrow> (case parse t of None \<Rightarrow> Failed | Some j \<Rightarrow> Yielded j buf cs))"

section \<open>Writing messages\<close>

text \<open>
  \<open>send_message\<close> puts the header and the text into a static buffer and writes the whole buffer
  asynchronously; the buffer is consumed when the write is complete. The state of the output: the
  buffer, the number of its bytes that the outstanding write has taken, and what was written. The
  data of an outstanding write must not be touched: starting another one then is undefined.
\<close>

record out_stream =
  stream_buf :: string
  in_flight :: "nat option"
  written :: string

definition frame :: "string \<Rightarrow> string" where
  "frame d = ''Content-Length: '' @ show_nat (length d)
     @ [return_char, newline_char, return_char, newline_char] @ d"

definition start_send :: "string \<Rightarrow> out_stream \<Rightarrow> out_stream result" where
  "start_send d out =
     (if in_flight out \<noteq> None then Inl Undefined
      else
        let buf = stream_buf out @ frame d in
        Inr (out\<lparr>stream_buf := buf, in_flight := Some (length buf)\<rparr>))"

definition finish_send :: "out_stream \<Rightarrow> out_stream" where
  "finish_send out =
     (case in_flight out of
        None \<Rightarrow> out
      | Some n \<Rightarrow> out\<lparr>stream_buf := drop n (stream_buf out), in_flight := None,
          written := written out @ take n (stream_buf out)\<rparr>)"

text \<open>
  A write that fails, because the other end is closed or because the stream is destroyed while the
  write is outstanding, has taken some bytes; the others stay in the buffer, in front of the next
  message.
\<close>

definition fail_send :: "nat \<Rightarrow> out_stream \<Rightarrow> out_stream" where
  "fail_send k out = out\<lparr>stream_buf := drop k (stream_buf out), in_flight := None,
     written := written out @ take k (stream_buf out)\<rparr>"

text \<open>Messages that are sent one after the other, each when the one before it is written.\<close>

fun send_all :: "string list \<Rightarrow> out_stream \<Rightarrow> out_stream result" where
  "send_all [] out = Inr out"
| "send_all (d # ds) out = rbind (start_send d out) (\<lambda>out. send_all ds (finish_send out))"

definition no_output :: out_stream where
  "no_output = \<lparr>stream_buf = [], in_flight = None, written = []\<rparr>"

end
