(* ===== verification/CommsCorrect.thy ===== *)
theory CommsCorrect
  imports Comms
begin

text \<open>
  The framing of messages on a whole string of bytes, and the proof that the coroutine, which sees
  the bytes in pieces, splits off the same texts however they are cut.
\<close>

section \<open>The texts in a string of bytes\<close>

function header_bytes :: "string \<Rightarrow> nat \<Rightarrow> (nat \<times> string) option" where
  "header_bytes s n =
     (case find_char newline_char s of
        None \<Rightarrow> None
      | Some i \<Rightarrow>
          (case header_line n (take i s) of (n, go_on) \<Rightarrow>
             if go_on then header_bytes (drop (i + 1) s) n else Some (n, drop (i + 1) s)))"
  by pat_completeness auto
termination
  by (relation "measure (\<lambda>(s, n). length s)") (auto dest: find_char_Some)

declare header_bytes.simps [simp del]

lemma header_bytes_shorter: "header_bytes s n = Some (m, r) \<Longrightarrow> length r < length s"
proof (induction s n rule: header_bytes.induct)
  case (1 s n)
  then obtain i where i: "find_char newline_char s = Some i"
    by (auto simp: header_bytes.simps [of s n] split: option.splits)
  obtain n1 go where h: "header_line n (take i s) = (n1, go)" by (metis surj_pair)
  show ?case
    using "1.IH" [OF i h [symmetric]] "1.prems" find_char_Some [OF i]
    by (cases go) (auto simp: header_bytes.simps [of s n] i h)
qed

text \<open>\<open>None\<close>: no further text, because the bytes end or the announced text is not complete.\<close>

function text_bytes :: "string \<Rightarrow> (string \<times> string) option" where
  "text_bytes s =
     (case header_bytes s 0 of
        None \<Rightarrow> None
      | Some (n, s) \<Rightarrow>
          if n = 0 then text_bytes s
          else if length s < n then None
          else Some (take n s, drop n s))"
  by pat_completeness auto
termination
  by (relation "measure length") (auto dest: header_bytes_shorter)

declare text_bytes.simps [simp del]

lemma text_bytes_shorter: "text_bytes s = Some (t, r) \<Longrightarrow> length r < length s"
proof (induction s rule: text_bytes.induct)
  case (1 s)
  then obtain n r' where h: "header_bytes s 0 = Some (n, r')"
    by (auto simp: text_bytes.simps [of s] split: option.splits)
  show ?case
  proof (cases "n = 0")
    case True
    with 1 h header_bytes_shorter [OF h] show ?thesis by (fastforce simp: text_bytes.simps [of s])
  next
    case False
    with 1 h header_bytes_shorter [OF h] show ?thesis
      by (auto simp: text_bytes.simps [of s] split: if_splits)
  qed
qed

function all_texts :: "string \<Rightarrow> string list" where
  "all_texts s = (case text_bytes s of None \<Rightarrow> [] | Some (t, s) \<Rightarrow> t # all_texts s)"
  by pat_completeness auto
termination
  by (relation "measure length") (auto dest: text_bytes_shorter)

declare all_texts.simps [simp del]

section \<open>Reading in pieces\<close>

lemma find_char_append:
  "find_char c (s @ t) =
     (case find_char c s of
        Some i \<Rightarrow> Some i
      | None \<Rightarrow> (case find_char c t of Some i \<Rightarrow> Some (length s + i) | None \<Rightarrow> None))"
  by (induction s) (auto split: option.splits)

lemma read_until_None:
  "find_char newline_char (buf @ concat cs) = None \<Longrightarrow> read_until buf cs = None"
  by (induction buf cs rule: read_until.induct) (auto simp: find_char_append split: option.splits)

lemma read_until_Some:
  "find_char newline_char (buf @ concat cs) = Some i \<Longrightarrow>
   \<exists>b d. read_until buf cs = Some (i + 1, b, d) \<and> b @ concat d = buf @ concat cs \<and> i < length b"
proof (induction buf cs rule: read_until.induct)
  case (2 buf c cs)
  show ?case
  proof (cases "find_char newline_char buf")
    case None
    with 2 show ?thesis by simp
  next
    case (Some j)
    with "2.prems" have "j = i" by (simp add: find_char_append)
    with Some show ?thesis using find_char_Some [OF Some] by simp
  qed
qed (auto dest: find_char_Some)

lemma read_headers_bytes_eq:
  "case header_bytes (buf @ concat cs) n of
     None \<Rightarrow> read_headers buf cs n = None
   | Some (m, r) \<Rightarrow> \<exists>b d. read_headers buf cs n = Some (m, b, d) \<and> b @ concat d = r"
proof (induction buf cs n rule: read_headers.induct)
  case (1 buf cs n)
  show ?case
  proof (cases "find_char newline_char (buf @ concat cs)")
    case None
    then show ?thesis
      using read_until_None [OF None] by (simp add: header_bytes.simps [of "buf @ concat cs"] read_headers.simps [of buf])
  next
    case (Some i)
    from read_until_Some [OF this] obtain b d where
      r: "read_until buf cs = Some (i + 1, b, d)" and b: "b @ concat d = buf @ concat cs" "i < length b"
      by blast
    have t: "take i (buf @ concat cs) = take i b" "drop (i + 1) (buf @ concat cs) = drop (i + 1) b @ concat d"
      using b(2) unfolding b(1) [symmetric] by simp_all
    obtain n1 go where h: "header_line n (take i b) = (n1, go)" by (metis surj_pair)
    then have h': "header_line n (take (i + 1 - 1) b) = (n1, go)" by simp
    have hb: "header_bytes (buf @ concat cs) n =
        (if go then header_bytes (drop (i + 1) b @ concat d) n1 else Some (n1, drop (i + 1) b @ concat d))"
      unfolding header_bytes.simps [of "buf @ concat cs" n] Some t option.case h prod.case ..
    have rh: "read_headers buf cs n =
        (if go then read_headers (drop (i + 1) b) d n1 else Some (n1, drop (i + 1) b, d))"
      unfolding read_headers.simps [of buf cs n] r option.case prod.case h' ..
    show ?thesis
      using "1.IH" [OF r refl refl h' [symmetric]] unfolding hb rh by (cases go) (simp_all only: if_True if_False option.case prod.case, auto)
  qed
qed

lemma read_exactly_eq:
  "length (concat cs) < n \<Longrightarrow> read_exactly n buf cs = None"
  "n \<le> length (concat cs) \<Longrightarrow>
     \<exists>d. read_exactly n buf cs = Some (buf @ take n (concat cs), d) \<and> concat d = drop n (concat cs)"
  by (induction n buf cs rule: read_exactly.induct) auto

text \<open>Memory holds the stream, so that no buffer for a text that is in the stream is too long.\<close>

definition stream_fits :: "string \<Rightarrow> bool" where
  "stream_fits s \<longleftrightarrow> 2 * length s < 2 ^ 63"

definition yields :: "'a read_result \<Rightarrow> ('a \<times> string) option" where
  "yields r = (case r of Yielded t b cs \<Rightarrow> Some (t, b @ concat cs) | _ \<Rightarrow> None)"

lemma yields_simps [simp]:
  "yields Closed = None" "yields Failed = None" "yields (Yielded t b cs) = Some (t, b @ concat cs)"
  by (simp_all add: yields_def)

lemma read_body_eq:
  assumes "stream_fits (buf @ concat cs)"
  shows "yields (read_body n buf cs) =
    (if length (buf @ concat cs) < n then None
     else Some (take n (buf @ concat cs), drop n (buf @ concat cs)))"
proof (cases "length (buf @ concat cs) < n")
  case True
  then have "length buf < n" "length (concat cs) < n - length buf" by simp_all
  with read_exactly_eq(1) [of cs "n - length buf" buf] True show ?thesis
    by (auto simp: read_body_def split: option.split)
next
  case False
  then have "fits_bits 63 (length buf + n)" using assms by (simp add: stream_fits_def fits_bits_iff)
  moreover obtain d where "length buf < n \<Longrightarrow>
      read_exactly (n - length buf) buf cs = Some (buf @ take (n - length buf) (concat cs), d) \<and>
      concat d = drop (n - length buf) (concat cs)"
    using read_exactly_eq(2) [of "n - length buf" cs buf] False by fastforce
  ultimately show ?thesis using False by (auto simp: read_body_def)
qed

lemma stream_fits_suffix: "stream_fits s \<Longrightarrow> length r \<le> length s \<Longrightarrow> stream_fits r"
  by (simp add: stream_fits_def)

lemma next_text_eq:
  "stream_fits (buf @ concat cs) \<Longrightarrow> yields (next_text buf cs) = text_bytes (buf @ concat cs)"
proof (induction buf cs rule: next_text.induct)
  case (1 buf cs)
  show ?case
  proof (cases "header_bytes (buf @ concat cs) 0")
    case None
    then show ?thesis
      using read_headers_bytes_eq [of buf cs 0]
      by (simp add: next_text.simps [of buf cs] text_bytes.simps [of "buf @ concat cs"])
  next
    case (Some h)
    obtain m r where h: "h = (m, r)" by (cases h)
    with Some read_headers_bytes_eq [of buf cs 0] obtain b d where
      r: "read_headers buf cs 0 = Some (m, b, d)" "b @ concat d = r" by auto
    have fits: "stream_fits (b @ concat d)"
      using stream_fits_suffix [OF "1.prems"] header_bytes_shorter [OF Some [unfolded h]] r(2) by simp
    show ?thesis
    proof (cases "m = 0")
      case True
      with "1.IH" [OF r(1) refl refl] fits r Some h show ?thesis
        by (simp add: next_text.simps [of buf cs] text_bytes.simps [of "buf @ concat cs"])
    next
      case False
      with read_body_eq [OF fits, of m] r Some h show ?thesis
        by (simp add: next_text.simps [of buf cs] text_bytes.simps [of "buf @ concat cs"])
    qed
  qed
qed

section \<open>All messages of a stream\<close>

lemma read_exactly_bytes:
  "read_exactly n buf cs = Some (b, d) \<Longrightarrow> b @ concat d = buf @ concat cs"
  by (induction n buf cs rule: read_exactly.induct) (auto split: if_splits)

lemma next_text_shorter:
  "next_text buf cs = Yielded t b d \<Longrightarrow> stream_size b d < stream_size buf cs"
proof (induction buf cs rule: next_text.induct)
  case (1 buf cs)
  then obtain n b' d' where r: "read_headers buf cs 0 = Some (n, b', d')"
    by (auto simp: next_text.simps [of buf cs] split: option.splits)
  note smaller = read_headers_bytes [OF r]
  show ?case
  proof (cases "n = 0")
    case True
    with 1 r have "stream_size b d < stream_size b' d'" by (simp add: next_text.simps [of buf cs])
    with smaller show ?thesis by linarith
  next
    case False
    with "1.prems" r have "read_body n b' d' = Yielded t b d" by (simp add: next_text.simps [of buf cs])
    then obtain b'' where "b = drop n b''" "b'' @ concat d = b' @ concat d'"
      by (auto simp: read_body_def dest: read_exactly_bytes split: if_splits option.splits)
    then have "stream_size b d \<le> stream_size b' d'" by (auto dest!: arg_cong [where f = length])
    with smaller show ?thesis by linarith
  qed
qed

text \<open>The values that resuming the coroutine again and again gives.\<close>

function read_all :: "(string \<Rightarrow> 'j option) \<Rightarrow> string \<Rightarrow> string list \<Rightarrow> 'j list" where
  "read_all parse buf cs =
     (case read_message parse buf cs of
        Yielded j buf cs \<Rightarrow> j # read_all parse buf cs
      | _ \<Rightarrow> [])"
  by pat_completeness auto
termination
  by (relation "measure (\<lambda>(parse, buf, cs). stream_size buf cs)")
    (auto simp: read_message_def dest: next_text_shorter split: read_result.splits option.splits)

declare read_all.simps [simp del]

primrec parsed :: "(string \<Rightarrow> 'j option) \<Rightarrow> string list \<Rightarrow> 'j list" where
  "parsed parse [] = []"
| "parsed parse (t # ts) = (case parse t of None \<Rightarrow> [] | Some j \<Rightarrow> j # parsed parse ts)"

lemma read_all_eq:
  "stream_fits (buf @ concat cs) \<Longrightarrow> read_all parse buf cs = parsed parse (all_texts (buf @ concat cs))"
proof (induction parse buf cs rule: read_all.induct)
  case (1 parse buf cs)
  note eq = next_text_eq [OF "1.prems"]
  show ?case
  proof (cases "next_text buf cs")
    case (Yielded t b d)
    with eq have t: "text_bytes (buf @ concat cs) = Some (t, b @ concat d)" by simp
    show ?thesis
    proof (cases "parse t")
      case None
      with t Yielded show ?thesis
        by (simp add: read_all.simps [of parse buf] read_message_def all_texts.simps [of "buf @ concat cs"])
    next
      case (Some j)
      with Yielded have m: "read_message parse buf cs = Yielded j b d" by (simp add: read_message_def)
      have "stream_fits (b @ concat d)"
        using stream_fits_suffix [OF "1.prems"] text_bytes_shorter [OF t] by simp
      with "1.IH" [OF m] m t Some show ?thesis
        by (simp add: read_all.simps [of parse buf] all_texts.simps [of "buf @ concat cs"])
    qed
  qed (use eq in \<open>simp_all add: read_all.simps [of parse buf] read_message_def all_texts.simps [of "buf @ concat cs"]\<close>)
qed

section \<open>Header lines\<close>

lemma strip_cr_eq: "strip_cr s = rev (dropWhile (\<lambda>c. c = return_char) (rev s))"
proof (induction s rule: rev_induct)
  case (snoc c s)
  then show ?case by (simp add: strip_cr.simps [of "s @ [c]"])
qed (simp add: strip_cr.simps)

lemma find_char_first: "c \<notin> set l \<Longrightarrow> find_char c (l @ c # r) = Some (length l)"
  by (induction l) auto

lemma takeWhile_digits:
  "list_all is_digit ds \<Longrightarrow> (r = [] \<or> \<not> is_digit (hd r)) \<Longrightarrow> takeWhile is_digit (ds @ r) = ds"
  by (induction ds) (auto simp: list_all_iff takeWhile_eq_Nil_iff)

lemma from_chars_show:
  assumes "r = [] \<or> \<not> is_digit (hd r)"
  shows "from_chars (show_nat n @ r) = (if n < 2 ^ 64 then Some n else None)"
  using takeWhile_digits [OF show_nat_digits assms] by (simp add: from_chars_def read_show_nat fits_bits_iff)

text \<open>A line that says nothing about the length of the content.\<close>

definition other_header :: "string \<Rightarrow> bool" where
  "other_header l \<longleftrightarrow> newline_char \<notin> set l \<and> strip_cr l \<noteq> [] \<and>
     (case find_char CHR '':'' (strip_cr l) of
        None \<Rightarrow> True
      | Some i \<Rightarrow> map to_lower (take i (strip_cr l)) \<noteq> ''content-length'')"

definition blank_line :: "string \<Rightarrow> bool" where
  "blank_line l \<longleftrightarrow> list_all (\<lambda>c. c = return_char) l"

text \<open>
  A line that announces \<open>n\<close> bytes: the name in any case, white space, the number, possibly
  something that is not a digit, and carriage returns.
\<close>

definition length_header :: "nat \<Rightarrow> string \<Rightarrow> bool" where
  "length_header n l \<longleftrightarrow> (\<exists>name spaces junk crs.
     l = name @ CHR '':'' # spaces @ show_nat n @ junk @ crs \<and>
     map to_lower name = ''content-length'' \<and> list_all is_space spaces \<and> newline_char \<notin> set spaces \<and>
     (junk = [] \<or> \<not> is_digit (hd junk) \<and> last junk \<noteq> return_char) \<and> newline_char \<notin> set junk \<and>
     list_all (\<lambda>c. c = return_char) crs)"

lemma header_line_other: "other_header l \<Longrightarrow> header_line n l = (n, True)"
  by (auto simp: other_header_def header_line_def Let_def split: option.splits)

lemma strip_cr_blank: "blank_line l \<Longrightarrow> strip_cr l = []"
  by (auto simp: blank_line_def strip_cr_eq list_all_iff dropWhile_eq_Nil_conv)

lemma header_line_blank: "blank_line l \<Longrightarrow> header_line n l = (n, False)"
  by (simp add: header_line_def strip_cr_blank)

lemma strip_cr_append:
  assumes "blank_line crs" "l \<noteq> []" "last l \<noteq> return_char"
  shows "strip_cr (l @ crs) = l"
proof -
  have "dropWhile (\<lambda>c. c = return_char) (rev l) = rev l"
    using assms(2,3) by (cases l rule: rev_cases) simp_all
  then show ?thesis
    using assms(1) by (simp add: strip_cr_eq blank_line_def list_all_iff dropWhile_append)
qed

lemma digit_not_space: "is_digit c \<Longrightarrow> \<not> is_space c \<and> c \<noteq> return_char \<and> c \<noteq> newline_char"
  by (auto simp: is_digit_def is_space_def)

lemma show_nat_ends:
  "is_digit (hd (show_nat n))" "is_digit (last (show_nat n))" "newline_char \<notin> set (show_nat n)"
  using show_nat_digits [of n] hd_in_set [OF show_nat_nonempty] last_in_set [OF show_nat_nonempty]
    digit_not_space
  by (fastforce simp: list_all_iff)+

lemma to_lower_inv:
  "to_lower c = c' \<Longrightarrow> \<not> (97 \<le> (of_char c' :: nat) \<and> (of_char c' :: nat) \<le> 122) \<Longrightarrow> c = c'"
proof (cases "65 \<le> (of_char c :: nat) \<and> (of_char c :: nat) \<le> 90")
  case True
  then have "(of_char (to_lower c) :: nat) = of_char c + 32" by (simp add: to_lower_def)
  moreover assume "to_lower c = c'" "\<not> (97 \<le> (of_char c' :: nat) \<and> (of_char c' :: nat) \<le> 122)"
  ultimately show ?thesis using True by auto
qed (simp add: to_lower_def)

lemma length_name_chars:
  assumes "map to_lower name = ''content-length''"
  shows "CHR '':'' \<notin> set name" and "newline_char \<notin> set name"
proof -
  have low: "to_lower ` set name = set ''content-length''"
    using arg_cong [OF assms, of set] by simp
  have "to_lower (CHR '':'') = CHR '':''" "to_lower newline_char = newline_char"
    by (simp_all add: to_lower_def)
  then have "CHR '':'' \<in> set name \<Longrightarrow> CHR '':'' \<in> set ''content-length''"
    "newline_char \<in> set name \<Longrightarrow> newline_char \<in> set ''content-length''"
    using low by (metis imageI)+
  then show "CHR '':'' \<notin> set name" "newline_char \<notin> set name" by auto
qed

lemma length_headerE:
  assumes "length_header n l"
  obtains name spaces junk crs where "l = name @ CHR '':'' # spaces @ show_nat n @ junk @ crs"
    and "map to_lower name = ''content-length''" and "list_all is_space spaces" and "newline_char \<notin> set spaces"
    and "junk = [] \<or> \<not> is_digit (hd junk) \<and> last junk \<noteq> return_char" and "newline_char \<notin> set junk"
    and "blank_line crs"
proof -
  note l = assms [unfolded length_header_def blank_line_def [symmetric]]
  show thesis by (rule exE [OF l]) (elim exE conjE, rule that, assumption+)
qed

lemma header_parts:
  assumes l: "l = name @ CHR '':'' # spaces @ show_nat m @ junk @ crs"
    and name: "map to_lower name = ''content-length''" and spaces: "list_all is_space spaces"
    and junk: "junk = [] \<or> \<not> is_digit (hd junk) \<and> last junk \<noteq> return_char"
    and crs: "blank_line crs"
  shows "strip_cr l = name @ CHR '':'' # spaces @ show_nat m @ junk"
    and "find_char CHR '':'' (name @ CHR '':'' # spaces @ show_nat m @ junk) = Some (length name)"
    and "map to_lower (take (length name) (name @ CHR '':'' # spaces @ show_nat m @ junk)) = ''content-length''"
    and "dropWhile is_space (drop (length name + 1) (name @ CHR '':'' # spaces @ show_nat m @ junk)) = show_nat m @ junk"
proof -
  let ?line = "name @ CHR '':'' # spaces @ show_nat m @ junk"
  have "last ?line \<noteq> return_char" using junk show_nat_ends(2) digit_not_space by (auto simp: last_append)
  then show "strip_cr l = ?line" using strip_cr_append [OF crs, of ?line] l by simp
  show "find_char CHR '':'' ?line = Some (length name)"
    using find_char_first length_name_chars(1) [OF name] by fastforce
  show "map to_lower (take (length name) ?line) = ''content-length''" by (simp add: name)
  have ws: "\<forall>c \<in> set spaces. is_space c" using spaces by (simp add: list_all_iff)
  have "dropWhile is_space (spaces @ show_nat m @ junk) = dropWhile is_space (show_nat m @ junk)"
    using dropWhile_append2 [of spaces is_space] ws by blast
  also have "\<dots> = show_nat m @ junk"
    using show_nat_ends(1) [of m] digit_not_space show_nat_nonempty [of m]
    by (cases "show_nat m") auto
  finally show "dropWhile is_space (drop (length name + 1) ?line) = show_nat m @ junk" by simp
qed

lemma header_line_length:
  assumes "length_header m l" "m < 2 ^ 64"
  shows "header_line n l = (m, True)"
proof -
  from assms(1) obtain name spaces junk crs where l: "l = name @ CHR '':'' # spaces @ show_nat m @ junk @ crs"
    and name: "map to_lower name = ''content-length''" and spaces: "list_all is_space spaces"
    and junk: "junk = [] \<or> \<not> is_digit (hd junk) \<and> last junk \<noteq> return_char"
    and crs: "blank_line crs"
    by (rule length_headerE)
  have "from_chars (show_nat m @ junk) = Some m"
    using from_chars_show [of junk m] junk assms(2) by auto
  with header_parts [OF l name spaces junk crs] show ?thesis
    unfolding header_line_def Let_def by simp
qed

section \<open>Frames\<close>

lemma header_bytes_line:
  assumes "newline_char \<notin> set l"
  shows "header_bytes (l @ newline_char # r) n =
    (case header_line n l of (n, go_on) \<Rightarrow> if go_on then header_bytes r n else Some (n, r))"
proof -
  have "take (length l) (l @ newline_char # r) = l" "drop (length l + 1) (l @ newline_char # r) = r" by simp_all
  then show ?thesis
    by (subst header_bytes.simps) (simp only: find_char_first [OF assms] option.case)
qed

lemma header_bytes_others:
  "list_all other_header ls \<Longrightarrow>
   header_bytes (concat (map (\<lambda>l. l @ [newline_char]) ls) @ r) n = header_bytes r n"
proof (induction ls)
  case (Cons l ls)
  then have "newline_char \<notin> set l" by (simp add: other_header_def)
  with Cons header_line_other [of l n] show ?case by (simp add: header_bytes_line)
qed simp

lemma blank_no_newline: "blank_line l \<Longrightarrow> newline_char \<notin> set l"
  by (auto simp: blank_line_def list_all_iff)

lemma length_no_newline:
  assumes "length_header n l"
  shows "newline_char \<notin> set l"
proof -
  from assms obtain name spaces junk crs where l: "l = name @ CHR '':'' # spaces @ show_nat n @ junk @ crs"
    and name: "map to_lower name = ''content-length''" and ws: "newline_char \<notin> set spaces"
    and junk: "newline_char \<notin> set junk" and crs: "blank_line crs"
    by (rule length_headerE)
  show ?thesis
    unfolding l using length_name_chars(2) [OF name] ws junk blank_no_newline [OF crs] show_nat_ends(3) [of n]
    by simp
qed

lemma text_bytes_blanks:
  "list_all blank_line ls \<Longrightarrow> text_bytes (concat (map (\<lambda>l. l @ [newline_char]) ls) @ r) = text_bytes r"
proof (induction ls)
  case (Cons l ls)
  then have l: "newline_char \<notin> set l" "blank_line l" by (simp_all add: blank_no_newline)
  from Cons show ?case
    by (subst text_bytes.simps) (simp add: header_bytes_line l header_line_blank)
qed simp

lemma text_bytes_message:
  assumes "length_header (length d) l" "length d < 2 ^ 64" "d \<noteq> []"
    and "list_all other_header before" "list_all other_header after" "blank_line e"
  shows "text_bytes (concat (map (\<lambda>l. l @ [newline_char]) (before @ [l] @ after @ [e])) @ d @ rest) = Some (d, rest)"
proof -
  have "header_bytes (concat (map (\<lambda>l. l @ [newline_char]) (before @ [l] @ after @ [e])) @ d @ rest) 0
      = Some (length d, d @ rest)"
    using assms
    by (simp add: header_bytes_others header_bytes_line length_no_newline header_line_length
        blank_no_newline header_line_blank)
  then show ?thesis
    using assms(3) by (subst text_bytes.simps) simp
qed

lemma frame_lines:
  "frame d = concat (map (\<lambda>l. l @ [newline_char])
     [''Content-Length: '' @ show_nat (length d) @ [return_char], [return_char]]) @ d"
  by (simp add: frame_def)

lemma frame_length_header: "length_header n (''Content-Length: '' @ show_nat n @ [return_char])"
proof -
  have "map to_lower ''Content-Length'' = ''content-length''" "list_all is_space '' ''" by code_simp+
  then show ?thesis
    unfolding length_header_def
    by (intro exI [of _ "''Content-Length''"] exI [of _ "'' ''"] exI [of _ "[]"] exI [of _ "[return_char]"])
      simp
qed

lemma text_bytes_frame:
  assumes "d \<noteq> []" "length d < 2 ^ 64"
  shows "text_bytes (frame d @ rest) = Some (d, rest)"
  using text_bytes_message [OF frame_length_header assms(2,1), of "[]" "[]" "[return_char]" rest]
  by (simp add: frame_lines blank_line_def)

lemma all_texts_frames:
  "list_all (\<lambda>d. d \<noteq> [] \<and> length d < 2 ^ 64) ds \<Longrightarrow> all_texts (concat (map frame ds)) = ds"
proof (induction ds)
  case Nil
  then show ?case by (simp add: all_texts.simps text_bytes.simps header_bytes.simps)
next
  case (Cons d ds)
  then show ?case using text_bytes_frame [of d "concat (map frame ds)"] by (subst all_texts.simps) simp
qed

section \<open>Lengths out of bounds\<close>

lemma read_until_line: "newline_char \<notin> set l \<Longrightarrow> read_until (l @ newline_char # r) cs = Some (length l + 1, l @ newline_char # r, cs)"
  by (cases cs) (simp_all add: find_char_first)

lemma read_headers_line:
  assumes "newline_char \<notin> set l"
  shows "read_headers (l @ newline_char # r) cs n =
    (case header_line n l of (n, go_on) \<Rightarrow> if go_on then read_headers r cs n else Some (n, r, cs))"
proof -
  have "take (length l + 1 - 1) (l @ newline_char # r) = l" "drop (length l + 1) (l @ newline_char # r) = r"
    by simp_all
  then show ?thesis
    by (subst read_headers.simps) (simp only: read_until_line [OF assms] option.case prod.case)
qed

lemma header_line_too_long:
  assumes "length_header m l" "2 ^ 64 \<le> m"
  shows "header_line n l = (n, False)"
proof -
  from assms(1) obtain name spaces junk crs where l: "l = name @ CHR '':'' # spaces @ show_nat m @ junk @ crs"
    and name: "map to_lower name = ''content-length''" and spaces: "list_all is_space spaces"
    and junk: "junk = [] \<or> \<not> is_digit (hd junk) \<and> last junk \<noteq> return_char"
    and crs: "blank_line crs"
    by (rule length_headerE)
  have "from_chars (show_nat m @ junk) = None"
    using from_chars_show [of junk m] junk assms(2) by auto
  with header_parts [OF l name spaces junk crs] show ?thesis
    unfolding header_line_def Let_def by simp
qed

section \<open>Writing\<close>

lemma send_all_written:
  "in_flight out = None \<Longrightarrow> stream_buf out = [] \<Longrightarrow>
   send_all ds out = Inr (out\<lparr>written := written out @ concat (map frame ds)\<rparr>)"
  by (induction ds arbitrary: out) (simp_all add: start_send_def finish_send_def Let_def)

end
