(* ===== verification/CommsProperties.thy ===== *)
theory CommsProperties
  imports CommsCorrect
begin

text \<open>
  The properties of the framing of messages.
\<close>

text \<open>C31: the coroutine that reads messages yields, one by one, the texts of the whole stream of
  bytes, each parsed, up to the first that does not parse; how the bytes are cut into pieces by the
  reads makes no difference.\<close>

theorem read_all_pieces:
  assumes "2 * length (concat pieces) < 2 ^ 63"
  shows "read_all parse [] pieces = parsed parse (all_texts (concat pieces)) \<and>
    read_all parse [] pieces = read_all parse [] [concat pieces]"
  using read_all_eq [of "[]" pieces parse] read_all_eq [of "[]" "[concat pieces]" parse] assms
  by (simp add: stream_fits_def)

definition example_pieces :: "string list" where
  "example_pieces = [''content'', ''-length:2'' @ [newline_char], [newline_char] @ ''o'', ''k'', [newline_char]]"

theorem read_all_pieces_witness:
  "read_all Some [] example_pieces = read_all Some [] [concat example_pieces] \<and>
   read_all Some [] [concat example_pieces] = [''ok'']"
proof -
  have fits: "2 * length (concat example_pieces) < 2 ^ 63" by (simp add: example_pieces_def fits_bits_iff)
  have "read_all Some [] [concat example_pieces] = [''ok'']" by code_simp
  then show ?thesis by (rule conjI [OF conjunct2 [OF read_all_pieces [OF fits]]])
qed

text \<open>C13: what the program writes when it sends messages one after the other can be read back by its
  own reader: every message, in the order of sending, however the bytes are cut into pieces, provided
  that the JSON library reads what it prints and does not print the empty text.\<close>

theorem send_read_roundtrip:
  assumes "list_all (\<lambda>j. parse (dump j) = Some j \<and> dump j \<noteq> [] \<and> length (dump j) < 2 ^ 64) js"
  shows "returns (send_all (map dump js) no_output) (\<lambda>out.
    in_flight out = None \<and> stream_buf out = [] \<and> written out = concat (map (\<lambda>j. frame (dump j)) js) \<and>
    (\<forall>pieces. concat pieces = written out \<longrightarrow> 2 * length (written out) < 2 ^ 63 \<longrightarrow>
      read_all parse [] pieces = js))"
proof -
  have "parsed parse (map dump js) = js" using assms by (induction js) simp_all
  moreover have "all_texts (concat (map frame (map dump js))) = map dump js"
    using assms by (intro all_texts_frames) (simp add: list_all_iff)
  moreover have "send_all (map dump js) no_output
      = Inr (no_output\<lparr>written := concat (map frame (map dump js))\<rparr>)"
    using send_all_written [of no_output "map dump js"] by (simp add: no_output_def)
  ultimately show ?thesis
    using read_all_eq [of "[]" _ parse] by (simp add: stream_fits_def no_output_def comp_def)
qed

definition dump_bool :: "bool \<Rightarrow> string" where
  "dump_bool b = (if b then ''true'' else ''false'')"

definition parse_bool :: "string \<Rightarrow> bool option" where
  "parse_bool s = (if s = ''true'' then Some True else if s = ''false'' then Some False else None)"

theorem send_read_roundtrip_witness:
  "returns (send_all (map dump_bool [True, False]) no_output) (\<lambda>out.
     written out = concat (map (\<lambda>j. frame (dump_bool j)) [True, False]) \<and>
     read_all parse_bool [] [take 30 (written out), drop 30 (written out)] = [True, False])"
proof -
  have "list_all (\<lambda>j. parse_bool (dump_bool j) = Some j \<and> dump_bool j \<noteq> [] \<and> length (dump_bool j) < 2 ^ 64) [True, False]"
    by (simp add: parse_bool_def dump_bool_def)
  then have r: "returns (send_all (map dump_bool [True, False]) no_output) (\<lambda>out.
    in_flight out = None \<and> stream_buf out = [] \<and>
    written out = concat (map (\<lambda>j. frame (dump_bool j)) [True, False]) \<and>
    (\<forall>pieces. concat pieces = written out \<longrightarrow> 2 * length (written out) < 2 ^ 63 \<longrightarrow>
      read_all parse_bool [] pieces = [True, False]))"
    by (rule send_read_roundtrip)
  have "length (concat (map (\<lambda>j. frame (dump_bool j)) [True, False])) = 51" by code_simp
  then have l: "2 * length (concat (map (\<lambda>j. frame (dump_bool j)) [True, False])) < 2 ^ 63" by simp
  have p: "concat [take 30 w, drop 30 w] = w" for w :: string by simp
  from r obtain out where out: "send_all (map dump_bool [True, False]) no_output = Inr out"
    and w: "written out = concat (map (\<lambda>j. frame (dump_bool j)) [True, False])"
    and read: "\<And>pieces. concat pieces = written out \<Longrightarrow> 2 * length (written out) < 2 ^ 63 \<Longrightarrow>
      read_all parse_bool [] pieces = [True, False]"
    unfolding returns_def by blast
  show ?thesis
    unfolding out returns_simps using w read [OF p] l by (intro conjI) (simp_all only: w)
qed

text \<open>C32: the reader accepts what other programs write: blank lines before a message, other headers
  before and after the length, the name of the header in any case, white space before the number,
  lines that end with or without a carriage return.\<close>

theorem next_text_tolerant:
  assumes "list_all blank_line blanks" "list_all other_header before" "list_all other_header after"
    and "length_header (length d) l" "blank_line e" "d \<noteq> []"
    and "concat pieces = concat (map (\<lambda>l. l @ [newline_char]) (blanks @ before @ [l] @ after @ [e])) @ d @ rest"
    and "2 * length (concat pieces) < 2 ^ 63"
  shows "\<exists>buf cs. next_text [] pieces = Yielded d buf cs \<and> buf @ concat cs = rest"
proof -
  have "length d < 2 ^ 64" using assms(7,8) by (simp add: fits_bits_iff)
  then have "text_bytes (concat pieces) = Some (d, rest)"
    using text_bytes_blanks [OF assms(1)] text_bytes_message [OF assms(4) _ assms(6,2,3,5)]
    by (simp add: assms(7))
  then have "yields (next_text [] pieces) = Some (d, rest)"
    using next_text_eq [of "[]" pieces] assms(8) by (simp add: stream_fits_def)
  then show ?thesis by (auto simp: yields_def split: read_result.splits)
qed

theorem next_text_tolerant_witness:
  "\<exists>buf cs. next_text [] [[return_char, newline_char] @ ''Content-Type: x'' @ [newline_char],
       ''CONTENT-length:  2;'' @ [return_char], [newline_char] @ ''A:b'' @ [newline_char, newline_char] @ ''{}rest'']
     = Yielded ''{}'' buf cs \<and> buf @ concat cs = ''rest''"
proof (rule next_text_tolerant [where blanks = "[[return_char]]" and before = "[''Content-Type: x'']"
      and l = "''CONTENT-length:  2;'' @ [return_char]" and after = "[''A:b'']" and e = "[]"])
  have "map to_lower ''CONTENT-length'' = ''content-length''" "list_all is_space ''  ''"
    "show_nat 2 = ''2''" "\<not> is_digit (hd '';'')" by code_simp+
  then show "length_header (length ''{}'') (''CONTENT-length:  2;'' @ [return_char])"
    unfolding length_header_def
    by (intro exI [of _ "''CONTENT-length''"] exI [of _ "''  ''"] exI [of _ "'';''"] exI [of _ "[return_char]"])
      (simp add: numeral_2_eq_2)
  show "list_all other_header [''Content-Type: x'']" "list_all other_header [''A:b'']" by code_simp+
qed (simp_all add: blank_line_def fits_bits_iff)

text \<open>C33: the bounds of the announced length: a number of at least \<open>2 ^ 64\<close> is no length, and reading
  goes on with the next line as if a new message began there; from \<open>2 ^ 63\<close> on, no buffer can hold
  the text, and the exception ends the reader; zero announces no message.\<close>

theorem content_length_bounds:
  assumes "length_header n l" "blank_line e"
  shows "(2 ^ 64 \<le> n \<longrightarrow> next_text (l @ newline_char # rest) cs = next_text rest cs) \<and>
    (2 ^ 63 \<le> n \<and> n < 2 ^ 64 \<longrightarrow> next_text (l @ newline_char # e @ newline_char # rest) cs = Failed) \<and>
    (n = 0 \<longrightarrow> next_text (l @ newline_char # e @ newline_char # rest) cs = next_text rest cs)"
proof (intro conjI impI)
  note line = read_headers_line [OF length_no_newline [OF assms(1)]]
    read_headers_line [OF blank_no_newline [OF assms(2)]] header_line_blank [OF assms(2)]
  show "next_text (l @ newline_char # rest) cs = next_text rest cs" if "2 ^ 64 \<le> n"
    by (subst next_text.simps) (simp add: line header_line_too_long [OF assms(1) that])
  show "next_text (l @ newline_char # e @ newline_char # rest) cs = Failed" if "2 ^ 63 \<le> n \<and> n < 2 ^ 64"
    using that
    by (subst next_text.simps) (simp add: line header_line_length [OF assms(1)] read_body_def fits_bits_iff)
  show "next_text (l @ newline_char # e @ newline_char # rest) cs = next_text rest cs" if "n = 0"
    using that by (subst next_text.simps) (simp add: line header_line_length [OF assms(1)])
qed

theorem content_length_bounds_witness:
  "next_text (''Content-Length: 9223372036854775808'' @ [return_char, newline_char, return_char, newline_char] @ ''{}'') []
     = Failed"
proof -
  have n: "show_nat 9223372036854775808 = ''9223372036854775808''" by (simp add: show_nat.simps digit_char_def) code_simp
  have h: "length_header 9223372036854775808 (''Content-Length: 9223372036854775808'' @ [return_char])"
    using frame_length_header [of 9223372036854775808] by (simp add: n)
  have e: "blank_line [return_char]" by (simp add: blank_line_def)
  have "next_text ((''Content-Length: 9223372036854775808'' @ [return_char]) @ newline_char # [return_char] @ newline_char # ''{}'') [] = Failed"
    by (rule mp [OF conjunct1 [OF conjunct2 [OF content_length_bounds [OF h e]]]]) simp
  then show ?thesis unfolding append_assoc append_Cons append_Nil .
qed

end
