(* ===== verification/Json.thy ===== *)
theory Json
  imports Complex_Main Prelude
begin

text \<open>
  JSON values as the sources use them through \<open>nlohmann::json\<close> (version 3.10.4): the operations that
  read and build values, the conversions from and to the types of the program, and the contract of
  a type with such conversions. Parsing and printing are arguments where they are needed.
\<close>

section \<open>Values\<close>

text \<open>
  An integer is held in 64 bits, signed or unsigned; here it is its value. A number with a fraction
  or exponent is a double, which is a rational number. An object is a \<open>std::map\<close>: its entries are
  in the order of the keys.
\<close>

datatype json =
    JNull
  | JBool bool
  | JInt int
  | JFloat rat
  | JString string
  | JArray "json list"
  | JObject "(string \<times> json) list"

primrec json_ok :: "json \<Rightarrow> bool" where
  "json_ok JNull \<longleftrightarrow> True"
| "json_ok (JBool b) \<longleftrightarrow> True"
| "json_ok (JInt i) \<longleftrightarrow> - (2 ^ 63) \<le> i \<and> i < 2 ^ 64"
| "json_ok (JFloat r) \<longleftrightarrow> True"
| "json_ok (JString s) \<longleftrightarrow> True"
| "json_ok (JArray js) \<longleftrightarrow> list_all json_ok js"
| "json_ok (JObject kvs) \<longleftrightarrow> sorted_wrt (<) (map fst kvs) \<and> list_all (pred_prod (\<lambda>_. True) json_ok) kvs"

section \<open>Objects\<close>

fun obj_put :: "string \<Rightarrow> json \<Rightarrow> (string \<times> json) list \<Rightarrow> (string \<times> json) list" where
  "obj_put k v [] = [(k, v)]"
| "obj_put k v ((l, w) # kvs) =
     (if k < l then (k, v) # (l, w) # kvs
      else if k = l then (k, v) # kvs
      else (l, w) # obj_put k v kvs)"

text \<open>An object that is filled by assignments \<open>j[k] = v\<close> one after the other.\<close>

definition object_of :: "(string \<times> json) list \<Rightarrow> json" where
  "object_of kvs = JObject (fold (\<lambda>(k, v). obj_put k v) kvs [])"

lemma map_of_obj_put [simp]: "map_of (obj_put k v kvs) = (map_of kvs)(k \<mapsto> v)"
  by (induction k v kvs rule: obj_put.induct) (auto simp: fun_eq_iff)

lemma obj_put_keys: "fst ` set (obj_put k v kvs) = insert k (fst ` set kvs)"
  by (induction k v kvs rule: obj_put.induct) auto

lemma obj_put_sorted:
  "sorted_wrt (<) (map fst kvs) \<Longrightarrow> sorted_wrt (<) (map fst (obj_put k v kvs))"
proof (induction k v kvs rule: obj_put.induct)
  case (2 k v l w kvs)
  have sorted: "sorted_wrt (<) (map fst kvs)" "\<forall>y \<in> fst ` set kvs. l < y" using 2(2) by auto
  consider "k < l" | "k = l" | "l < k" by fastforce
  then show ?case
  proof cases
    case 1
    with sorted show ?thesis by (auto intro: less_trans)
  next
    case 3
    then have "\<forall>y \<in> fst ` set (obj_put k v kvs). l < y" unfolding obj_put_keys using sorted by blast
    with 2 3 sorted show ?thesis by auto
  qed (use sorted in simp)
qed simp

lemma obj_put_values:
  "list_all (pred_prod (\<lambda>_. True) P) kvs \<Longrightarrow> P v \<Longrightarrow> list_all (pred_prod (\<lambda>_. True) P) (obj_put k v kvs)"
  by (induction k v kvs rule: obj_put.induct) auto

lemma obj_put_ok:
  "json_ok (JObject kvs) \<Longrightarrow> json_ok v \<Longrightarrow> json_ok (JObject (obj_put k v kvs))"
  by (simp add: obj_put_sorted obj_put_values)

lemma object_of_ok: "list_all (\<lambda>(k, v). json_ok v) kvs \<Longrightarrow> json_ok (object_of kvs)"
proof -
  have "json_ok (JObject o1) \<Longrightarrow> list_all (\<lambda>(k, v). json_ok v) kvs \<Longrightarrow>
      json_ok (JObject (fold (\<lambda>(k, v). obj_put k v) kvs o1))" for o1
    by (induction kvs arbitrary: o1) (auto simp del: json_ok.simps intro: obj_put_ok)
  from this [of "[]"] show "list_all (\<lambda>(k, v). json_ok v) kvs \<Longrightarrow> ?thesis" by (simp add: object_of_def)
qed

section \<open>Access\<close>

definition json_contains :: "string \<Rightarrow> json \<Rightarrow> bool" where
  "json_contains k j = (case j of JObject kvs \<Rightarrow> map_of kvs k \<noteq> None | _ \<Rightarrow> False)"

text \<open>\<open>at\<close> throws for a missing key and for a value that is no object.\<close>

definition json_at :: "string \<Rightarrow> json \<Rightarrow> json result" where
  "json_at k j =
     (case j of
        JObject kvs \<Rightarrow> (case map_of kvs k of None \<Rightarrow> Inl JsonError | Some v \<Rightarrow> Inr v)
      | _ \<Rightarrow> Inl JsonError)"

text \<open>\<open>operator[]\<close> of a constant value asserts that the key is there.\<close>

definition json_index :: "string \<Rightarrow> json \<Rightarrow> json result" where
  "json_index k j =
     (case j of
        JObject kvs \<Rightarrow> (case map_of kvs k of None \<Rightarrow> Inl Aborted | Some v \<Rightarrow> Inr v)
      | _ \<Rightarrow> Inl JsonError)"

text \<open>\<open>value\<close> gives a default for a missing key.\<close>

definition json_value :: "string \<Rightarrow> (json \<Rightarrow> 'a result) \<Rightarrow> 'a \<Rightarrow> json \<Rightarrow> 'a result" where
  "json_value k get d j =
     (case j of
        JObject kvs \<Rightarrow> (case map_of kvs k of None \<Rightarrow> Inr d | Some v \<Rightarrow> get v)
      | _ \<Rightarrow> Inl JsonError)"

section \<open>Conversions\<close>

text \<open>
  An integer of the other signedness is cast, which wraps around. A double is truncated; the cast
  of one whose truncation does not fit is undefined.
\<close>

definition truncate_rat :: "rat \<Rightarrow> int" where
  "truncate_rat r = (if 0 \<le> r then \<lfloor>r\<rfloor> else - \<lfloor>- r\<rfloor>)"

definition get_int64 :: "json \<Rightarrow> 64 word result" where
  "get_int64 j =
     (case j of
        JInt i \<Rightarrow> Inr (word_of_int i)
      | JFloat r \<Rightarrow>
          (if - (2 ^ 63) \<le> truncate_rat r \<and> truncate_rat r < 2 ^ 63
           then Inr (word_of_int (truncate_rat r)) else Inl Undefined)
      | _ \<Rightarrow> Inl JsonError)"

definition get_uint64 :: "json \<Rightarrow> 64 word result" where
  "get_uint64 j =
     (case j of
        JInt i \<Rightarrow> Inr (word_of_int i)
      | JFloat r \<Rightarrow>
          (if 0 \<le> truncate_rat r \<and> truncate_rat r < 2 ^ 64
           then Inr (word_of_int (truncate_rat r)) else Inl Undefined)
      | _ \<Rightarrow> Inl JsonError)"

definition put_int64 :: "64 word \<Rightarrow> json" where
  "put_int64 w = JInt (sint w)"

definition put_uint64 :: "64 word \<Rightarrow> json" where
  "put_uint64 w = JInt (uint w)"

definition get_string :: "json \<Rightarrow> string result" where
  "get_string j = (case j of JString s \<Rightarrow> Inr s | _ \<Rightarrow> Inl JsonError)"

definition get_bool :: "json \<Rightarrow> bool result" where
  "get_bool j = (case j of JBool b \<Rightarrow> Inr b | _ \<Rightarrow> Inl JsonError)"

primrec map_r :: "('a \<Rightarrow> 'b result) \<Rightarrow> 'a list \<Rightarrow> 'b list result" where
  "map_r f [] = Inr []"
| "map_r f (x # xs) = rbind (f x) (\<lambda>y. rbind (map_r f xs) (\<lambda>ys. Inr (y # ys)))"

definition get_array :: "(json \<Rightarrow> 'a result) \<Rightarrow> json \<Rightarrow> 'a list result" where
  "get_array get j = (case j of JArray js \<Rightarrow> map_r get js | _ \<Rightarrow> Inl JsonError)"

text \<open>A member of a structure that is read by \<open>j.at (k).get_to (v)\<close>.\<close>

definition get_field :: "string \<Rightarrow> (json \<Rightarrow> 'a result) \<Rightarrow> json \<Rightarrow> 'a result" where
  "get_field k get j = rbind (json_at k j) get"

section \<open>The contract of a type with conversions\<close>

text \<open>\<open>decode\<close> collects how the members of the known types are read back.\<close>

named_theorems decode

locale json_roundtrip =
  fixes to_json :: "'a \<Rightarrow> json" and from_json :: "json \<Rightarrow> 'a result"
  assumes from_to: "from_json (to_json x) = Inr x"
begin

lemma to_json_inj:
  assumes "to_json x = to_json y"
  shows "x = y"
proof -
  have "Inr x = (Inr y :: 'a result)" unfolding from_to [symmetric] assms ..
  then show ?thesis by simp
qed

lemma field_from_to: "map_of kvs k = Some (to_json x) \<Longrightarrow> get_field k from_json (JObject kvs) = Inr x"
  by (simp add: get_field_def json_at_def from_to)

lemma array_from_to: "get_array from_json (JArray (map to_json xs)) = Inr xs"
  by (induction xs) (simp_all add: get_array_def from_to)

end

locale json_codec = json_roundtrip +
  assumes to_json_ok: "json_ok (to_json x)"
begin

lemma array_ok: "json_ok (JArray (map to_json xs))"
  by (simp add: list_all_iff to_json_ok)

end

interpretation int64: json_codec put_int64 get_int64
proof unfold_locales
  fix x :: "64 word"
  show "get_int64 (put_int64 x) = Inr x" by (simp add: get_int64_def put_int64_def)
  show "json_ok (put_int64 x)"
    using sint_range_size [of x] by (simp add: put_int64_def word_size)
qed

interpretation uint64: json_codec put_uint64 get_uint64
proof unfold_locales
  fix x :: "64 word"
  show "get_uint64 (put_uint64 x) = Inr x" by (simp add: get_uint64_def put_uint64_def)
  have "0 \<le> uint x" "uint x < 2 ^ 64" using uint_lt2p [of x] by simp_all
  then show "json_ok (put_uint64 x)" by (auto simp: put_uint64_def intro: order_trans [of _ 0])
qed

interpretation str: json_codec JString get_string
  by unfold_locales (simp_all add: get_string_def)

interpretation boolean: json_codec JBool get_bool
  by unfold_locales (simp_all add: get_bool_def)

interpretation any: json_roundtrip "\<lambda>j. j" Inr
  by unfold_locales simp

declare int64.field_from_to [decode] uint64.field_from_to [decode] str.field_from_to [decode]
  boolean.field_from_to [decode] any.field_from_to [decode]

end
