(* ===== verification/ProtocolTypes.thy ===== *)
theory ProtocolTypes
  imports Json
begin

text \<open>
  The structures of the protocol, \<open>src/src/lsp/types.cpp\<close>, with the conversions that the macro
  \<open>NLOHMANN_DEFINE_TYPE_INTRUSIVE\<close> generates: the members are assigned to an object, and read with
  \<open>at\<close>, in the order of the list. The parameters of the handlers (\<open>handlers.cpp\<close>) and the options
  of the workspace (\<open>server.hpp\<close>) are only read. \<open>integer\<close> and \<open>uinteger\<close> have 64 bits.
\<close>

section \<open>Structures\<close>

record ResponseError =
  error_code :: "64 word"
  error_message :: string
  error_data :: json

definition ResponseError_to_json :: "ResponseError \<Rightarrow> json" where
  "ResponseError_to_json t = object_of
     [(''code'', put_int64 (error_code t)), (''message'', JString (error_message t)), (''data'', error_data t)]"

definition ResponseError_from_json :: "json \<Rightarrow> ResponseError result" where
  "ResponseError_from_json j =
     rbind (get_field ''code'' get_int64 j) (\<lambda>c.
     rbind (get_field ''message'' get_string j) (\<lambda>m.
     rbind (get_field ''data'' Inr j) (\<lambda>d.
     Inr \<lparr>error_code = c, error_message = m, error_data = d\<rparr>)))"

record Position =
  position_line :: "64 word"
  position_character :: "64 word"

definition Position_to_json :: "Position \<Rightarrow> json" where
  "Position_to_json t = object_of
     [(''line'', put_uint64 (position_line t)), (''character'', put_uint64 (position_character t))]"

definition Position_from_json :: "json \<Rightarrow> Position result" where
  "Position_from_json j =
     rbind (get_field ''line'' get_uint64 j) (\<lambda>l.
     rbind (get_field ''character'' get_uint64 j) (\<lambda>c.
     Inr \<lparr>position_line = l, position_character = c\<rparr>))"

record Range =
  range_start :: Position
  range_end :: Position

definition Range_to_json :: "Range \<Rightarrow> json" where
  "Range_to_json t = object_of
     [(''start'', Position_to_json (range_start t)), (''end'', Position_to_json (range_end t))]"

definition Range_from_json :: "json \<Rightarrow> Range result" where
  "Range_from_json j =
     rbind (get_field ''start'' Position_from_json j) (\<lambda>s.
     rbind (get_field ''end'' Position_from_json j) (\<lambda>e.
     Inr \<lparr>range_start = s, range_end = e\<rparr>))"

record Location =
  location_uri :: string
  location_range :: Range

definition Location_to_json :: "Location \<Rightarrow> json" where
  "Location_to_json t = object_of
     [(''uri'', JString (location_uri t)), (''range'', Range_to_json (location_range t))]"

definition Location_from_json :: "json \<Rightarrow> Location result" where
  "Location_from_json j =
     rbind (get_field ''uri'' get_string j) (\<lambda>u.
     rbind (get_field ''range'' Range_from_json j) (\<lambda>r.
     Inr \<lparr>location_uri = u, location_range = r\<rparr>))"

record TextDocumentIdentifier =
  uri :: string

definition TextDocumentIdentifier_to_json :: "TextDocumentIdentifier \<Rightarrow> json" where
  "TextDocumentIdentifier_to_json t = object_of [(''uri'', JString (uri t))]"

definition TextDocumentIdentifier_from_json :: "json \<Rightarrow> TextDocumentIdentifier result" where
  "TextDocumentIdentifier_from_json j =
     rbind (get_field ''uri'' get_string j) (\<lambda>u. Inr \<lparr>uri = u\<rparr>)"

record TextDocumentItem =
  item_uri :: string
  item_languageId :: string
  item_version :: "64 word"
  item_text :: string

definition TextDocumentItem_to_json :: "TextDocumentItem \<Rightarrow> json" where
  "TextDocumentItem_to_json t = object_of
     [(''uri'', JString (item_uri t)), (''languageId'', JString (item_languageId t)),
      (''version'', put_int64 (item_version t)), (''text'', JString (item_text t))]"

definition TextDocumentItem_from_json :: "json \<Rightarrow> TextDocumentItem result" where
  "TextDocumentItem_from_json j =
     rbind (get_field ''uri'' get_string j) (\<lambda>u.
     rbind (get_field ''languageId'' get_string j) (\<lambda>l.
     rbind (get_field ''version'' get_int64 j) (\<lambda>v.
     rbind (get_field ''text'' get_string j) (\<lambda>t.
     Inr \<lparr>item_uri = u, item_languageId = l, item_version = v, item_text = t\<rparr>))))"

record VersionedTextDocumentIdentifier = TextDocumentIdentifier +
  version :: "64 word"

definition VersionedTextDocumentIdentifier_to_json :: "VersionedTextDocumentIdentifier \<Rightarrow> json" where
  "VersionedTextDocumentIdentifier_to_json t = object_of
     [(''uri'', JString (uri t)), (''version'', put_int64 (version t))]"

definition VersionedTextDocumentIdentifier_from_json :: "json \<Rightarrow> VersionedTextDocumentIdentifier result" where
  "VersionedTextDocumentIdentifier_from_json j =
     rbind (get_field ''uri'' get_string j) (\<lambda>u.
     rbind (get_field ''version'' get_int64 j) (\<lambda>v.
     Inr \<lparr>uri = u, version = v\<rparr>))"

record TextDocumentPositionParams =
  textDocument :: TextDocumentIdentifier
  position :: Position

definition TextDocumentPositionParams_to_json :: "TextDocumentPositionParams \<Rightarrow> json" where
  "TextDocumentPositionParams_to_json t = object_of
     [(''textDocument'', TextDocumentIdentifier_to_json (textDocument t)),
      (''position'', Position_to_json (position t))]"

definition TextDocumentPositionParams_from_json :: "json \<Rightarrow> TextDocumentPositionParams result" where
  "TextDocumentPositionParams_from_json j =
     rbind (get_field ''textDocument'' TextDocumentIdentifier_from_json j) (\<lambda>t.
     rbind (get_field ''position'' Position_from_json j) (\<lambda>p.
     Inr \<lparr>textDocument = t, position = p\<rparr>))"

text \<open>An enumeration is converted to its number.\<close>

datatype TextDocumentSyncKind = SyncNone | SyncFull | SyncIncremental

definition TextDocumentSyncKind_to_json :: "TextDocumentSyncKind \<Rightarrow> json" where
  "TextDocumentSyncKind_to_json k =
     JInt (case k of SyncNone \<Rightarrow> 0 | SyncFull \<Rightarrow> 1 | SyncIncremental \<Rightarrow> 2)"

text \<open>
  The macros for members of an object: a member that must be there, one that keeps its value \<open>d\<close> if it
  is not there, and a \<open>std::optional\<close>.
\<close>

definition LSP_FROM_JSON :: "string \<Rightarrow> (json \<Rightarrow> 'a result) \<Rightarrow> json \<Rightarrow> 'a result" where
  "LSP_FROM_JSON v get j = rbind (json_at v j) get"

definition LSP_FROM_JSON_OPTIONAL :: "string \<Rightarrow> (json \<Rightarrow> 'a result) \<Rightarrow> 'a \<Rightarrow> json \<Rightarrow> 'a result" where
  "LSP_FROM_JSON_OPTIONAL v get d j = (if json_contains v j then rbind (json_at v j) get else Inr d)"

definition LSP_FROM_JSON_STDOPTIONAL :: "string \<Rightarrow> (json \<Rightarrow> 'a result) \<Rightarrow> json \<Rightarrow> 'a option result" where
  "LSP_FROM_JSON_STDOPTIONAL v get j =
     (if json_contains v j then rbind (json_at v j) (\<lambda>x. rbind (get x) (\<lambda>y. Inr (Some y))) else Inr None)"

section \<open>Parameters of the handlers\<close>

definition DidOpenTextDocumentParams_from_json :: "json \<Rightarrow> TextDocumentItem result" where
  "DidOpenTextDocumentParams_from_json j = get_field ''textDocument'' TextDocumentItem_from_json j"

record TextDocumentContentChangeEvent =
  change_range :: "Range option"
  change_text :: string

definition TextDocumentContentChangeEvent_from_json :: "json \<Rightarrow> TextDocumentContentChangeEvent result" where
  "TextDocumentContentChangeEvent_from_json j =
     rbind (LSP_FROM_JSON_STDOPTIONAL ''range'' Range_from_json j) (\<lambda>r.
     rbind (LSP_FROM_JSON ''text'' get_string j) (\<lambda>t.
     Inr \<lparr>change_range = r, change_text = t\<rparr>))"

record DidChangeTextDocumentParams =
  change_document :: VersionedTextDocumentIdentifier
  contentChanges :: "TextDocumentContentChangeEvent list"

definition DidChangeTextDocumentParams_from_json :: "json \<Rightarrow> DidChangeTextDocumentParams result" where
  "DidChangeTextDocumentParams_from_json j =
     rbind (get_field ''textDocument'' VersionedTextDocumentIdentifier_from_json j) (\<lambda>t.
     rbind (get_field ''contentChanges'' (get_array TextDocumentContentChangeEvent_from_json) j) (\<lambda>c.
     Inr \<lparr>change_document = t, contentChanges = c\<rparr>))"

definition DidCloseTextDocumentParams_from_json :: "json \<Rightarrow> TextDocumentIdentifier result" where
  "DidCloseTextDocumentParams_from_json j = get_field ''textDocument'' TextDocumentIdentifier_from_json j"

record ReferencesParams = TextDocumentPositionParams +
  includeDeclaration :: bool

definition ReferencesParams_from_json :: "json \<Rightarrow> ReferencesParams result" where
  "ReferencesParams_from_json j =
     rbind (get_field ''textDocument'' TextDocumentIdentifier_from_json j) (\<lambda>t.
     rbind (get_field ''position'' Position_from_json j) (\<lambda>p.
     rbind (get_field ''context'' (get_field ''includeDeclaration'' get_bool) j) (\<lambda>b.
     Inr \<lparr>textDocument = t, position = p, includeDeclaration = b\<rparr>)))"

record WorkspaceOptions =
  auto_path :: "string list"

definition WorkspaceOptions_from_json :: "json \<Rightarrow> WorkspaceOptions result" where
  "WorkspaceOptions_from_json j =
     rbind (LSP_FROM_JSON_OPTIONAL ''auto_path'' (get_array get_string) [] j) (\<lambda>p. Inr \<lparr>auto_path = p\<rparr>)"

section \<open>The conversions fit together\<close>

interpretation response_error: json_roundtrip ResponseError_to_json ResponseError_from_json
  by unfold_locales
    (simp add: ResponseError_to_json_def ResponseError_from_json_def object_of_def decode)

interpretation pos: json_codec Position_to_json Position_from_json
proof unfold_locales
  fix x :: Position
  show "Position_from_json (Position_to_json x) = Inr x"
    by (simp add: Position_to_json_def Position_from_json_def object_of_def decode)
  show "json_ok (Position_to_json x)"
    unfolding Position_to_json_def by (rule object_of_ok) (simp add: uint64.to_json_ok del: json_ok.simps)
qed

declare pos.field_from_to [decode]

interpretation rng: json_codec Range_to_json Range_from_json
proof unfold_locales
  fix x :: Range
  show "Range_from_json (Range_to_json x) = Inr x"
    by (simp add: Range_to_json_def Range_from_json_def object_of_def decode)
  show "json_ok (Range_to_json x)"
    unfolding Range_to_json_def by (rule object_of_ok) (simp add: pos.to_json_ok)
qed

declare rng.field_from_to [decode]

interpretation locn: json_codec Location_to_json Location_from_json
proof unfold_locales
  fix x :: Location
  show "Location_from_json (Location_to_json x) = Inr x"
    by (simp add: Location_to_json_def Location_from_json_def object_of_def decode)
  show "json_ok (Location_to_json x)"
    unfolding Location_to_json_def by (rule object_of_ok) (simp add: rng.to_json_ok)
qed

declare locn.field_from_to [decode]

interpretation doc_id: json_codec TextDocumentIdentifier_to_json TextDocumentIdentifier_from_json
proof unfold_locales
  fix x :: TextDocumentIdentifier
  show "TextDocumentIdentifier_from_json (TextDocumentIdentifier_to_json x) = Inr x"
    by (simp add: TextDocumentIdentifier_to_json_def TextDocumentIdentifier_from_json_def object_of_def decode)
  show "json_ok (TextDocumentIdentifier_to_json x)"
    unfolding TextDocumentIdentifier_to_json_def by (rule object_of_ok) simp
qed

declare doc_id.field_from_to [decode]

interpretation doc_item: json_codec TextDocumentItem_to_json TextDocumentItem_from_json
proof unfold_locales
  fix x :: TextDocumentItem
  show "TextDocumentItem_from_json (TextDocumentItem_to_json x) = Inr x"
    by (simp add: TextDocumentItem_to_json_def TextDocumentItem_from_json_def object_of_def decode)
  show "json_ok (TextDocumentItem_to_json x)"
    unfolding TextDocumentItem_to_json_def
    by (rule object_of_ok) (simp add: int64.to_json_ok)
qed

interpretation versioned_id:
  json_codec VersionedTextDocumentIdentifier_to_json VersionedTextDocumentIdentifier_from_json
proof unfold_locales
  fix x :: VersionedTextDocumentIdentifier
  show "VersionedTextDocumentIdentifier_from_json (VersionedTextDocumentIdentifier_to_json x) = Inr x"
    by (simp add: VersionedTextDocumentIdentifier_to_json_def VersionedTextDocumentIdentifier_from_json_def
        object_of_def decode)
  show "json_ok (VersionedTextDocumentIdentifier_to_json x)"
    unfolding VersionedTextDocumentIdentifier_to_json_def
    by (rule object_of_ok) (simp add: int64.to_json_ok)
qed

interpretation position_params: json_codec TextDocumentPositionParams_to_json TextDocumentPositionParams_from_json
proof unfold_locales
  fix x :: TextDocumentPositionParams
  show "TextDocumentPositionParams_from_json (TextDocumentPositionParams_to_json x) = Inr x"
    by (simp add: TextDocumentPositionParams_to_json_def TextDocumentPositionParams_from_json_def
        object_of_def decode)
  show "json_ok (TextDocumentPositionParams_to_json x)"
    unfolding TextDocumentPositionParams_to_json_def
    by (rule object_of_ok) (simp add: pos.to_json_ok doc_id.to_json_ok)
qed

end
