(* ===== verification/Server.thy ===== *)
theory Server
  imports IndexModel ScriptCursor ProtocolTypes Comms
begin

text \<open>
  The state of the language server (\<open>src/src/lsp/server.hpp\<close>), the parsing of documents
  (\<open>parse_manager.cpp\<close>) and the handlers of the messages (\<open>handlers.cpp\<close>). A handler is a
  coroutine: what it does up to the point where it is suspended or ends is a function of the
  server and the message.
\<close>

section \<open>State\<close>

datatype doc_state = OPEN | CLOSED

text \<open>
  \<open>doc_parses\<close> counts how often the script of the document was replaced: pointers into an older
  script are dangling. It is not a member in the code.
\<close>

record Document =
  doc_item :: TextDocumentItem
  doc_context :: ParseContext
  doc_script :: Script
  doc_state :: doc_state
  doc_parses :: nat

text \<open>
  The memory of the members \<open>file\<close> of all \<open>ParseContext\<close> objects that are alive is \<open>files\<close>; a new
  object gets a fresh address. The words of a tree are views of the text of such a file. When the
  text is moved, a long one stays where it is in memory, so that the views remain valid: the texts
  of objects that are gone but were moved in this way are \<open>moved_texts\<close>, by the address of the
  object they were read in. A short text is stored in the string object itself and dies with it.
  The interpreter \<open>interp\<close> is the argument \<open>T\<close> of the functions. The
  members \<open>clientCapabilities\<close> (empty) and \<open>next_id\<close> are not used by the code.
\<close>

record Server =
  options :: WorkspaceOptions
  documents :: "string \<rightharpoonup> Document"
  index :: Index
  rootUri :: string
  files :: "addr \<rightharpoonup> SourceFile"
  moved_texts :: "addr \<Rightarrow> bool"
  next_addr :: addr

definition no_file :: SourceFile where
  "no_file = \<lparr>fileName = [], contents = [], newlines = []\<rparr>"

definition no_location :: SourceLocation where
  "no_location = \<lparr>sourceFile = 0, loc_offset = 0, loc_line = 0, loc_column = 0\<rparr>"

definition new_Document :: "TextDocumentItem \<Rightarrow> addr \<Rightarrow> Document" where
  "new_Document item a =
     \<lparr>doc_item = item, doc_context = \<lparr>ctx_file = no_file, file_addr = a, cur_ns = []\<rparr>,
      doc_script = Script no_location [], doc_state = OPEN, doc_parses = 0\<rparr>"

definition new_Server :: Server where
  "new_Server = \<lparr>options = \<lparr>auto_path = []\<rparr>, documents = Map.empty, index = make_index, rootUri = [],
     files = Map.empty, moved_texts = (\<lambda>_. False), next_addr = 1\<rparr>"

text \<open>The length up to which \<open>std::string\<close> keeps its characters in itself (15 in libstdc++).\<close>

definition inline_capacity :: nat where
  "inline_capacity = 15"

text \<open>The characters of a word can be read.\<close>

definition text_alive :: "Server \<Rightarrow> Word \<Rightarrow> bool" where
  "text_alive s w \<longleftrightarrow> files s (sourceFile (word_location w)) \<noteq> None \<or> moved_texts s (sourceFile (word_location w))"

text \<open>\<open>documents.emplace\<close> does nothing when the key is there.\<close>

definition emplace_document :: "string \<Rightarrow> TextDocumentItem \<Rightarrow> Server \<Rightarrow> Server" where
  "emplace_document u item s =
     (if documents s u = None
      then s\<lparr>documents := (documents s)(u \<mapsto> new_Document item (next_addr s)),
             files := (files s)(next_addr s \<mapsto> no_file), next_addr := next_addr s + 1\<rparr>
      else s)"

definition find_document :: "Server \<Rightarrow> string \<Rightarrow> Document result" where
  "find_document s u = (case documents s u of None \<Rightarrow> Inl OutOfRange | Some d \<Rightarrow> Inr d)"

definition update_document :: "string \<Rightarrow> (Document \<Rightarrow> Document) \<Rightarrow> Server \<Rightarrow> Server" where
  "update_document u f s = s\<lparr>documents := (documents s)(u := map_option f (documents s u))\<rparr>"

section \<open>Parsing of documents\<close>

text \<open>
  \<open>Reparse\<close> runs on a background thread: it parses and indexes the text with a context of its own,
  then moves the results to the document and the server under the lock. When it ends, its context
  is gone, the locations in the results still point to it.
\<close>

record job =
  job_uri :: string
  job_context :: ParseContext
  job_script :: Script
  job_index :: Index

definition reparse_result :: "tcl \<Rightarrow> TextDocumentItem \<Rightarrow> addr \<Rightarrow> (ParseContext \<times> Script \<times> Index) result" where
  "reparse_result T item a =
     (let context = \<lparr>ctx_file = make_source_file (item_uri item) (item_text item), file_addr = a, cur_ns = ''''\<rparr>
      in rbind (parse_file T context) (\<lambda>(script, context).
         let index = make_index; scanContext = \<lparr>nsPath = [global_namespace_id index]\<rparr> in
         rbind (Build index scanContext script) (\<lambda>(index, _).
         Inr (context, script, index))))"

definition reparse_start :: "tcl \<Rightarrow> string \<Rightarrow> Server \<Rightarrow> (job \<times> Server) result" where
  "reparse_start T u s =
     rbind (find_document s u) (\<lambda>d.
     rbind (reparse_result T (doc_item d) (next_addr s)) (\<lambda>(context, script, ix).
     Inr (\<lparr>job_uri = u, job_context = context, job_script = script, job_index = ix\<rparr>,
          s\<lparr>files := (files s)(next_addr s \<mapsto> ctx_file context), next_addr := next_addr s + 1\<rparr>)))"

definition move_result :: "job \<Rightarrow> Document \<Rightarrow> Document" where
  "move_result j d = d\<lparr>doc_context := (job_context j)\<lparr>file_addr := file_addr (doc_context d)\<rparr>,
     doc_script := job_script j, doc_parses := doc_parses d + 1\<rparr>"

definition reparse_commit :: "job \<Rightarrow> Server \<Rightarrow> Server" where
  "reparse_commit j s =
     (case documents s (job_uri j) of
        None \<Rightarrow> s
      | Some d \<Rightarrow>
          (update_document (job_uri j) (move_result j) s)\<lparr>index := job_index j,
            files := (files s)(file_addr (doc_context d) \<mapsto> ctx_file (job_context j), file_addr (job_context j) := None),
            moved_texts := (moved_texts s)(file_addr (job_context j) :=
              inline_capacity < length (contents (ctx_file (job_context j))))\<rparr>)"

definition GetCursor :: "Server \<Rightarrow> string \<Rightarrow> Position \<Rightarrow> ScriptCursor result" where
  "GetCursor s u p =
     rbind (find_document s u) (\<lambda>d.
     FindPositionInScript (doc_script d) (LinePos (unat (position_line p)) (unat (position_character p))))"

section \<open>Messages to the client\<close>

definition reply_message :: "json \<Rightarrow> json \<Rightarrow> json" where
  "reply_message reply_to r = object_of [(''jsonrpc'', JString ''2.0''), (''id'', reply_to), (''result'', r)]"

definition reject_message :: "json \<Rightarrow> ResponseError \<Rightarrow> json" where
  "reject_message reply_to e = object_of
     [(''jsonrpc'', JString ''2.0''), (''id'', reply_to), (''result'', ResponseError_to_json e)]"

definition notification_message :: "64 word \<Rightarrow> string \<Rightarrow> json option \<Rightarrow> json" where
  "notification_message i meth params = object_of
     ([(''jsonrpc'', JString ''2.0''), (''id'', put_uint64 i), (''method'', JString meth)]
      @ (case params of None \<Rightarrow> [] | Some p \<Rightarrow> [(''params'', p)]))"

section \<open>Handlers\<close>

text \<open>
  Where a handler is when it gives control back: at its end; at an exception (or a failure that
  ends the process); waiting for the reparsing of a document; sending a message, with \<open>index_lock\<close>
  held in shared mode or not; or, with the lock released for a moment, between the lookup of the
  cursor and its use.
\<close>

datatype handler =
    Finished
  | Throws error
  | Reparses string
  | Sends json bool
  | HasCursor json bool ScriptCursor string

definition handler_of :: "handler result \<Rightarrow> handler" where
  "handler_of r = (case r of Inl e \<Rightarrow> Throws e | Inr h \<Rightarrow> h)"

definition capabilities :: json where
  "capabilities = object_of [(''capabilities'', object_of
     [(''referencesProvider'', JBool True),
      (''textDocumentSync'', object_of
         [(''openClose'', JBool True), (''change'', TextDocumentSyncKind_to_json SyncFull)]),
      (''definitionProvider'', JBool True)])]"

definition handle_initialize :: "Server \<Rightarrow> json \<Rightarrow> Server \<times> handler" where
  "handle_initialize s message =
     (case rbind (json_value ''params'' Inr (JObject []) message) (\<lambda>params.
             rbind (json_value ''initializationOptions'' Inr (JObject []) params) (\<lambda>opts.
             rbind (WorkspaceOptions_from_json opts) (\<lambda>opts. Inr (params, opts)))) of
        Inl e \<Rightarrow> (s, Throws e)
      | Inr (params, opts) \<Rightarrow>
          let s = s\<lparr>options := opts\<rparr> in
          (case json_value ''rootUri'' get_string '''' params of
             Inl e \<Rightarrow> (s, Throws e)
           | Inr u \<Rightarrow>
               (s\<lparr>rootUri := u\<rparr>, handler_of
                  (rbind (json_index ''id'' message) (\<lambda>i. Inr (Sends (reply_message i capabilities) False))))))"

text \<open>Changes of the configuration are ignored.\<close>

definition on_workspace_didchangeconfiguration :: "Server \<Rightarrow> json \<Rightarrow> Server" where
  "on_workspace_didchangeconfiguration s message = s"

declare on_workspace_didchangeconfiguration_def [simp]

definition on_textdocument_didopen :: "Server \<Rightarrow> json \<Rightarrow> Server \<times> handler" where
  "on_textdocument_didopen s message =
     (case rbind (json_at ''params'' message) DidOpenTextDocumentParams_from_json of
        Inl e \<Rightarrow> (s, Throws e)
      | Inr item \<Rightarrow> (emplace_document (item_uri item) item s, Reparses (item_uri item)))"

definition on_textdocument_didchange :: "Server \<Rightarrow> json \<Rightarrow> Server \<times> handler" where
  "on_textdocument_didchange s message =
     (case rbind (json_at ''params'' message) DidChangeTextDocumentParams_from_json of
        Inl e \<Rightarrow> (s, Throws e)
      | Inr params \<Rightarrow>
          let u = uri (change_document params); v = version (change_document params) in
          (case find_document s u of
             Inl e \<Rightarrow> (s, Throws e)
           | Inr d \<Rightarrow>
               if item_version (doc_item d) <s v \<and> length (contentChanges params) = 1
               then (update_document u (\<lambda>d. d\<lparr>doc_item := (doc_item d)\<lparr>
                       item_text := change_text (contentChanges params ! 0), item_version := v\<rparr>\<rparr>) s,
                     Reparses u)
               else (s, Finished)))"

text \<open>\<open>didClose\<close> takes the lock exclusively after it has read the message.\<close>

definition didclose_document :: "json \<Rightarrow> string result" where
  "didclose_document message =
     rbind (json_at ''params'' message) (\<lambda>p.
     rbind (DidCloseTextDocumentParams_from_json p) (\<lambda>d. Inr (uri d)))"

definition didclose_locked :: "Server \<Rightarrow> string \<Rightarrow> Server result" where
  "didclose_locked s u =
     rbind (find_document s u) (\<lambda>_. Inr (update_document u (\<lambda>d. d\<lparr>doc_state := CLOSED\<rparr>) s))"

subsection \<open>References and definitions\<close>

definition invalid_position :: ResponseError where
  "invalid_position = \<lparr>error_code = 101, error_message = ''Invalid position'', error_data = JNull\<rparr>"

text \<open>The first half of \<open>on_textdocument_references\<close> and \<open>on_textdocument_definition\<close>.\<close>

definition lookup_start :: "Server \<Rightarrow> json \<Rightarrow> bool \<Rightarrow> string \<Rightarrow> Position \<Rightarrow> handler" where
  "lookup_start s message only_definitions u p = handler_of
     (rbind (GetCursor s u p) (\<lambda>cursor.
      if cursor_call cursor = None \<or> cursor_word cursor = None
      then rbind (json_index ''id'' message) (\<lambda>i. Inr (Sends (reject_message i invalid_position) False))
      else Inr (HasCursor message only_definitions cursor u)))"

definition on_textdocument_references :: "Server \<Rightarrow> json \<Rightarrow> handler" where
  "on_textdocument_references s message =
     (case rbind (json_at ''params'' message) ReferencesParams_from_json of
        Inl e \<Rightarrow> Throws e
      | Inr params \<Rightarrow> lookup_start s message False (uri (textDocument params)) (position params))"

definition on_textdocument_definition :: "Server \<Rightarrow> json \<Rightarrow> handler" where
  "on_textdocument_definition s message =
     (case rbind (json_at ''params'' message) TextDocumentPositionParams_from_json of
        Inl e \<Rightarrow> Throws e
      | Inr params \<Rightarrow> lookup_start s message True (uri (textDocument params)) (position params))"

definition location_of :: "(addr \<rightharpoonup> SourceFile) \<Rightarrow> SourceLocation \<Rightarrow> Location result" where
  "location_of mem loc =
     (case mem (sourceFile loc) of
        None \<Rightarrow> Inl Undefined
      | Some f \<Rightarrow>
          let p = \<lparr>position_line = of_nat (loc_line loc), position_character = of_nat (loc_column loc)\<rparr>
          in Inr \<lparr>location_uri = fileName f, location_range = \<lparr>range_start = p, range_end = p\<rparr>\<rparr>)"

fun reference_locations ::
  "(addr \<rightharpoonup> SourceFile) \<Rightarrow> bool \<Rightarrow> Index \<Rightarrow> (nat \<times> nat) list \<Rightarrow> Location list result" where
  "reference_locations mem only_definitions ix [] = Inr []"
| "reference_locations mem only_definitions ix (kv # kvs) =
     rbind (nth_r (references (procs ix)) (snd kv)) (\<lambda>r.
     if only_definitions \<and> ref_type r \<noteq> DEFINITION
     then reference_locations mem only_definitions ix kvs
     else
       rbind (location_of mem (ref_location r)) (\<lambda>l.
       rbind (reference_locations mem only_definitions ix kvs) (\<lambda>ls.
       Inr (l # ls))))"

text \<open>
  The text of the word is read when the namespace of the call is found; nothing is read of an empty
  text.
\<close>

definition find_references ::
  "(addr \<rightharpoonup> SourceFile) \<Rightarrow> (Word \<Rightarrow> bool) \<Rightarrow> bool \<Rightarrow> Index \<Rightarrow> Call \<Rightarrow> nat \<Rightarrow> Word \<Rightarrow> (Location list \<times> Index) result" where
  "find_references mem live only_definitions ix call argument w =
     (if word_type w = TEXT \<and> argument = 0
      then
        rbind (FindNamespace ix (call_ns call)) (\<lambda>found.
        case found of
          None \<Rightarrow> Inr ([], ix)
        | Some nsp \<Rightarrow>
            rbind (check (word_str w = [] \<or> live w) Undefined) (\<lambda>_.
            rbind (FindProc ix nsp (word_str w)) (\<lambda>(found, ix).
            case BestFitProcToCall found call of
              None \<Rightarrow> Inr ([], ix)
            | Some p \<Rightarrow>
                rbind (reference_locations mem only_definitions ix
                         (mm_equal_range (proc_id p) (refsByID (procs ix)))) (\<lambda>ls.
                Inr (ls, ix)))))
      else Inr ([], ix))"

text \<open>
  The second half, with the lock held in shared mode: the pointers of the cursor must still be
  valid; the reply is sent with the lock held.
\<close>

definition lookup_finish :: "Server \<Rightarrow> json \<Rightarrow> bool \<Rightarrow> ScriptCursor \<Rightarrow> Server \<times> handler" where
  "lookup_finish s message only_definitions cursor =
     (case (cursor_call cursor, cursor_word cursor) of
        (Some call, Some w) \<Rightarrow>
          (case find_references (files s) (text_alive s) only_definitions (index s) call (cursor_argument cursor) w of
             Inl e \<Rightarrow> (s, Throws e)
           | Inr (ls, ix) \<Rightarrow>
               (s\<lparr>index := ix\<rparr>, handler_of
                  (rbind (json_index ''id'' message) (\<lambda>i.
                   Inr (Sends (reply_message i (JArray (map Location_to_json ls))) True)))))
      | _ \<Rightarrow> (s, Throws Undefined))"

section \<open>Dispatch\<close>

text \<open>
  What the dispatcher does with a message: nothing (or an operation that ends at once); start a
  handler, whose exceptions are only logged; wait until a reply is sent; take the lock for
  \<open>didClose\<close>; leave the loop. Its own exceptions end the loop too.
\<close>

datatype dispatched = Continues | Spawns handler | Replies json | Locks string | Breaks | Raises error

definition dispatch :: "Server \<Rightarrow> json \<Rightarrow> Server \<times> dispatched" where
  "dispatch s message =
     (case (if json_contains ''method'' message then json_index ''method'' message else Inl JsonError) of
        Inl e \<Rightarrow> (s, Continues)
      | Inr m \<Rightarrow>
          if m = JString ''initialize'' then
            (case handle_initialize s message of (s, h) \<Rightarrow> (s, Spawns h))
          else if m = JString ''initialized'' then (s, Continues)
          else if m = JString ''shutdown'' then
            (s, case json_index ''id'' message of Inl e \<Rightarrow> Raises e | Inr i \<Rightarrow> Replies (reply_message i JNull))
          else if m = JString ''exit'' then (s, Breaks)
          else if m = JString ''workspace/didChangeConfiguration'' then
            (on_workspace_didchangeconfiguration s message, Continues)
          else if m = JString ''textDocument/didOpen'' then
            (case on_textdocument_didopen s message of (s, h) \<Rightarrow> (s, Spawns h))
          else if m = JString ''textDocument/didChange'' then
            (case on_textdocument_didchange s message of (s, h) \<Rightarrow> (s, Spawns h))
          else if m = JString ''textDocument/didClose'' then
            (s, case didclose_document message of Inl e \<Rightarrow> Raises e | Inr u \<Rightarrow> Locks u)
          else if m = JString ''textDocument/references'' then (s, Spawns (on_textdocument_references s message))
          else if m = JString ''textDocument/definition'' then (s, Spawns (on_textdocument_definition s message))
          else (s, Continues))"

end
