(* ===== verification/Answers.thy ===== *)
theory Answers
  imports Server
begin

text \<open>
  The messages that the server sends in answer to a message: from the dispatcher, from a handler, or
  from the second half of a lookup.
\<close>

definition message_sent :: "dispatched \<Rightarrow> json option" where
  "message_sent d = (case d of Spawns (Sends r l) \<Rightarrow> Some r | Replies r \<Rightarrow> Some r | _ \<Rightarrow> None)"

lemma message_sent_Some: "message_sent d = Some r \<longleftrightarrow> (\<exists>l. d = Spawns (Sends r l)) \<or> d = Replies r"
  by (auto simp: message_sent_def split: dispatched.splits handler.splits)

lemma document_handlers_silent:
  "snd (on_textdocument_didopen s m) \<noteq> Sends r l" "snd (on_textdocument_didchange s m) \<noteq> Sends r l"
  by (auto simp: on_textdocument_didopen_def on_textdocument_didchange_def Let_def split: sum.splits)

lemma message_sent_simps [simp]:
  "message_sent Continues = None" "message_sent Breaks = None" "message_sent (Raises e) = None"
  "message_sent (Locks u) = None" "message_sent (Replies x) = Some x"
  "message_sent (Spawns h) = Some r \<longleftrightarrow> (\<exists>l. h = Sends r l)"
  by (auto simp: message_sent_def split: handler.split)

lemma dispatch_sends:
  "message_sent (snd (dispatch s m)) = Some r \<Longrightarrow>
   (\<exists>l. snd (handle_initialize s m) = Sends r l) \<or>
   (\<exists>i. json_index ''id'' m = Inr i \<and> r = reply_message i JNull) \<or>
   (\<exists>l. on_textdocument_references s m = Sends r l) \<or> (\<exists>l. on_textdocument_definition s m = Sends r l)"
  using document_handlers_silent [of s m r]
  by (auto simp: dispatch_def split_beta split: sum.splits if_splits)

text \<open>All answers that the server can give now satisfy \<open>Q\<close>.\<close>

definition sends_only :: "(json \<Rightarrow> bool) \<Rightarrow> Server \<Rightarrow> bool" where
  "sends_only Q s \<longleftrightarrow> (\<forall>m r. message_sent (snd (dispatch s m)) = Some r \<longrightarrow> Q r) \<and>
     (\<forall>m only cu r l. snd (lookup_finish s m only cu) = Sends r l \<longrightarrow> Q r)"

lemma sends_onlyD:
  "sends_only Q s \<Longrightarrow> dispatch s m = (s', d) \<Longrightarrow> message_sent d = Some r \<Longrightarrow> Q r"
  "sends_only Q s \<Longrightarrow> lookup_finish s m only cu = (s', Sends r l) \<Longrightarrow> Q r"
  unfolding sends_only_def by (metis snd_conv)+

lemma sends_only_True [simp]: "sends_only (\<lambda>_. True) s"
  by (simp add: sends_only_def)

text \<open>Answers without a location: to requests that ask for none, rejections, and empty results.\<close>

definition no_locations :: "json \<Rightarrow> bool" where
  "no_locations r \<longleftrightarrow> (\<exists>i. r = reply_message i JNull \<or> r = reply_message i capabilities \<or>
     r = reject_message i invalid_position \<or> r = reply_message i (JArray []))"

lemma no_locations_simps [simp]:
  "no_locations (reply_message i JNull)" "no_locations (reply_message i capabilities)"
  "no_locations (reject_message i invalid_position)" "no_locations (reply_message i (JArray []))"
  unfolding no_locations_def by blast+

lemma dispatch_no_locations: "message_sent (snd (dispatch s m)) = Some r \<Longrightarrow> no_locations r"
  by (auto dest!: dispatch_sends simp: handle_initialize_def on_textdocument_references_def
      on_textdocument_definition_def lookup_start_def handler_of_def rbind_def Let_def
      split: sum.splits if_splits)

end
