(* ===== verification/ProtocolProperties.thy ===== *)
theory ProtocolProperties
  imports Answers
begin

text \<open>
  The properties of the structures of the protocol and of the messages that the server sends.
\<close>

text \<open>C29: every structure of the protocol that is converted to JSON and back is the same, and so is a
  list of locations.\<close>

theorem protocol_roundtrip:
  "Position_from_json (Position_to_json pos) = Inr pos \<and>
   Range_from_json (Range_to_json rng) = Inr rng \<and>
   Location_from_json (Location_to_json loc) = Inr loc \<and>
   TextDocumentIdentifier_from_json (TextDocumentIdentifier_to_json di) = Inr di \<and>
   TextDocumentItem_from_json (TextDocumentItem_to_json item) = Inr item \<and>
   VersionedTextDocumentIdentifier_from_json (VersionedTextDocumentIdentifier_to_json vi) = Inr vi \<and>
   TextDocumentPositionParams_from_json (TextDocumentPositionParams_to_json pp) = Inr pp \<and>
   ResponseError_from_json (ResponseError_to_json err) = Inr err \<and>
   get_array Location_from_json (JArray (map Location_to_json locs)) = Inr locs"
  by (intro conjI) (rule pos.from_to rng.from_to locn.from_to doc_id.from_to doc_item.from_to
      versioned_id.from_to position_params.from_to response_error.from_to locn.array_from_to)+


section \<open>Replies\<close>

lemma object_ok_at: "json_ok j \<Longrightarrow> json_index k j = Inr v \<Longrightarrow> json_ok v"
  by (auto simp: json_index_def list_all_iff pred_prod_beta split: json.splits option.splits dest!: map_of_SomeD)

lemma json_at_index: "json_index k j = Inr v \<Longrightarrow> json_at k j = Inr v"
  by (auto simp: json_index_def json_at_def split: json.splits option.splits)

lemma ResponseError_ok: "json_ok (error_data e) \<Longrightarrow> json_ok (ResponseError_to_json e)"
  unfolding ResponseError_to_json_def by (rule object_of_ok) (simp add: int64.to_json_ok)

text \<open>A reply to a request: well-formed, for the version of the protocol and with the identifier of it.\<close>

definition answers :: "json \<Rightarrow> json \<Rightarrow> bool" where
  "answers m r \<longleftrightarrow> json_ok r \<and> json_at ''jsonrpc'' r = Inr (JString ''2.0'') \<and>
     json_at ''id'' r = json_at ''id'' m \<and> json_contains ''result'' r \<and> \<not> json_contains ''error'' r"

lemma reply_answers:
  assumes "json_index ''id'' m = Inr i" "json_ok m" "json_ok x"
  shows "answers m (reply_message i x)"
proof -
  have "json_ok (reply_message i x)"
    unfolding reply_message_def using object_ok_at [OF assms(2,1)] assms(3)
    by (intro object_of_ok) simp
  then show ?thesis
    using json_at_index [OF assms(1)]
    by (simp add: answers_def reply_message_def object_of_def json_contains_def json_at_def)
qed

lemma reject_is_reply: "reject_message i e = reply_message i (ResponseError_to_json e)"
  by (simp add: reject_message_def reply_message_def)

lemma capabilities_ok: "json_ok capabilities"
  by code_simp

lemma invalid_position_ok: "json_ok (ResponseError_to_json invalid_position)"
  by (rule ResponseError_ok) (simp add: invalid_position_def)

lemma initialize_answers:
  "json_ok m \<Longrightarrow> handle_initialize s m = (s', Sends r l) \<Longrightarrow> answers m r"
  by (auto simp: handle_initialize_def handler_of_def Let_def rbind_def intro!: reply_answers capabilities_ok
      split: sum.splits)

lemma lookup_start_answers:
  "json_ok m \<Longrightarrow> lookup_start s m only u p = Sends r l \<Longrightarrow> answers m r"
  by (auto simp: lookup_start_def handler_of_def rbind_def reject_is_reply intro: reply_answers invalid_position_ok
      split: sum.splits if_splits)

text \<open>The message that a dispatched message or a handler sends.\<close>

lemma references_answer:
  "json_ok m \<Longrightarrow> on_textdocument_references s m = Sends r l \<Longrightarrow> answers m r"
  "json_ok m \<Longrightarrow> on_textdocument_definition s m = Sends r l \<Longrightarrow> answers m r"
  by (auto simp: on_textdocument_references_def on_textdocument_definition_def dest: lookup_start_answers
      split: sum.splits)

lemma sent_answers:
  assumes "json_ok m"
    and "message_sent (snd (dispatch s m)) = Some r \<or> snd (lookup_finish s m only cu) = Sends r l"
  shows "answers m r"
  using assms(2)
proof
  assume "message_sent (snd (dispatch s m)) = Some r"
  then show ?thesis
    using initialize_answers [OF assms(1)] references_answer [OF assms(1)] reply_answers [OF _ assms(1), of _ JNull]
    by (auto dest!: dispatch_sends simp: prod_eq_iff)
next
  assume "snd (lookup_finish s m only cu) = Sends r l"
  then show ?thesis
    using assms(1) locn.array_ok
    by (auto simp: lookup_finish_def handler_of_def rbind_def intro!: reply_answers
        split: sum.splits option.splits simp del: json_ok.simps)
qed

text \<open>C28: whatever is sent in answer to a well-formed message is a well-formed object with the version
  of the protocol and the identifier of the request. Every answer has a result and none has an
  error: the rejection of an invalid position is sent as the result.\<close>

theorem replies_well_formed:
  assumes "json_ok m"
    and "message_sent (snd (dispatch s m)) = Some r \<or> snd (lookup_finish s m only cu) = Sends r l"
  shows "json_ok r \<and> json_at ''jsonrpc'' r = Inr (JString ''2.0'') \<and> json_at ''id'' r = json_at ''id'' m \<and>
    json_contains ''result'' r \<and> \<not> json_contains ''error'' r"
  using sent_answers [OF assms] by (simp add: answers_def)

definition shutdown_message :: json where
  "shutdown_message = object_of [(''id'', JInt 7), (''method'', JString ''shutdown'')]"

theorem replies_well_formed_witness:
  "json_at ''id'' (reply_message (JInt 7) JNull) = Inr (JInt 7) \<and>
   \<not> json_contains ''error'' (reply_message (JInt 7) JNull)"
proof -
  have ok: "json_ok shutdown_message" by code_simp
  have sent: "message_sent (snd (dispatch new_Server shutdown_message)) = Some (reply_message (JInt 7) JNull)"
    by (simp add: dispatch_def shutdown_message_def object_of_def json_contains_def json_index_def message_sent_def)
  have "json_at ''id'' shutdown_message = Inr (JInt 7)"
    by (simp add: shutdown_message_def object_of_def json_at_def)
  with replies_well_formed [OF ok disjI1 [OF sent]] show ?thesis by simp
qed

end
