(* ===== verification/Transitions.thy ===== *)
theory Transitions
  imports Prelude
begin

text \<open>
  Runs of a step relation, and the two contracts that the invariants and the measures of a system
  fulfil: a property that every step keeps, and a rank that every step decreases.
\<close>

inductive exec :: "('s \<Rightarrow> 's \<Rightarrow> bool) \<Rightarrow> nat \<Rightarrow> 's \<Rightarrow> 's \<Rightarrow> bool" for R :: "'s \<Rightarrow> 's \<Rightarrow> bool" where
  run_refl: "exec R 0 c c"
| run_step: "exec R n c c' \<Longrightarrow> R c' c'' \<Longrightarrow> exec R (Suc n) c c''"

lemma run_trans: "exec R k b c \<Longrightarrow> exec R n a b \<Longrightarrow> exec R (n + k) a c"
  by (induction rule: exec.induct) (auto intro: run_step)

lemma run_first: "R a b \<Longrightarrow> exec R k b c \<Longrightarrow> exec R (Suc k) a c"
  using run_trans [of R k b c "Suc 0" a] by (auto intro: exec.intros)

locale preserved =
  fixes R :: "'s \<Rightarrow> 's \<Rightarrow> bool" and P :: "'s \<Rightarrow> bool"
  assumes step_keeps: "R c c' \<Longrightarrow> P c \<Longrightarrow> P c'"
begin

lemma run_keeps: "exec R n c c' \<Longrightarrow> P c \<Longrightarrow> P c'"
  by (induction rule: exec.induct) (auto intro: step_keeps)

end

locale ranked =
  fixes R :: "'s \<Rightarrow> 's \<Rightarrow> bool" and rank :: "'s \<Rightarrow> nat"
  assumes rank_less: "R c c' \<Longrightarrow> rank c' < rank c"
begin

lemma run_bound: "exec R n c c' \<Longrightarrow> n + rank c' \<le> rank c"
proof (induction rule: exec.induct)
  case (run_step n c c' c'')
  with rank_less [OF run_step(2)] show ?case by simp
qed simp

lemma run_ends: "\<exists>n c'. exec R n c c' \<and> (\<forall>c''. \<not> R c' c'')"
proof (induction "rank c" arbitrary: c rule: less_induct)
  case less
  show ?case
  proof (cases "\<exists>c1. R c c1")
    case True
    then obtain c1 where c1: "R c c1" by blast
    with less rank_less [OF c1] obtain n c' where c': "exec R n c1 c'" "\<forall>c''. \<not> R c' c''" by blast
    from run_first [OF c1 c'(1)] c'(2) show ?thesis by blast
  qed (auto intro: run_refl)
qed

end

end
