(* ===== verification/ServerRun.thy ===== *)
theory ServerRun
  imports Server CommsCorrect Transitions
begin

text \<open>
  The running server (\<open>src/src/server.cpp\<close>): the main thread executes the dispatcher and the
  handlers one at a time, each up to the point where it waits; documents are parsed one after the
  other on the strand \<open>index_queue\<close> by background threads. A step of the relation is one such turn.
  The bytes of the input are read as in \<open>Comms\<close>; the messages that they hold are the inbox.
\<close>

section \<open>Configurations\<close>

text \<open>
  What the main thread is doing: nothing (it can run whatever is ready); a handler is between
  \<open>GetCursor\<close> and its lock (with the number of times the document had been parsed); the
  dispatcher waits for its own reply to be sent; it is blocked in the exclusive lock of \<open>didClose\<close>;
  the dispatcher has left its loop; the process is dead.
\<close>

datatype main_state =
    Ready
  | AtCursor json bool ScriptCursor string nat
  | AwaitsReply
  | Locking string
  | Stopped
  | Crashed error

text \<open>
  \<open>sending\<close> is the message being written, if any: whether its sender holds \<open>index_lock\<close>, and whether
  it is the dispatcher. The jobs of the strand that have not begun are \<open>jobs\<close>, the one that has
  read its document and not yet committed is \<open>running\<close>.
\<close>

record config =
  server :: Server
  inbox :: "json list"
  out :: out_stream
  sending :: "(bool \<times> bool) option"
  jobs :: "string list"
  running :: "job option"
  main_state :: main_state

definition initial :: "json list \<Rightarrow> config" where
  "initial messages = \<lparr>server = new_Server, inbox = messages, out = no_output, sending = None,
     jobs = [], running = None, main_state = Ready\<rparr>"

definition lock_held :: "config \<Rightarrow> bool" where
  "lock_held c \<longleftrightarrow> (case sending c of Some (locked, _) \<Rightarrow> locked | None \<Rightarrow> False)"

section \<open>Turns of the main thread\<close>

definition send :: "(json \<Rightarrow> string) \<Rightarrow> json \<Rightarrow> bool \<Rightarrow> bool \<Rightarrow> config \<Rightarrow> config" where
  "send dump message locked dispatcher c =
     (case start_send (dump message) (out c) of
        Inl e \<Rightarrow> c\<lparr>main_state := Crashed e\<rparr>
      | Inr o1 \<Rightarrow> c\<lparr>out := o1, sending := Some (locked, dispatcher),
          main_state := if dispatcher then AwaitsReply else main_state c\<rparr>)"

text \<open>\<open>handle_unexpected_exception\<close> logs an exception of a handler.\<close>

definition run_handler :: "(json \<Rightarrow> string) \<Rightarrow> handler \<Rightarrow> config \<Rightarrow> config" where
  "run_handler dump h c =
     (case h of
        Finished \<Rightarrow> c
      | Throws e \<Rightarrow> (if is_exception e then c else c\<lparr>main_state := Crashed e\<rparr>)
      | Reparses u \<Rightarrow> c\<lparr>jobs := jobs c @ [u]\<rparr>
      | Sends m locked \<Rightarrow> send dump m locked False c
      | HasCursor m only cursor u \<Rightarrow>
          c\<lparr>main_state := AtCursor m only cursor u
             (case documents (server c) u of Some d \<Rightarrow> doc_parses d | None \<Rightarrow> 0)\<rparr>)"

definition raised :: "error \<Rightarrow> config \<Rightarrow> config" where
  "raised e c = c\<lparr>main_state := if is_exception e then Stopped else Crashed e\<rparr>"

definition dispatch_turn :: "(json \<Rightarrow> string) \<Rightarrow> json \<Rightarrow> config \<Rightarrow> config" where
  "dispatch_turn dump m c =
     (case dispatch (server c) m of
        (s, d) \<Rightarrow>
          let c = c\<lparr>server := s\<rparr> in
          (case d of
             Continues \<Rightarrow> c
           | Spawns h \<Rightarrow> run_handler dump h c
           | Replies r \<Rightarrow> send dump r False True c
           | Locks u \<Rightarrow> c\<lparr>main_state := Locking u\<rparr>
           | Breaks \<Rightarrow> c\<lparr>main_state := Stopped\<rparr>
           | Raises e \<Rightarrow> raised e c))"

text \<open>A handler goes on after its cursor; a pointer into a script that was replaced is dangling.\<close>

definition lookup_turn :: "(json \<Rightarrow> string) \<Rightarrow> json \<Rightarrow> bool \<Rightarrow> ScriptCursor \<Rightarrow> string \<Rightarrow> nat \<Rightarrow> config \<Rightarrow> config" where
  "lookup_turn dump m only cursor u n c =
     (if (case documents (server c) u of Some d \<Rightarrow> doc_parses d | None \<Rightarrow> 0) \<noteq> n
      then c\<lparr>main_state := Crashed Undefined\<rparr>
      else
        (case lookup_finish (server c) m only cursor of
           (s, h) \<Rightarrow> run_handler dump h (c\<lparr>server := s, main_state := Ready\<rparr>)))"

definition close_turn :: "string \<Rightarrow> config \<Rightarrow> config" where
  "close_turn u c =
     (case didclose_locked (server c) u of
        Inl e \<Rightarrow> raised e c
      | Inr s \<Rightarrow> c\<lparr>server := s, main_state := Ready\<rparr>)"

definition written_turn :: "config \<Rightarrow> config" where
  "written_turn c = c\<lparr>out := finish_send (out c), sending := None,
     main_state := if main_state c = AwaitsReply then Ready else main_state c\<rparr>"

text \<open>
  The exception of a failed write is logged if a handler sends, and ends the loop if the dispatcher
  does. When the loop has ended, its local variable \<open>out\<close> is gone, which cancels the write of a
  handler.
\<close>

definition failed_turn :: "nat \<Rightarrow> config \<Rightarrow> config" where
  "failed_turn k c = c\<lparr>out := fail_send k (out c), sending := None,
     main_state := if main_state c = AwaitsReply then Stopped else main_state c\<rparr>"

section \<open>Turns of the strand\<close>

definition start_turn :: "tcl \<Rightarrow> string \<Rightarrow> string list \<Rightarrow> config \<Rightarrow> config" where
  "start_turn T u us c =
     (case reparse_start T u (server c) of
        Inl e \<Rightarrow> (if is_exception e then c\<lparr>jobs := us\<rparr> else c\<lparr>main_state := Crashed e\<rparr>)
      | Inr (j, s) \<Rightarrow> c\<lparr>server := s, jobs := us, running := Some j\<rparr>)"

definition commit_turn :: "job \<Rightarrow> config \<Rightarrow> config" where
  "commit_turn j c = c\<lparr>server := reparse_commit j (server c), running := None\<rparr>"

section \<open>The step relation\<close>

abbreviation alive :: "config \<Rightarrow> bool" where
  "alive c \<equiv> \<forall>e. main_state c \<noteq> Crashed e"

inductive step :: "tcl \<Rightarrow> (json \<Rightarrow> string) \<Rightarrow> config \<Rightarrow> config \<Rightarrow> bool"
  for T :: tcl and dump :: "json \<Rightarrow> string"
where
  receive: "main_state c = Ready \<Longrightarrow> inbox c = m # ms \<Longrightarrow>
    step T dump c (dispatch_turn dump m (c\<lparr>inbox := ms\<rparr>))"
| end_of_input: "main_state c = Ready \<Longrightarrow> inbox c = [] \<Longrightarrow>
    step T dump c (c\<lparr>main_state := Stopped\<rparr>)"
| resume_lookup: "main_state c = AtCursor m only cursor u n \<Longrightarrow>
    step T dump c (lookup_turn dump m only cursor u n c)"
| take_lock: "main_state c = Locking u \<Longrightarrow> \<not> lock_held c \<Longrightarrow>
    step T dump c (close_turn u c)"
| message_written: "main_state c \<in> {Ready, AwaitsReply, Stopped} \<Longrightarrow> sending c \<noteq> None \<Longrightarrow>
    step T dump c (written_turn c)"
| write_fails: "main_state c \<in> {Ready, AwaitsReply, Stopped} \<Longrightarrow> sending c \<noteq> None \<Longrightarrow>
    k < length (stream_buf (out c)) \<Longrightarrow> step T dump c (failed_turn k c)"
| start_job: "alive c \<Longrightarrow> running c = None \<Longrightarrow> jobs c = u # us \<Longrightarrow>
    step T dump c (start_turn T u us c)"
| commit_job: "alive c \<Longrightarrow> running c = Some j \<Longrightarrow> \<not> lock_held c \<Longrightarrow>
    step T dump c (commit_turn j c)"

abbreviation steps :: "tcl \<Rightarrow> (json \<Rightarrow> string) \<Rightarrow> nat \<Rightarrow> config \<Rightarrow> config \<Rightarrow> bool" where
  "steps T dump \<equiv> exec (step T dump)"

definition reachable :: "tcl \<Rightarrow> (json \<Rightarrow> string) \<Rightarrow> json list \<Rightarrow> config \<Rightarrow> bool" where
  "reachable T dump messages c \<longleftrightarrow> (\<exists>n. steps T dump n (initial messages) c)"

text \<open>
  The server over the bytes of its input, which arrive in pieces: its inbox holds the messages that
  the reader yields before the input ends or fails.
\<close>

definition serve :: "(string \<Rightarrow> json option) \<Rightarrow> string list \<Rightarrow> config" where
  "serve parse pieces = initial (read_all parse [] pieces)"

end
