(* ===== verification/ServerTermination.thy ===== *)
theory ServerTermination
  imports ServerRun
begin

text \<open>
  Every run of the server is finite; where it can end.
\<close>

inductive_cases stepE: "step T dump c c'"

text \<open>A property of the first configuration that every step keeps holds in all reachable ones.\<close>

lemma reachable_induct:
  assumes "preserved (step T dump) P" "reachable T dump messages c" "P (initial messages)"
  shows "P c"
  using assms(2,3) preserved.run_keeps [OF assms(1)] by (auto simp: reachable_def)

section \<open>What the turns do to a configuration\<close>

text \<open>The jobs that a dispatched message adds.\<close>

definition new_jobs :: "dispatched \<Rightarrow> string list" where
  "new_jobs d = (case d of Spawns (Reparses u) \<Rightarrow> [u] | _ \<Rightarrow> [])"

lemma new_jobs_simps [simp]:
  "new_jobs (Spawns (Reparses u)) = [u]" "new_jobs (Spawns (Throws e)) = []" "new_jobs (Spawns Finished) = []"
  "new_jobs Continues = []" "new_jobs Breaks = []" "new_jobs (Raises e) = []" "new_jobs (Locks u) = []"
  "new_jobs (Replies r) = []"
  by (simp_all add: new_jobs_def)

lemma new_jobs_Spawns: "\<forall>u. h \<noteq> Reparses u \<Longrightarrow> new_jobs (Spawns h) = []"
  by (cases h) (simp_all add: new_jobs_def)

lemma send_fields [simp]:
  "server (send dump m l b c) = server c" "jobs (send dump m l b c) = jobs c"
  "running (send dump m l b c) = running c" "inbox (send dump m l b c) = inbox c"
  by (simp_all add: send_def split: sum.split)

lemma run_handler_fields [simp]:
  "server (run_handler dump h c) = server c" "jobs (run_handler dump h c) = jobs c @ new_jobs (Spawns h)"
  "running (run_handler dump h c) = running c" "inbox (run_handler dump h c) = inbox c"
  by (cases h; simp add: run_handler_def new_jobs_def)+

lemma dispatch_turn_fields:
  assumes "dispatch (server c) m = (s, d)"
  shows "server (dispatch_turn dump m c) = s" "jobs (dispatch_turn dump m c) = jobs c @ new_jobs d"
    "running (dispatch_turn dump m c) = running c" "inbox (dispatch_turn dump m c) = inbox c"
  using assms by (cases d; simp add: dispatch_turn_def raised_def)+

lemma send_cases:
  obtains e where "send dump m locked disp c = c\<lparr>main_state := Crashed e\<rparr>"
  | o1 where "send dump m locked disp c = c\<lparr>out := o1, sending := Some (locked, disp),
      main_state := if disp then AwaitsReply else main_state c\<rparr>"
  by (cases "start_send (dump m) (out c)") (auto simp: send_def)

lemma send_state:
  "main_state (send dump r l b c) = AtCursor m only cu u n \<Longrightarrow> main_state c = AtCursor m only cu u n"
  by (rule send_cases [of dump r l b c]) (auto split: if_splits)

definition state_weight :: "main_state \<Rightarrow> nat" where
  "state_weight st = 
     (case st of Crashed _ \<Rightarrow> 0 | Stopped \<Rightarrow> 1 | Ready \<Rightarrow> 2 | AwaitsReply \<Rightarrow> 2 | Locking _ \<Rightarrow> 3 | AtCursor _ _ _ _ _ \<Rightarrow> 4)"

lemma state_weight_simps [simp]:
  "state_weight Ready = 2" "state_weight AwaitsReply = 2" "state_weight (Locking u) = 3"
  "state_weight (AtCursor m b cu u n) = 4" "state_weight Stopped = 1" "state_weight (Crashed e) = 0"
  by (simp_all add: state_weight_def)

lemma alive_weight: "alive c \<Longrightarrow> 0 < state_weight (main_state c)"
  by (cases "main_state c") simp_all

text \<open>An upper bound of the number of steps that are left.\<close>

definition weight :: "config \<Rightarrow> nat" where
  "weight c = 3 * length (inbox c) + 2 * length (jobs c) + (if running c = None then 0 else 1)
     + (if sending c = None then 0 else 1) + state_weight (main_state c)"

lemma send_weight:
  "main_state c = Ready \<Longrightarrow> weight (send dump m locked disp c) \<le> weight c + 1"
  by (rule send_cases [of dump m locked disp c]) (auto simp: weight_def)

lemma run_handler_weight:
  "main_state c = Ready \<Longrightarrow> weight (run_handler dump h c) \<le> weight c + 2"
proof (cases h)
  case (Sends m locked)
  moreover assume "main_state c = Ready"
  ultimately show ?thesis using send_weight [of c dump m locked False] by (simp add: run_handler_def)
qed (auto simp: run_handler_def weight_def)

lemma weight_server [simp]: "weight (c\<lparr>server := s\<rparr>) = weight c"
  by (simp add: weight_def)

lemma raised_weight: "main_state c = Ready \<Longrightarrow> weight (raised e c) \<le> weight c"
  by (simp add: raised_def weight_def)

lemma dispatch_turn_weight:
  assumes "main_state c = Ready"
  shows "weight (dispatch_turn dump m c) \<le> weight c + 2"
proof -
  obtain s d where d: "dispatch (server c) m = (s, d)" by (metis surj_pair)
  let ?c = "c\<lparr>server := s\<rparr>"
  have ready: "main_state ?c = Ready" using assms by simp
  show ?thesis
  proof (cases d)
    case (Spawns h)
    with d run_handler_weight [OF ready, of dump h] show ?thesis by (simp add: dispatch_turn_def)
  next
    case (Replies r)
    with d send_weight [OF ready, of dump r False True] show ?thesis by (simp add: dispatch_turn_def)
  next
    case (Raises e)
    with d raised_weight [OF ready, of e] show ?thesis by (simp add: dispatch_turn_def)
  qed (use d assms in \<open>simp_all add: dispatch_turn_def weight_def\<close>)
qed

lemma lookup_turn_weight:
  assumes "main_state c = AtCursor m only cursor u n"
  shows "weight (lookup_turn dump m only cursor u n c) < weight c"
proof -
  obtain s h where h: "lookup_finish (server c) m only cursor = (s, h)" by (metis surj_pair)
  have w: "weight (c\<lparr>server := s, main_state := Ready\<rparr>) + 2 = weight c" using assms by (simp add: weight_def)
  have "weight (run_handler dump h (c\<lparr>server := s, main_state := Ready\<rparr>)) < weight c"
  proof (cases h)
    case (HasCursor m' only' cursor' u')
    then show ?thesis using h by (auto simp: lookup_finish_def handler_of_def rbind_def split: option.splits sum.splits)
  next
    case (Reparses u')
    then show ?thesis using h by (auto simp: lookup_finish_def handler_of_def rbind_def split: option.splits sum.splits)
  next
    case (Sends m' l)
    with w send_weight [of "c\<lparr>server := s, main_state := Ready\<rparr>" dump m' l False]
    show ?thesis by (simp add: run_handler_def)
  qed (use w in \<open>auto simp: run_handler_def weight_def\<close>)
  then show ?thesis using assms by (auto simp: lookup_turn_def h weight_def)
qed

lemma close_turn_weight: "main_state c = Locking u \<Longrightarrow> weight (close_turn u c) < weight c"
  by (auto simp: close_turn_def raised_def weight_def split: sum.split)

lemma written_turn_weight: "sending c \<noteq> None \<Longrightarrow> weight (written_turn c) < weight c"
  by (cases "main_state c") (auto simp: written_turn_def weight_def)

lemma start_turn_weight:
  "alive c \<Longrightarrow> running c = None \<Longrightarrow> jobs c = u # us \<Longrightarrow> weight (start_turn T u us c) < weight c"
  using alive_weight [of c] by (auto simp: start_turn_def weight_def split: sum.split)

lemma failed_turn_weight: "sending c \<noteq> None \<Longrightarrow> weight (failed_turn k c) < weight c"
  by (cases "main_state c") (auto simp: failed_turn_def weight_def)

lemma commit_turn_weight: "running c = Some j \<Longrightarrow> weight (commit_turn j c) < weight c"
  by (simp add: commit_turn_def weight_def)

lemma step_weight: "step T dump c c' \<Longrightarrow> weight c' < weight c"
proof (induction rule: step.induct)
  case (receive c m ms)
  have "weight (dispatch_turn dump m (c\<lparr>inbox := ms\<rparr>)) \<le> weight (c\<lparr>inbox := ms\<rparr>) + 2"
    by (rule dispatch_turn_weight) (simp add: receive)
  then show ?case using receive by (simp add: weight_def)
next
  case (end_of_input c)
  then show ?case by (simp add: weight_def)
qed (simp_all add: lookup_turn_weight close_turn_weight written_turn_weight failed_turn_weight start_turn_weight commit_turn_weight)

interpretation server_rank: ranked "step T dump" weight for T dump
  by unfold_locales (rule step_weight)

lemma weight_initial: "weight (initial messages) = 3 * length messages + 2"
  by (simp add: weight_def initial_def)

section \<open>Where a run can end\<close>

definition finished :: "config \<Rightarrow> bool" where
  "finished c \<longleftrightarrow> main_state c = Stopped \<and> sending c = None \<and> running c = None \<and> jobs c = []"

definition deadlocked :: "config \<Rightarrow> bool" where
  "deadlocked c \<longleftrightarrow> (\<exists>u. main_state c = Locking u) \<and> lock_held c"

definition waiting_ok :: "config \<Rightarrow> bool" where
  "waiting_ok c \<longleftrightarrow> (main_state c = AwaitsReply \<longrightarrow> sending c \<noteq> None)"

lemma send_waiting: "waiting_ok c \<Longrightarrow> waiting_ok (send dump m locked disp c)"
  by (rule send_cases [of dump m locked disp c]) (auto simp: waiting_ok_def)

lemma run_handler_waiting: "waiting_ok c \<Longrightarrow> waiting_ok (run_handler dump h c)"
  using send_waiting [of c dump _ _ False]
  by (cases h) (simp_all add: run_handler_def, simp_all add: waiting_ok_def)

lemma waiting_ok_server [simp]: "waiting_ok (c\<lparr>server := s\<rparr>) = waiting_ok c"
  by (simp add: waiting_ok_def)

lemma step_waiting: "step T dump c c' \<Longrightarrow> waiting_ok c \<Longrightarrow> waiting_ok c'"
proof (induction rule: step.induct)
  case (receive c m ms)
  obtain s d where d: "dispatch (server c) m = (s, d)" by (metis surj_pair)
  have ok: "waiting_ok (c\<lparr>inbox := ms, server := s\<rparr>)" using receive by (simp add: waiting_ok_def)
  show ?case
  proof (cases d)
    case (Spawns h)
    with d run_handler_waiting [OF ok] show ?thesis by (simp add: dispatch_turn_def)
  next
    case (Replies r)
    with d send_waiting [OF ok] show ?thesis by (simp add: dispatch_turn_def)
  qed (use d ok in \<open>simp_all add: dispatch_turn_def waiting_ok_def raised_def\<close>)
next
  case (resume_lookup c m only cursor u n)
  obtain s h where h: "lookup_finish (server c) m only cursor = (s, h)" by (metis surj_pair)
  have "waiting_ok (c\<lparr>server := s, main_state := Ready\<rparr>)" by (simp add: waiting_ok_def)
  then show ?case using run_handler_waiting by (auto simp: lookup_turn_def h) (simp_all add: waiting_ok_def)
qed (auto simp: waiting_ok_def close_turn_def raised_def written_turn_def failed_turn_def start_turn_def
    commit_turn_def split: sum.splits)

interpretation waiting: preserved "step T dump" waiting_ok for T dump
  by unfold_locales (rule step_waiting)

lemma reachable_waiting: "reachable T dump messages c \<Longrightarrow> waiting_ok c"
  by (erule reachable_induct [OF waiting.preserved_axioms]) (simp add: waiting_ok_def initial_def)

lemma no_step_cases:
  assumes "\<And>c'. \<not> step T dump c c'" "waiting_ok c"
  shows "finished c \<or> deadlocked c \<or> (\<exists>e. main_state c = Crashed e)"
proof (cases "main_state c")
  case Ready
  then show ?thesis
    using assms(1) receive [of c _ _ T dump] end_of_input [of c T dump] by (cases "inbox c") blast+
next
  case (AtCursor m only cursor u n)
  then show ?thesis using assms(1) resume_lookup [of c m only cursor u n T dump] by blast
next
  case AwaitsReply
  then show ?thesis using assms message_written [of c T dump] by (auto simp: waiting_ok_def)
next
  case (Locking u)
  then show ?thesis using assms(1) take_lock [of c u T dump] by (auto simp: deadlocked_def)
next
  case Stopped
  then have sending: "sending c = None" using assms(1) message_written [of c T dump] by blast
  then have "\<not> lock_held c" by (simp add: lock_held_def)
  then have running: "running c = None"
    using assms(1) commit_job [of c _ T dump] Stopped by (cases "running c") auto
  then have "jobs c = []"
    using assms(1) start_job [of c _ _ T dump] Stopped by (cases "jobs c") auto
  with Stopped sending running show ?thesis by (simp add: finished_def)
next
  case (Crashed e)
  then show ?thesis by blast
qed

end
