(* ===== verification/ServerCorrect.thy ===== *)
theory ServerCorrect
  imports ServerTermination AnalyzerCorrect
begin

text \<open>
  The invariant of the running server, for clients whose documents the indexer is safe on: what is
  known of its documents, its index, the job that is running and the memory of the files.
\<close>

section \<open>Safe texts\<close>

definition file_context :: "string \<Rightarrow> string \<Rightarrow> addr \<Rightarrow> ParseContext" where
  "file_context u t a = \<lparr>ctx_file = make_source_file u t, file_addr = a, cur_ns = []\<rparr>"

text \<open>
  Tcl's parser behaves as documented on the text, and the calls of the tree have plain names and
  proper formal arguments.
\<close>

definition safe_text :: "tcl \<Rightarrow> string \<Rightarrow> string \<Rightarrow> bool" where
  "safe_text T u t \<longleftrightarrow> tcl_documented T t \<and>
     (\<forall>a s ctx. parse_file T (file_context u t a) = Inr (s, ctx) \<longrightarrow> list_all call_ok (calls_in_script s))"

text \<open>
  The texts that a message brings are safe, and reading it does not cast a double that is out of
  range.
\<close>

definition message_safe :: "tcl \<Rightarrow> json \<Rightarrow> bool" where
  "message_safe T m \<longleftrightarrow>
     (case rbind (json_at ''params'' m) DidOpenTextDocumentParams_from_json of
        Inl e \<Rightarrow> is_exception e | Inr item \<Rightarrow> safe_text T (item_uri item) (item_text item)) \<and>
     (case rbind (json_at ''params'' m) DidChangeTextDocumentParams_from_json of
        Inl e \<Rightarrow> is_exception e
      | Inr p \<Rightarrow> list_all (\<lambda>e. safe_text T (uri (change_document p)) (change_text e)) (contentChanges p))"

section \<open>Lookups and the index\<close>

lemma FindProc_plain:
  assumes "FindProc ix cur cmd = Inr r"
  shows "plain cmd"
proof (rule ccontr)
  assume "\<not> plain cmd"
  then have "absolute (spec_split cmd)" "NamespaceParts (spec_split cmd) = Inl OutOfRange"
    using NamespaceParts_absolute_short [OF SplitName_spec [of cmd]] by (simp_all add: plain_def)
  then show False
    using assms by (simp add: FindProc_def SplitName_spec ResolveNamespace_def)
qed

text \<open>What a lookup leaves as it is, although it may add namespaces.\<close>

definition same_content :: "Index \<Rightarrow> Index \<Rightarrow> bool" where
  "same_content ix ix' \<longleftrightarrow> procs ix' = procs ix \<and>
     view_procs (view_of ix') = view_procs (view_of ix) \<and> view_refs (view_of ix') = view_refs (view_of ix)"

lemma FindProc_content:
  assumes "index_ok ix" "ns_valid ix cur" "FindProc ix cur cmd = Inr (ps, ix')"
  shows "index_ok ix' \<and> same_content ix ix'"
proof -
  have "returns (FindProc ix cur cmd) (\<lambda>(ps, ix'). index_ok ix' \<and> grows ix ix' \<and>
      procs ix' = procs ix \<and> set ps \<subseteq> set (table (procs ix)) \<and>
      (map (proc_view ix') ps, view_of ix') = spec_find (spec_split cmd) (ns_path ix cur) (view_of ix))"
    by (rule FindProc_returns [OF assms(1,2) FindProc_plain [OF assms(3)]])
  then have r: "index_ok ix'" "procs ix' = procs ix"
    "(map (proc_view ix') ps, view_of ix') = spec_find (spec_split cmd) (ns_path ix cur) (view_of ix)"
    by (simp_all add: assms(3))
  from r(3) have "view_of ix' = snd (spec_find (spec_split cmd) (ns_path ix cur) (view_of ix))"
    by (metis snd_conv)
  with r show ?thesis using spec_find_view by (simp add: same_content_def)
qed

lemma FindNamespace_valid:
  assumes "tree_ok ix" "FindNamespace ix n = Inr (Some i)"
  shows "ns_valid ix i"
proof -
  from assms(2) obtain qn parts where "SplitName n = Inr qn" "absolute qn" "Parts qn = Inr parts"
    "FindNamespace_loop ix parts (global_namespace_id ix) = Inr (Some i)"
    by (auto simp: FindNamespace_def rbind_Inr_iff)
  with assms(1) tree_okD(2) [OF assms(1)] show ?thesis
    by (auto simp: FindNamespace_loop_eq ns_lookup_Some)
qed

lemma find_references_content:
  assumes "index_ok ix" "find_references mem live only ix call arg w = Inr (ls, ix')"
  shows "index_ok ix' \<and> same_content ix ix'"
proof (cases "word_type w = TEXT \<and> arg = 0")
  case True
  with assms(2) obtain found where f: "FindNamespace ix (call_ns call) = Inr found"
    by (auto simp: find_references_def rbind_Inr_iff)
  show ?thesis
  proof (cases found)
    case None
    with True assms f show ?thesis by (simp add: find_references_def same_content_def)
  next
    case (Some i)
    with True assms(2) f obtain ps where "FindProc ix i (word_str w) = Inr (ps, ix')"
      by (auto simp: find_references_def rbind_Inr_iff split: option.splits)
    then show ?thesis
      using FindProc_content [OF assms(1)] FindNamespace_valid [of ix "call_ns call" i] assms(1) f Some by simp
  qed
qed (use assms in \<open>auto simp: find_references_def same_content_def\<close>)

section \<open>The invariant\<close>

definition parse_of :: "tcl \<Rightarrow> TextDocumentItem \<Rightarrow> Script \<Rightarrow> bool" where
  "parse_of T item s \<longleftrightarrow>
     (\<exists>a ctx. parse_file T (file_context (item_uri item) (item_text item) a) = Inr (s, ctx))"

text \<open>A word of a document: the object it was read in is gone, its text was moved if it is long.\<close>

definition moved_word :: "Server \<Rightarrow> nat \<Rightarrow> Word \<Rightarrow> bool" where
  "moved_word s n w \<longleftrightarrow> (let a = sourceFile (word_location w) in
     a < next_addr s \<and> files s a = None \<and> (moved_texts s a \<longleftrightarrow> inline_capacity < n))"

definition doc_ok :: "tcl \<Rightarrow> Server \<Rightarrow> string \<Rightarrow> Document \<Rightarrow> bool" where
  "doc_ok T s u d \<longleftrightarrow> item_uri (doc_item d) = u \<and> safe_text T u (item_text (doc_item d)) \<and>
     file_addr (doc_context d) < next_addr s \<and> files s (file_addr (doc_context d)) \<noteq> None \<and>
     list_all shaped (words_in_script (doc_script d)) \<and>
     list_all (moved_word s (length (contents (ctx_file (doc_context d))))) (words_in_script (doc_script d))"

lemma doc_ok_mono:
  assumes "doc_ok T s u d" "next_addr s \<le> next_addr s'"
    and "\<And>a. a < next_addr s \<Longrightarrow> files s' a = files s a \<and> moved_texts s' a = moved_texts s a"
  shows "doc_ok T s' u d"
proof -
  have "moved_word s n w \<Longrightarrow> moved_word s' n w" for n w
    using assms(2,3) by (auto simp: moved_word_def Let_def)
  then show ?thesis using assms by (auto simp: doc_ok_def list_all_iff)
qed

text \<open>The index holds the procedures and references of the script, and perhaps more namespaces.\<close>

definition index_of :: "Script \<Rightarrow> Index \<Rightarrow> bool" where
  "index_of s ix \<longleftrightarrow> view_procs (view_of ix) = view_procs (spec_build [] s (view_of make_index)) \<and>
     view_refs (view_of ix) = view_refs (spec_build [] s (view_of make_index))"

text \<open>The files that the references of the index are in are gone, and the index is that of a document.\<close>

definition index_inv :: "Server \<Rightarrow> bool" where
  "index_inv s \<longleftrightarrow> index_ok (index s) \<and>
     (\<forall>r \<in> set (references (procs (index s))).
        sourceFile (ref_location r) < next_addr s \<and> files s (sourceFile (ref_location r)) = None) \<and>
     (index_of (Script no_location []) (index s) \<or>
      (\<exists>u d. documents s u = Some d \<and> index_of (doc_script d) (index s)))"

definition job_ok :: "tcl \<Rightarrow> Server \<Rightarrow> job \<Rightarrow> bool" where
  "job_ok T s j \<longleftrightarrow>
     (let a = file_addr (job_context j) in
      indexed T (ctx_file (job_context j)) a (job_script j) (job_index j) \<and>
      a < next_addr s \<and> files s a \<noteq> None \<and>
      documents s (job_uri j) \<noteq> None \<and>
      (\<forall>u d. documents s u = Some d \<longrightarrow> file_addr (doc_context d) \<noteq> a))"

text \<open>Every document is up to date, or will be when the jobs are done.\<close>

definition in_sync :: "tcl \<Rightarrow> string list \<Rightarrow> job option \<Rightarrow> string \<Rightarrow> Document \<Rightarrow> bool" where
  "in_sync T js run u d \<longleftrightarrow> u \<in> set js \<or>
     parse_of T (doc_item d)
       (case run of Some j \<Rightarrow> if job_uri j = u then job_script j else doc_script d | None \<Rightarrow> doc_script d)"

definition inv :: "tcl \<Rightarrow> Server \<Rightarrow> string list \<Rightarrow> job option \<Rightarrow> bool" where
  "inv T s js run \<longleftrightarrow> index_inv s \<and>
     (\<forall>u d. documents s u = Some d \<longrightarrow> doc_ok T s u d \<and> in_sync T js run u d) \<and>
     (\<forall>j. run = Some j \<longrightarrow> job_ok T s j) \<and>
     (\<forall>u \<in> set js. documents s u \<noteq> None) \<and>
     (\<forall>a. next_addr s \<le> a \<longrightarrow> files s a = None)"

lemma index_inv_mono:
  assumes "index_inv s" "index s' = index s" "next_addr s \<le> next_addr s'"
    and "\<And>a. a < next_addr s \<Longrightarrow> files s' a = files s a"
    and "\<And>u d. documents s u = Some d \<Longrightarrow> \<exists>d'. documents s' u = Some d' \<and> doc_script d' = doc_script d"
  shows "index_inv s'"
proof -
  have "\<exists>u d. documents s' u = Some d \<and> index_of (doc_script d) (index s')"
    if "documents s u = Some d" "index_of (doc_script d) (index s)" for u d
  proof -
    note d = that
    obtain d' where "documents s' u = Some d'" "doc_script d' = doc_script d" using assms(5) [OF d(1)] by blast
    with d(2) assms(2) have "documents s' u = Some d' \<and> index_of (doc_script d') (index s')" by simp
    then show ?thesis by blast
  qed
  with assms(1-4) show ?thesis by (fastforce simp: index_inv_def)
qed

lemma inv_new: "inv T new_Server [] None"
proof -
  have "index_of (Script no_location []) make_index"
    by (simp add: index_of_def spec_build_def)
  then show ?thesis
    by (simp add: inv_def index_inv_def new_Server_def index_ok_make_index make_index_eqs empty_record_def)
qed

lemma inv_open:
  assumes "inv T s js run" "safe_text T u (item_text item)" "item_uri item = u"
  shows "inv T (emplace_document u item s) (js @ [u]) run"
proof (cases "documents s u")
  case None
  let ?s = "emplace_document u item s"
  have s: "documents ?s = (documents s)(u \<mapsto> new_Document item (next_addr s))" "index ?s = index s"
    "files ?s = (files s)(next_addr s \<mapsto> no_file)" "next_addr ?s = next_addr s + 1"
    "moved_texts ?s = moved_texts s"
    using None by (simp_all add: emplace_document_def)
  have "index_inv s" and fresh: "\<And>a. next_addr s \<le> a \<Longrightarrow> files s a = None"
    using assms(1) by (simp_all add: inv_def)
  then have "index_inv ?s"
    using None by (intro index_inv_mono [of s ?s]) (auto simp: s)
  moreover have "doc_ok T ?s v d \<and> in_sync T (js @ [u]) run v d" if "documents ?s v = Some d" for v d
  proof (cases "v = u")
    case True
    with that have "d = new_Document item (next_addr s)" by (simp add: s)
    with True assms(2,3) show ?thesis by (simp add: s doc_ok_def in_sync_def new_Document_def)
  next
    case False
    with that have "doc_ok T s v d" "in_sync T js run v d" using assms(1) by (auto simp: s inv_def)
    then show ?thesis by (auto simp: in_sync_def s intro: doc_ok_mono)
  qed
  moreover have "job_ok T ?s j" if "run = Some j" for j
  proof -
    have "job_ok T s j" using that assms(1) by (simp add: inv_def)
    then show ?thesis by (auto simp: job_ok_def Let_def s new_Document_def)
  qed
  ultimately show ?thesis using assms(1) fresh by (auto simp: inv_def s)
next
  case (Some d)
  with assms(1) show ?thesis
    by (auto simp: emplace_document_def inv_def in_sync_def)
qed

text \<open>Changes of a document that leave its script and its context alone.\<close>

lemma update_document_simps [simp]:
  "index (update_document u f s) = index s" "files (update_document u f s) = files s"
  "next_addr (update_document u f s) = next_addr s" "moved_texts (update_document u f s) = moved_texts s"
  "documents (update_document u f s) = (documents s)(u := map_option f (documents s u))"
  by (simp_all add: update_document_def)

lemma moved_word_simps [simp]:
  "moved_word (update_document u f s) = moved_word s" "moved_word (s\<lparr>options := p\<rparr>) = moved_word s"
  "moved_word (s\<lparr>rootUri := r\<rparr>) = moved_word s" "moved_word (s\<lparr>index := ix\<rparr>) = moved_word s"
  by (simp_all add: moved_word_def fun_eq_iff)

lemma inv_update:
  assumes "inv T s js run"
    and "\<And>d. doc_script (f d) = doc_script d" "\<And>d. doc_context (f d) = doc_context d"
    and "\<And>d. documents s u = Some d \<Longrightarrow>
      item_uri (doc_item (f d)) = u \<and> safe_text T u (item_text (doc_item (f d)))"
    and "\<And>d. in_sync T js run u d \<Longrightarrow> in_sync T js' run u (f d)"
    and "set js' = set js \<or> set js' = insert u (set js) \<and> documents s u \<noteq> None"
  shows "inv T (update_document u f s) js' run"
proof -
  let ?s = "update_document u f s"
  have "index_inv s" using assms(1) by (simp add: inv_def)
  then have "index_inv ?s"
    by (rule index_inv_mono) (auto simp: assms(2))
  moreover have "doc_ok T ?s v d \<and> in_sync T js' run v d" if "documents ?s v = Some d" for v d
  proof (cases "v = u")
    case True
    with that obtain d' where d': "documents s u = Some d'" "d = f d'" by auto
    with assms(1) have "doc_ok T s u d'" "in_sync T js run u d'" by (auto simp: inv_def)
    with d' True assms(2-5) show ?thesis by (simp add: doc_ok_def)
  next
    case False
    with that have "doc_ok T s v d" "in_sync T js run v d" using assms(1) by (auto simp: inv_def)
    with assms(6) show ?thesis by (auto simp: doc_ok_def in_sync_def)
  qed
  moreover have "job_ok T ?s j" if "run = Some j" for j
  proof -
    have "job_ok T s j" using that assms(1) by (simp add: inv_def)
    then show ?thesis using assms(3) by (auto simp: job_ok_def Let_def)
  qed
  ultimately show ?thesis using assms(1,6) by (auto simp: inv_def)
qed

lemma inv_edit:
  assumes "inv T s js run" "documents s u \<noteq> None" "safe_text T u t"
  shows "inv T (update_document u (\<lambda>d. d\<lparr>doc_item := (doc_item d)\<lparr>item_text := t, item_version := v\<rparr>\<rparr>) s) (js @ [u]) run"
proof (rule inv_update [OF assms(1)])
  show "set (js @ [u]) = set js \<or> set (js @ [u]) = insert u (set js) \<and> documents s u \<noteq> None"
    using assms(2) by simp
qed (use assms in \<open>auto simp: in_sync_def inv_def doc_ok_def\<close>)

lemma inv_close:
  assumes "inv T s js run"
  shows "inv T (update_document u (\<lambda>d. d\<lparr>doc_state := CLOSED\<rparr>) s) js run"
  by (rule inv_update [OF assms])
    (use assms in \<open>auto simp: in_sync_def inv_def doc_ok_def split: option.splits if_splits\<close>)

lemma inv_options:
  "inv T (s\<lparr>options := p\<rparr>) js run = inv T s js run" "inv T (s\<lparr>rootUri := r\<rparr>) js run = inv T s js run"
  by (simp_all add: inv_def index_inv_def doc_ok_def job_ok_def)

lemma inv_index:
  assumes "inv T s js run" "index_ok ix" "same_content (index s) ix"
  shows "inv T (s\<lparr>index := ix\<rparr>) js run"
  using assms by (simp add: inv_def index_inv_def doc_ok_def job_ok_def index_of_def same_content_def)

lemma inv_lookup:
  assumes "inv T s js run" "lookup_finish s m only cu = (s', h)"
  shows "inv T s' js run"
proof (cases "s' = s")
  case False
  with assms(2) obtain call w ls ix where "find_references (files s) (text_alive s) only (index s) call (cursor_argument cu) w = Inr (ls, ix)"
    "s' = s\<lparr>index := ix\<rparr>"
    by (auto simp: lookup_finish_def split: option.splits sum.splits)
  moreover have "index_ok (index s)" using assms(1) by (simp add: inv_def index_inv_def)
  ultimately show ?thesis using find_references_content inv_index [OF assms(1)] by metis
qed (use assms in simp)

section \<open>Jobs\<close>

lemma reparse_returns:
  assumes "safe_text T u (item_text item)" "item_uri item = u"
  obtains s ix where "reparse_result T item a = Inr (file_context u (item_text item) a, s, ix)"
    and "indexed T (make_source_file u (item_text item)) a s ix" and "parse_of T item s"
proof -
  let ?ctx = "file_context u (item_text item) a"
  obtain s ix where "parse_file T ?ctx = Inr (s, ?ctx)"
    "Build make_index \<lparr>nsPath = [global_namespace_id make_index]\<rparr> s = Inr (ix, \<lparr>nsPath = [global_namespace_id make_index]\<rparr>)"
    "indexed T (make_source_file u (item_text item)) a s ix"
    by (rule parse_build_returns [of T "item_text item" "make_source_file u (item_text item)" u ?ctx a])
      (use assms(1) in \<open>auto simp: safe_text_def file_context_def\<close>)
  moreover from this assms(2) have "parse_of T item s" by (auto simp: parse_of_def)
  ultimately show thesis
    using assms(2) by (intro that) (auto simp: reparse_result_def Let_def file_context_def)
qed

lemma inv_start:
  assumes "inv T s (u # us) None"
  obtains j s' where "reparse_start T u s = Inr (j, s')" and "inv T s' us (Some j)"
proof -
  obtain d where d: "documents s u = Some d" "doc_ok T s u d" using assms by (auto simp: inv_def)
  then obtain sc ix where r: "reparse_result T (doc_item d) (next_addr s)
      = Inr (file_context u (item_text (doc_item d)) (next_addr s), sc, ix)"
    and ix: "indexed T (make_source_file u (item_text (doc_item d))) (next_addr s) sc ix"
    and p: "parse_of T (doc_item d) sc"
    using reparse_returns [of T u "doc_item d" "next_addr s"] by (auto simp: doc_ok_def)
  let ?ctx = "file_context u (item_text (doc_item d)) (next_addr s)"
  let ?j = "\<lparr>job_uri = u, job_context = ?ctx, job_script = sc, job_index = ix\<rparr>"
  let ?s = "s\<lparr>files := (files s)(next_addr s \<mapsto> ctx_file ?ctx), next_addr := next_addr s + 1\<rparr>"
  have start: "reparse_start T u s = Inr (?j, ?s)"
    using d r by (simp add: reparse_start_def find_document_def)
  have docs: "doc_ok T s v e \<and> in_sync T (u # us) None v e" if "documents s v = Some e" for v e
    using assms that by (simp add: inv_def)
  have "index_inv s" using assms by (simp add: inv_def)
  then have "index_inv ?s" by (rule index_inv_mono) auto
  moreover have "doc_ok T ?s v e" if "documents s v = Some e" for v e
    using docs [OF that] by (auto intro: doc_ok_mono)
  moreover have "in_sync T us (Some ?j) v e" if "documents s v = Some e" for v e
    using docs [OF that] that d(1) p by (auto simp: in_sync_def)
  moreover have "job_ok T ?s ?j"
    using ix d(1) docs by (auto simp: job_ok_def Let_def file_context_def doc_ok_def dest: less_imp_neq)
  ultimately have "inv T ?s us (Some ?j)" using assms by (simp add: inv_def)
  with start show thesis by (rule that)
qed

lemma indexed_of: "indexed T f a s ix \<Longrightarrow> index_of s ix \<and> index_ok ix \<and> list_all shaped (words_in_script s)"
  by (auto simp: indexed_def index_of_def good_def list_all_iff)

lemma moved_word_commit:
  assumes "documents s (job_uri j) = Some d" "files s (file_addr (doc_context d)) \<noteq> None"
    and "files s (file_addr (job_context j)) \<noteq> None" "moved_word s n w"
  shows "moved_word (reparse_commit j s) n w"
  using assms by (auto simp: reparse_commit_def moved_word_def Let_def)

lemma moved_word_job:
  assumes "job_ok T s j" "documents s (job_uri j) = Some d" "w \<in> set (words_in_script (job_script j))"
  shows "moved_word (reparse_commit j s) (length (contents (ctx_file (job_context j)))) w"
proof -
  have "sourceFile (word_location w) = file_addr (job_context j)"
    using assms(1,3) by (auto simp: job_ok_def Let_def indexed_def good_def located_def)
  with assms(1,2) show ?thesis by (auto simp: job_ok_def Let_def moved_word_def reparse_commit_def)
qed

lemma inv_commit:
  assumes "inv T s js (Some j)"
  shows "inv T (reparse_commit j s) js None"
proof -
  let ?a = "file_addr (job_context j)"
  have j: "job_ok T s j" using assms by (simp add: inv_def)
  then obtain d where d: "documents s (job_uri j) = Some d" by (auto simp: job_ok_def Let_def)
  let ?s = "reparse_commit j s"
  have s: "documents ?s = (documents s)(job_uri j \<mapsto> move_result j d)" "index ?s = job_index j"
    "files ?s = (files s)(file_addr (doc_context d) \<mapsto> ctx_file (job_context j), ?a := None)"
    "next_addr ?s = next_addr s" "moved_texts ?s = (moved_texts s)(?a :=
      inline_capacity < length (contents (ctx_file (job_context j))))"
    using d by (simp_all add: reparse_commit_def)
  have ix: "indexed T (ctx_file (job_context j)) ?a (job_script j) (job_index j)" "?a < next_addr s"
    using j by (simp_all add: job_ok_def Let_def)
  have docs: "doc_ok T s v e \<and> in_sync T js (Some j) v e \<and> file_addr (doc_context e) \<noteq> ?a" if "documents s v = Some e" for v e
    using assms j that by (auto simp: inv_def job_ok_def Let_def)
  have "index_of (doc_script (move_result j d)) (job_index j)"
    using indexed_of [OF ix(1)] by (simp add: move_result_def)
  then have "index_inv ?s"
    using ix indexed_of [OF ix(1)] unfolding index_inv_def s by (auto simp: indexed_def)
  moreover have "doc_ok T ?s v e" if "documents ?s v = Some e" for v e
  proof (cases "v = job_uri j")
    case True
    with that have e: "e = move_result j d" by (simp add: s)
    show ?thesis
      using docs [OF d] indexed_of [OF ix(1)] moved_word_job [OF j d] True unfolding e
      by (simp add: doc_ok_def s move_result_def list_all_iff)
  next
    case False
    with that have e: "doc_ok T s v e" "file_addr (doc_context e) \<noteq> ?a" using docs [of v e] by (auto simp: s)
    moreover have "files s ?a \<noteq> None" "files s (file_addr (doc_context d)) \<noteq> None"
      using j docs [OF d] by (simp_all add: job_ok_def Let_def doc_ok_def)
    ultimately show ?thesis
      using moved_word_commit [OF d] by (auto simp: doc_ok_def s list_all_iff)
  qed
  moreover have "in_sync T js None v e" if "documents ?s v = Some e" for v e
  proof (cases "v = job_uri j")
    case True
    with that have "e = move_result j d" by (simp add: s)
    with docs [OF d] True show ?thesis by (auto simp: in_sync_def move_result_def)
  next
    case False
    with that docs [of v e] show ?thesis by (auto simp: in_sync_def s)
  qed
  moreover have "\<forall>u \<in> set js. documents ?s u \<noteq> None" using assms by (simp add: s inv_def)
  moreover have "\<forall>a. next_addr ?s \<le> a \<longrightarrow> files ?s a = None"
    using assms docs [OF d] unfolding s inv_def doc_ok_def by (simp add: leD)
  ultimately show ?thesis unfolding inv_def by blast
qed

section \<open>The invariant holds in every run\<close>

lemma didopen_inv:
  assumes "inv T s js run" "message_safe T m" "on_textdocument_didopen s m = (s', h)"
  shows "(\<exists>u. h = Reparses u \<and> inv T s' (js @ [u]) run) \<or> (\<exists>e. h = Throws e \<and> is_exception e \<and> s' = s)"
  using assms inv_open [OF assms(1)]
  by (auto simp: on_textdocument_didopen_def message_safe_def split: sum.splits)

lemma didchange_inv:
  assumes "inv T s js run" "message_safe T m" "on_textdocument_didchange s m = (s', h)"
  shows "(\<exists>u. h = Reparses u \<and> inv T s' (js @ [u]) run) \<or> (\<exists>e. h = Throws e \<and> is_exception e \<and> s' = s)
    \<or> h = Finished \<and> s' = s"
proof (cases "rbind (json_at ''params'' m) DidChangeTextDocumentParams_from_json")
  case (Inl e)
  with assms(2,3) show ?thesis by (auto simp: on_textdocument_didchange_def message_safe_def)
next
  case (Inr p)
  let ?u = "uri (change_document p)"
  have safe: "list_all (\<lambda>e. safe_text T ?u (change_text e)) (contentChanges p)"
    using assms(2) Inr by (simp add: message_safe_def)
  show ?thesis
  proof (cases "documents s ?u")
    case None
    with Inr assms(3) show ?thesis
      by (auto simp: on_textdocument_didchange_def Let_def find_document_def is_exception_def)
  next
    case (Some d)
    show ?thesis
    proof (cases "item_version (doc_item d) <s version (change_document p) \<and> length (contentChanges p) = 1")
      case True
      then have "safe_text T ?u (change_text (contentChanges p ! 0))"
        using safe by (cases "contentChanges p") auto
      from inv_edit [OF assms(1) _ this, of "version (change_document p)"] True Some Inr assms(3) show ?thesis
        by (auto simp: on_textdocument_didchange_def Let_def find_document_def)
    next
      case False
      with Some Inr assms(3) show ?thesis
        by (auto simp: on_textdocument_didchange_def Let_def find_document_def)
    qed
  qed
qed

lemma initialize_inv:
  assumes "inv T s js run" "handle_initialize s m = (s', h)"
  shows "inv T s' js run \<and> (\<forall>u. h \<noteq> Reparses u) \<and> (\<forall>m' b cu u. h \<noteq> HasCursor m' b cu u)"
  using assms
  by (auto simp: handle_initialize_def handler_of_def rbind_def Let_def inv_options split: sum.splits)

lemma lookup_no_reparse:
  "\<forall>u. on_textdocument_references s m \<noteq> Reparses u" "\<forall>u. on_textdocument_definition s m \<noteq> Reparses u"
  by (auto simp: on_textdocument_references_def on_textdocument_definition_def lookup_start_def
      handler_of_def rbind_def split: sum.splits)

lemma dispatch_inv:
  assumes "inv T s js run" "message_safe T m" "dispatch s m = (s', d)"
  shows "inv T s' (js @ new_jobs d) run"
proof -
  note handlers = didopen_inv [OF assms(1,2)] didchange_inv [OF assms(1,2)] initialize_inv [OF assms(1)]
  show ?thesis
    using assms(1,3) new_jobs_Spawns [OF lookup_no_reparse(1)] new_jobs_Spawns [OF lookup_no_reparse(2)]
    unfolding dispatch_def
    by (force split: sum.splits if_splits prod.splits dest!: handlers simp: new_jobs_Spawns)
qed

definition server_inv :: "tcl \<Rightarrow> config \<Rightarrow> bool" where
  "server_inv T c \<longleftrightarrow> inv T (server c) (jobs c) (running c) \<and> list_all (message_safe T) (inbox c)"

lemma server_inv_initial: "list_all (message_safe T) messages \<Longrightarrow> server_inv T (initial messages)"
  by (simp add: server_inv_def initial_def inv_new)

lemma lookup_finish_no_reparse: "lookup_finish s m only cu = (s', h) \<Longrightarrow> new_jobs (Spawns h) = []"
  by (rule new_jobs_Spawns)
    (auto simp: lookup_finish_def handler_of_def rbind_def split: option.splits sum.splits)

lemma step_inv: "step T dump c c' \<Longrightarrow> server_inv T c \<Longrightarrow> server_inv T c'"
proof (induction rule: step.induct)
  case (receive c m ms)
  obtain s d where d: "dispatch (server (c\<lparr>inbox := ms\<rparr>)) m = (s, d)" by (metis surj_pair)
  have "inv T (server c) (jobs c) (running c)" "message_safe T m" "list_all (message_safe T) ms"
    using receive by (simp_all add: server_inv_def)
  with dispatch_inv [OF this(1,2)] d show ?case
    by (simp add: server_inv_def dispatch_turn_fields [OF d])
next
  case (resume_lookup c m only cursor u n)
  obtain s h where h: "lookup_finish (server c) m only cursor = (s, h)" by (metis surj_pair)
  then have "inv T s (jobs c) (running c)"
    using resume_lookup(2) inv_lookup by (auto simp: server_inv_def)
  with resume_lookup(2) show ?case
    by (simp add: server_inv_def lookup_turn_def h lookup_finish_no_reparse [OF h])
next
  case (take_lock c u)
  then show ?case
    using inv_close [of T "server c" "jobs c" "running c" u]
    by (auto simp: server_inv_def close_turn_def didclose_locked_def raised_def rbind_Inr_iff split: sum.split)
next
  case (start_job c u us)
  then have "inv T (server c) (u # us) None" by (simp add: server_inv_def)
  then obtain j s where "reparse_start T u (server c) = Inr (j, s)" "inv T s us (Some j)" by (rule inv_start)
  with start_job(4) show ?case by (simp add: server_inv_def start_turn_def)
next
  case (commit_job c j)
  then show ?case using inv_commit [of T "server c" "jobs c" j] by (simp add: server_inv_def commit_turn_def)
qed (auto simp: server_inv_def written_turn_def failed_turn_def)

interpretation server_invariant: preserved "step T dump" "server_inv T" for T dump
  by unfold_locales (rule step_inv)

lemma reachable_inv: "reachable T dump messages c \<Longrightarrow> list_all (message_safe T) messages \<Longrightarrow> server_inv T c"
  by (erule reachable_induct [OF server_invariant.preserved_axioms]) (rule server_inv_initial)

end
