(* ===== verification/ServerStore.thy ===== *)
theory ServerStore
  imports ServerTermination Answers CommsCorrect
begin

text \<open>
  The documents of the server as an abstract store that is a function of the messages received, and
  the output as the messages sent.
\<close>

section \<open>The store of documents\<close>

text \<open>What a message asks of the documents: the name, the version and the text.\<close>

datatype doc_event = Opened string int string | Changed string int string | Unrelated

definition has_method :: "string \<Rightarrow> json \<Rightarrow> bool" where
  "has_method n m \<longleftrightarrow> json_contains ''method'' m \<and> json_index ''method'' m = Inr (JString n)"

definition event_of :: "json \<Rightarrow> doc_event" where
  "event_of m =
     (if has_method ''textDocument/didOpen'' m then
        (case rbind (json_at ''params'' m) DidOpenTextDocumentParams_from_json of
           Inl _ \<Rightarrow> Unrelated
         | Inr item \<Rightarrow> Opened (item_uri item) (sint (item_version item)) (item_text item))
      else if has_method ''textDocument/didChange'' m then
        (case rbind (json_at ''params'' m) DidChangeTextDocumentParams_from_json of
           Inl _ \<Rightarrow> Unrelated
         | Inr p \<Rightarrow>
             (case contentChanges p of
                [e] \<Rightarrow> Changed (uri (change_document p)) (sint (version (change_document p))) (change_text e)
              | _ \<Rightarrow> Unrelated))
      else Unrelated)"

text \<open>
  The first opening of a name counts; a change needs an open document and a higher version, and
  there is no way to remove a document or to replace it by opening it again.
\<close>

type_synonym store = "string \<rightharpoonup> int \<times> string"

fun apply_event :: "doc_event \<Rightarrow> store \<Rightarrow> store" where
  "apply_event (Opened u v t) st = (if st u = None then st(u \<mapsto> (v, t)) else st)"
| "apply_event (Changed u v t) st =
     (case st u of
        None \<Rightarrow> st
      | Some (v0, t0) \<Rightarrow> if v0 < v then st(u \<mapsto> (v, t)) else st)"
| "apply_event Unrelated st = st"

definition store_of :: "Server \<Rightarrow> store" where
  "store_of s u = map_option (\<lambda>d. (sint (item_version (doc_item d)), item_text (doc_item d))) (documents s u)"

lemma store_of_cong: "documents s' = documents s \<Longrightarrow> store_of s' = store_of s"
  by (simp add: store_of_def fun_eq_iff)

lemma store_of_update:
  "store_of (update_document u f s) = (\<lambda>v. if v = u then map_option (\<lambda>d. (sint (item_version (doc_item (f d))), item_text (doc_item (f d)))) (documents s u)
     else store_of s v)"
  by (auto simp: store_of_def update_document_def fun_eq_iff option.map_comp comp_def)

lemma store_of_same_items:
  "(\<And>d. doc_item (f d) = doc_item d) \<Longrightarrow> store_of (update_document u f s) = store_of s"
  by (auto simp: store_of_update fun_eq_iff) (simp add: store_of_def)

lemma store_of_emplace:
  "store_of (emplace_document u item s) = apply_event (Opened u (sint (item_version item)) (item_text item)) (store_of s)"
  by (auto simp: store_of_def emplace_document_def new_Document_def fun_eq_iff)

lemma didopen_store:
  "store_of (fst (on_textdocument_didopen s m)) =
     (case rbind (json_at ''params'' m) DidOpenTextDocumentParams_from_json of
        Inl _ \<Rightarrow> store_of s
      | Inr item \<Rightarrow> apply_event (Opened (item_uri item) (sint (item_version item)) (item_text item)) (store_of s))"
  by (auto simp: on_textdocument_didopen_def store_of_emplace simp del: apply_event.simps split: sum.split)

lemma didchange_store:
  assumes "rbind (json_at ''params'' m) DidChangeTextDocumentParams_from_json = Inr p"
  shows "store_of (fst (on_textdocument_didchange s m)) =
    (case contentChanges p of
       [e] \<Rightarrow> apply_event (Changed (uri (change_document p)) (sint (version (change_document p))) (change_text e)) (store_of s)
     | _ \<Rightarrow> store_of s)"
proof -
  let ?u = "uri (change_document p)"
  show ?thesis
  proof (cases "documents s ?u")
    case None
    then show ?thesis
      using assms by (auto simp: on_textdocument_didchange_def find_document_def store_of_def split: list.split)
  next
    case (Some d)
    then have st: "store_of s ?u = Some (sint (item_version (doc_item d)), item_text (doc_item d))"
      by (simp add: store_of_def)
    show ?thesis
      using assms Some st
      by (cases "contentChanges p" rule: remdups_adj.cases)
        (auto simp: on_textdocument_didchange_def find_document_def Let_def store_of_update fun_eq_iff word_sless_alt)
  qed
qed

lemma initialize_store: "store_of (fst (handle_initialize s m)) = store_of s"
  by (auto simp: handle_initialize_def Let_def intro: store_of_cong split: sum.splits)

lemma dispatch_store: "store_of (fst (dispatch s m)) = apply_event (event_of m) (store_of s)"
proof (cases "if json_contains ''method'' m then json_index ''method'' m else Inl JsonError")
  case (Inl e)
  then have "\<not> has_method n m" for n by (auto simp: has_method_def split: if_splits)
  with Inl show ?thesis by (simp add: dispatch_def event_of_def)
next
  case (Inr x)
  then have h: "has_method n m \<longleftrightarrow> x = JString n" for n by (auto simp: has_method_def split: if_splits)
  consider (opened) "x = JString ''textDocument/didOpen''" | (changed) "x = JString ''textDocument/didChange''"
    | (other) "x \<noteq> JString ''textDocument/didOpen''" "x \<noteq> JString ''textDocument/didChange''" by blast
  then show ?thesis
  proof cases
    case opened
    then have "fst (dispatch s m) = fst (on_textdocument_didopen s m)"
      by (simp add: dispatch_def Inr split_beta)
    moreover have "has_method ''textDocument/didOpen'' m" using opened h by simp
    ultimately show ?thesis
      by (simp add: didopen_store event_of_def del: apply_event.simps(1) split: sum.split)
  next
    case changed
    then have f: "fst (dispatch s m) = fst (on_textdocument_didchange s m)"
      by (simp add: dispatch_def Inr split_beta)
    have m: "\<not> has_method ''textDocument/didOpen'' m" "has_method ''textDocument/didChange'' m"
      using changed h by simp_all
    show ?thesis
    proof (cases "rbind (json_at ''params'' m) DidChangeTextDocumentParams_from_json")
      case (Inl e)
      then show ?thesis by (simp add: f m event_of_def on_textdocument_didchange_def)
    next
      case (Inr p)
      from didchange_store [OF this, of s] Inr show ?thesis
        by (simp add: f m event_of_def del: apply_event.simps(2) split: list.split)
    qed
  next
    case other
    then show ?thesis
      using initialize_store [of s m] by (auto simp: dispatch_def Inr event_of_def h split_beta)
  qed
qed

lemma lookup_turn_store: "store_of (server (lookup_turn dump m only cu u n c)) = store_of (server c) \<and>
    inbox (lookup_turn dump m only cu u n c) = inbox c"
proof -
  obtain s h where h: "lookup_finish (server c) m only cu = (s, h)" by (metis surj_pair)
  then have "documents s = documents (server c)"
    by (auto simp: lookup_finish_def split: option.splits sum.splits)
  then have "store_of s = store_of (server c)" by (rule store_of_cong)
  then show ?thesis by (simp add: lookup_turn_def h)
qed

lemma commit_store: "store_of (reparse_commit j s) = store_of s"
proof (cases "documents s (job_uri j)")
  case (Some d)
  then have "store_of (reparse_commit j s) = store_of (update_document (job_uri j) (move_result j) s)"
    by (intro store_of_cong) (simp add: reparse_commit_def)
  also have "\<dots> = store_of s" by (rule store_of_same_items) (simp add: move_result_def)
  finally show ?thesis .
qed (simp add: reparse_commit_def)

lemma close_turn_store: "store_of (server (close_turn u c)) = store_of (server c) \<and> inbox (close_turn u c) = inbox c"
  using store_of_same_items [of "\<lambda>d. d\<lparr>doc_state := CLOSED\<rparr>" u "server c"]
  by (auto simp: close_turn_def didclose_locked_def raised_def rbind_Inr_iff split: sum.split)

lemma start_turn_store: "store_of (server (start_turn T u us c)) = store_of (server c) \<and> inbox (start_turn T u us c) = inbox c"
  by (auto simp: start_turn_def reparse_start_def rbind_Inr_iff intro: store_of_cong split: sum.split)

text \<open>The messages that were received make the store.\<close>

definition received :: "json list \<Rightarrow> config \<Rightarrow> bool" where
  "received messages c \<longleftrightarrow> (\<exists>ms. messages = ms @ inbox c \<and>
     store_of (server c) = fold (\<lambda>m. apply_event (event_of m)) ms Map.empty)"

lemma step_received: "step T dump c c' \<Longrightarrow> received messages c \<Longrightarrow> received messages c'"
proof (induction rule: step.induct)
  case (receive c m ms)
  then obtain ms0 where ms0: "messages = ms0 @ m # ms"
    "store_of (server c) = fold (\<lambda>m. apply_event (event_of m)) ms0 Map.empty"
    by (auto simp: received_def)
  then have "messages = (ms0 @ [m]) @ ms" by simp
  moreover have "store_of (fst (dispatch (server c) m)) = fold (\<lambda>m. apply_event (event_of m)) (ms0 @ [m]) Map.empty"
    by (simp add: dispatch_store ms0(2))
  moreover obtain s d where d: "dispatch (server (c\<lparr>inbox := ms\<rparr>)) m = (s, d)" by (metis surj_pair)
  ultimately show ?case
    unfolding received_def using dispatch_turn_fields [OF d]
    by (intro exI [of _ "ms0 @ [m]"]) simp
qed (simp_all add: received_def lookup_turn_store close_turn_store written_turn_def failed_turn_def start_turn_store
    commit_turn_def commit_store)

interpretation receiving: preserved "step T dump" "received messages" for T dump messages
  by unfold_locales (rule step_received)

lemma reachable_received: "reachable T dump messages c \<Longrightarrow> received messages c"
proof (erule reachable_induct [OF receiving.preserved_axioms])
  show "received messages (initial messages)"
    by (simp add: received_def initial_def store_of_def new_Server_def fun_eq_iff)
qed

section \<open>The output\<close>

text \<open>
  The bytes that are written or left in the buffer are the frames of the messages \<open>sent\<close> so far,
  also after writes that have failed.
\<close>

definition logged :: "(json \<Rightarrow> string) \<Rightarrow> config \<Rightarrow> json list \<Rightarrow> bool" where
  "logged dump c sent \<longleftrightarrow>
     written (out c) @ stream_buf (out c) = concat (map (\<lambda>m. frame (dump m)) sent) \<and>
     (case sending c of
        None \<Rightarrow> in_flight (out c) = None
      | Some _ \<Rightarrow> in_flight (out c) = Some (length (stream_buf (out c))))"

lemma logged_cong: "out c' = out c \<Longrightarrow> sending c' = sending c \<Longrightarrow> logged dump c' sent = logged dump c sent"
  by (simp only: logged_def)

lemma logged_update [simp]:
  "logged dump (c\<lparr>server := s\<rparr>) sent = logged dump c sent"
  "logged dump (c\<lparr>main_state := st\<rparr>) sent = logged dump c sent"
  "logged dump (c\<lparr>inbox := ms\<rparr>) sent = logged dump c sent"
  "logged dump (c\<lparr>jobs := js\<rparr>) sent = logged dump c sent"
  "logged dump (c\<lparr>running := r\<rparr>) sent = logged dump c sent"
  by (rule logged_cong; simp)+

lemma send_logged:
  assumes "logged dump c sent"
  shows "logged dump (send dump m l b c) sent \<and> send dump m l b c = c\<lparr>main_state := Crashed Undefined\<rparr> \<or>
    logged dump (send dump m l b c) (sent @ [m])"
proof (cases "sending c")
  case None
  have "written (out c) @ stream_buf (out c) @ frame (dump m) = concat (map (\<lambda>m. frame (dump m)) (sent @ [m]))"
    using assms by (simp add: logged_def)
  with None assms show ?thesis by (simp add: logged_def send_def start_send_def Let_def)
next
  case (Some x)
  then show ?thesis using assms by (auto simp: logged_def send_def start_send_def)
qed

text \<open>What the next step may send, and the step that sends it: the message is then done with.\<close>

definition may_send :: "config \<Rightarrow> json \<Rightarrow> json \<Rightarrow> bool" where
  "may_send c m r \<longleftrightarrow>
     main_state c = Ready \<and> (\<exists>ms. inbox c = m # ms) \<and> message_sent (snd (dispatch (server c) m)) = Some r \<or>
     (\<exists>only cu u n l. main_state c = AtCursor m only cu u n \<and> snd (lookup_finish (server c) m only cu) = Sends r l)"

definition step_sends :: "config \<Rightarrow> json \<Rightarrow> json \<Rightarrow> config \<Rightarrow> bool" where
  "step_sends c m r c' \<longleftrightarrow> may_send c m r \<and>
     (if main_state c = Ready then inbox c = m # inbox c' else inbox c' = inbox c) \<and>
     (\<forall>m only cu u n. main_state c' \<noteq> AtCursor m only cu u n)"

lemma run_handler_logged:
  assumes "logged dump c sent"
  shows "logged dump (run_handler dump h c) sent \<or>
    (\<exists>r l. h = Sends r l \<and> run_handler dump h c = send dump r l False c \<and> logged dump (send dump r l False c) (sent @ [r]))"
  using assms send_logged [OF assms] by (cases h) (auto simp: run_handler_def)

lemma receive_logged:
  assumes "main_state c = Ready" "inbox c = m # ms" "logged dump c sent" "c' = dispatch_turn dump m (c\<lparr>inbox := ms\<rparr>)"
  shows "logged dump c' sent \<or> (\<exists>r. step_sends c m r c' \<and> logged dump c' (sent @ [r]))"
proof -
  obtain s d where d: "dispatch (server c) m = (s, d)" by (metis surj_pair)
  let ?c = "c\<lparr>inbox := ms, server := s\<rparr>"
  have sends: "step_sends c m r (send dump r l b ?c)" if "message_sent d = Some r" for r l b
    using that assms(1,2) send_state [of dump r l b ?c] by (auto simp: step_sends_def may_send_def d)
  have ok: "logged dump ?c sent" using assms(3) by simp
  show ?thesis
  proof (cases d)
    case (Replies r)
    then have "c' = send dump r False True ?c" by (simp add: dispatch_turn_def d assms(4))
    with send_logged [OF ok, of r False True] sends [of r False True] Replies show ?thesis by auto
  next
    case (Spawns h)
    then have "c' = run_handler dump h ?c" by (simp add: dispatch_turn_def d assms(4))
    with run_handler_logged [OF ok, of h] sends [of _ _ False] Spawns show ?thesis by auto
  qed (use ok in \<open>simp_all add: dispatch_turn_def d raised_def assms(4)\<close>)
qed

lemma resume_logged:
  assumes "main_state c = AtCursor m only cu u n" "logged dump c sent" "c' = lookup_turn dump m only cu u n c"
  shows "logged dump c' sent \<or> (\<exists>r. step_sends c m r c' \<and> logged dump c' (sent @ [r]))"
proof -
  obtain s h where h: "lookup_finish (server c) m only cu = (s, h)" by (metis surj_pair)
  let ?c = "c\<lparr>server := s, main_state := Ready\<rparr>"
  have sends: "step_sends c m r (send dump r l False ?c)" if "h = Sends r l" for r l
    using that assms(1) h send_state [of dump r l False ?c] by (auto simp: step_sends_def may_send_def)
  have "logged dump ?c sent" using assms(2) by simp
  from run_handler_logged [OF this, of h] assms(2,3) sends show ?thesis by (auto simp: lookup_turn_def h)
qed

lemma step_logged:
  "step T dump c c' \<Longrightarrow> logged dump c sent \<Longrightarrow>
   logged dump c' sent \<or> (\<exists>m r. step_sends c m r c' \<and> logged dump c' (sent @ [r]))"
proof (induction rule: step.induct)
  case (receive c m ms)
  then show ?case using receive_logged [OF receive(1,2,3) refl] by blast
next
  case (resume_lookup c m only cursor u n)
  then show ?case using resume_logged [OF resume_lookup(1,2) refl] by blast
next
  case (message_written c)
  then show ?case by (auto simp: logged_def written_turn_def finish_send_def)
next
  case (write_fails c k)
  then show ?case by (auto simp: logged_def failed_turn_def fail_send_def)
qed (auto simp: close_turn_def raised_def start_turn_def commit_turn_def split: sum.split)

text \<open>Everything that was sent so far satisfies \<open>Q\<close>.\<close>

definition output_ok :: "(json \<Rightarrow> bool) \<Rightarrow> (json \<Rightarrow> string) \<Rightarrow> config \<Rightarrow> bool" where
  "output_ok Q dump c \<longleftrightarrow> (\<exists>sent. logged dump c sent \<and> list_all Q sent)"

lemma output_ok_update [simp]:
  "output_ok Q dump (c\<lparr>server := s\<rparr>) = output_ok Q dump c"
  "output_ok Q dump (c\<lparr>main_state := st\<rparr>) = output_ok Q dump c"
  "output_ok Q dump (c\<lparr>inbox := ms\<rparr>) = output_ok Q dump c"
  by (simp_all add: output_ok_def)

lemma output_sending: "output_ok Q dump c \<Longrightarrow> sending c = None \<longleftrightarrow> in_flight (out c) = None"
  by (auto simp: output_ok_def logged_def split: option.splits)

lemma step_sends_only: "sends_only Q (server c) \<Longrightarrow> step_sends c m r c' \<Longrightarrow> Q r"
  unfolding sends_only_def step_sends_def may_send_def by blast

lemma step_output:
  assumes "step T dump c c'" "output_ok Q dump c" "sends_only Q (server c)"
  shows "output_ok Q dump c'"
proof -
  obtain sent where sent: "logged dump c sent" "list_all Q sent" using assms(2) by (auto simp: output_ok_def)
  with step_logged [OF assms(1) sent(1)] step_sends_only [OF assms(3)] show ?thesis
    by (fastforce simp: output_ok_def)
qed

interpretation outputs: preserved "step T dump" "output_ok (\<lambda>_. True) dump" for T dump
  by unfold_locales (auto intro: step_output)

lemma initial_logged: "logged dump (initial messages) []"
  by (simp add: logged_def initial_def no_output_def)

lemma initial_output: "output_ok Q dump (initial messages)"
  using initial_logged by (force simp: output_ok_def)

lemma reachable_output: "reachable T dump messages c \<Longrightarrow> output_ok (\<lambda>_. True) dump c"
  by (erule reachable_induct [OF outputs.preserved_axioms]) (rule initial_output)

end
