(* ===== verification/ServerQuiet.thy ===== *)
theory ServerQuiet
  imports ServerCorrect ServerStore
begin

text \<open>
  Clients that only open, change and close documents, and the permanence of a deadlock.
\<close>

section \<open>Messages that are not answered\<close>

definition is_request :: "json \<Rightarrow> bool" where
  "is_request m \<longleftrightarrow> has_method ''initialize'' m \<or> has_method ''shutdown'' m \<or>
     has_method ''textDocument/references'' m \<or> has_method ''textDocument/definition'' m"

definition quiet :: "config \<Rightarrow> bool" where
  "quiet c \<longleftrightarrow> sending c = None \<and> list_all (\<lambda>m. \<not> is_request m) (inbox c) \<and>
     (main_state c = Ready \<or> main_state c = Stopped \<or> (\<exists>u. main_state c = Locking u))"

lemma is_exception_simps [simp]:
  "is_exception JsonError" "is_exception OutOfRange" "is_exception BadVariantAccess"
  "\<not> is_exception Undefined" "\<not> is_exception Aborted" "\<not> is_exception OutOfFuel"
  by (simp_all add: is_exception_def)

lemma didclose_exception: "didclose_document m = Inl e \<Longrightarrow> is_exception e"
  by (auto simp: didclose_document_def DidCloseTextDocumentParams_from_json_def TextDocumentIdentifier_from_json_def
      get_field_def json_at_def get_string_def rbind_def split: json.splits option.splits sum.splits)

lemma dispatch_quiet:
  assumes "inv T s js run" "message_safe T m" "\<not> is_request m" "dispatch s m = (s', d)"
  shows "d = Continues \<or> d = Breaks \<or> (\<exists>u. d = Locks u) \<or> (\<exists>e. d = Raises e \<and> is_exception e) \<or>
    (\<exists>u. d = Spawns (Reparses u)) \<or> d = Spawns Finished \<or> (\<exists>e. d = Spawns (Throws e) \<and> is_exception e)"
proof (cases "if json_contains ''method'' m then json_index ''method'' m else Inl JsonError")
  case (Inl e)
  with assms(4) show ?thesis by (simp add: dispatch_def)
next
  case (Inr x)
  then have "has_method n m \<longleftrightarrow> x = JString n" for n by (auto simp: has_method_def split: if_splits)
  with assms(3) have n: "x \<noteq> JString ''initialize''" "x \<noteq> JString ''shutdown''"
    "x \<noteq> JString ''textDocument/references''" "x \<noteq> JString ''textDocument/definition''"
    by (simp_all add: is_request_def)
  obtain s1 h1 s2 h2 where h: "on_textdocument_didopen s m = (s1, h1)" "on_textdocument_didchange s m = (s2, h2)"
    by (metis surj_pair)
  from didopen_inv [OF assms(1,2) h(1)] didchange_inv [OF assms(1,2) h(2)] didclose_exception [of m]
  show ?thesis
    using assms(4) n by (auto simp: dispatch_def Inr h split: if_splits sum.splits)
qed

lemma dispatch_ends:
  assumes "json_contains ''method'' m" "dispatch s m = (s', d)"
  shows "d = Breaks \<or> (\<exists>e. d = Raises e \<and> is_exception e) \<longleftrightarrow>
    has_method ''exit'' m \<or> has_method ''textDocument/didClose'' m \<and> (\<exists>e. didclose_document m = Inl e)"
proof -
  obtain x where x: "json_index ''method'' m = Inr x"
    using assms(1) by (auto simp: json_contains_def json_index_def split: json.splits option.splits)
  have id: "json_index ''id'' m = Inl e \<Longrightarrow> e = Aborted" for e
    using assms(1) by (auto simp: json_contains_def json_index_def split: json.splits option.splits)
  have h: "has_method n m \<longleftrightarrow> x = JString n" for n using assms(1) x by (simp add: has_method_def)
  obtain s1 h1 s2 h2 s3 h3 where hs: "handle_initialize s m = (s1, h1)" "on_textdocument_didopen s m = (s2, h2)"
    "on_textdocument_didchange s m = (s3, h3)"
    by (metis surj_pair)
  consider (close) "x = JString ''textDocument/didClose''" | (shutdown) "x = JString ''shutdown''"
    | (other) "x \<noteq> JString ''textDocument/didClose''" "x \<noteq> JString ''shutdown''" by blast
  then show ?thesis
  proof cases
    case close
    then show ?thesis
      using assms didclose_exception [of m]
      by (cases "didclose_document m") (auto simp: dispatch_def x h)
  next
    case shutdown
    then show ?thesis
      using assms id by (cases "json_index ''id'' m") (auto simp: dispatch_def x h)
  next
    case other
    then show ?thesis
      using assms unfolding h by (auto simp: dispatch_def x hs split: if_splits)
  qed
qed

lemma step_quiet: "step T dump c c' \<Longrightarrow> server_inv T c \<Longrightarrow> quiet c \<Longrightarrow> quiet c'"
proof (induction rule: step.induct)
  case (receive c m ms)
  obtain s d where d: "dispatch (server c) m = (s, d)" by (metis surj_pair)
  have "inv T (server c) (jobs c) (running c)" "message_safe T m" "\<not> is_request m"
    using receive by (simp_all add: server_inv_def quiet_def)
  from dispatch_quiet [OF this d] receive(1,2,4) show ?case
    by (auto simp: dispatch_turn_def d quiet_def run_handler_def raised_def)
next
  case (take_lock c u)
  then show ?case
    by (auto simp: quiet_def close_turn_def raised_def didclose_locked_def find_document_def rbind_Inr_iff
        rbind_def split: sum.splits option.splits)
next
  case (start_job c u us)
  then have "inv T (server c) (u # us) None" by (simp add: server_inv_def)
  then obtain j s where "reparse_start T u (server c) = Inr (j, s)" by (rule inv_start)
  with start_job(5) show ?case by (simp add: quiet_def start_turn_def)
qed (auto simp: quiet_def written_turn_def commit_turn_def)

interpretation quietness: preserved "step T dump" "\<lambda>c. server_inv T c \<and> quiet c" for T dump
  by unfold_locales (auto intro: step_inv step_quiet)

lemma quiet_end:
  assumes "quiet c" "finished c \<or> deadlocked c \<or> (\<exists>e. main_state c = Crashed e)"
  shows "finished c"
  using assms by (auto simp: quiet_def deadlocked_def lock_held_def)

lemma finished_in_sync:
  assumes "server_inv T c" "finished c" "documents (server c) u = Some d"
  shows "parse_of T (doc_item d) (doc_script d)"
  using assms by (auto simp: server_inv_def inv_def in_sync_def finished_def)

section \<open>Deadlock\<close>

text \<open>
  What cannot change any more: the main thread is blocked, and a job that is running cannot
  commit.
\<close>

definition stuck_like :: "config \<Rightarrow> config \<Rightarrow> bool" where
  "stuck_like c c' \<longleftrightarrow> main_state c' = main_state c \<and> inbox c' = inbox c \<and> out c' = out c \<and>
     sending c' = sending c \<and> documents (server c') = documents (server c) \<and> index (server c') = index (server c) \<and>
     (running c \<noteq> None \<longrightarrow> running c' = running c)"

lemma step_deadlocked:
  assumes "step T dump c1 c2" "deadlocked c" "stuck_like c c1" "alive c2"
  shows "stuck_like c c2"
proof -
  obtain u where u: "main_state c1 = Locking u" and held: "lock_held c1"
    using assms(2,3) by (auto simp: deadlocked_def stuck_like_def lock_held_def)
  from assms(1) show ?thesis
  proof cases
    case (start_job v us)
    then show ?thesis
      using assms(3,4)
      by (auto simp: stuck_like_def start_turn_def reparse_start_def rbind_Inr_iff split: sum.splits if_splits)
  qed (use u held in simp_all)
qed

lemma crashed_no_step: "step T dump c1 c2 \<Longrightarrow> alive c2 \<Longrightarrow> alive c1"
  by (erule stepE) (auto simp: start_turn_def commit_turn_def split: sum.splits if_splits)

lemma steps_deadlocked:
  "steps T dump n c c' \<Longrightarrow> deadlocked c \<Longrightarrow> alive c' \<Longrightarrow> stuck_like c c'"
proof (induction rule: exec.induct)
  case (run_refl c)
  show ?case by (simp add: stuck_like_def)
next
  case (run_step n c c' c'')
  then show ?case using step_deadlocked crashed_no_step by blast
qed

end
