(* ===== verification/ServerCrash.thy ===== *)
theory ServerCrash
  imports ServerQuiet Answers ParserScopes
begin

text \<open>
  What the server can send, and the ways in which it can crash, for clients whose texts the indexer
  is safe on and whose requests have an identifier and a proper position.
\<close>

section \<open>Lookups in an index whose file is gone\<close>

lemma reference_locations_gone:
  assumes "\<forall>r \<in> set (references (procs ix)). mem (sourceFile (ref_location r)) = None"
  shows "reference_locations mem only ix kvs = Inr ls \<Longrightarrow> ls = []"
  by (induction kvs arbitrary: ls)
    (auto simp: rbind_Inr_iff nth_r_Inr location_of_def assms split: if_splits)

lemma find_references_gone:
  assumes "index_inv s" "find_references (files s) (text_alive s) only (index s) call arg w = Inr (ls, ix)"
  shows "ls = []"
proof (cases "word_type w = TEXT \<and> arg = 0")
  case True
  with assms(2) obtain found where f: "FindNamespace (index s) (call_ns call) = Inr found"
    by (auto simp: find_references_def rbind_Inr_iff)
  show ?thesis
  proof (cases found)
    case None
    with True assms f show ?thesis by (simp add: find_references_def)
  next
    case (Some i)
    with True assms(2) f obtain ps ix1 where ps: "FindProc (index s) i (word_str w) = Inr (ps, ix1)"
      by (auto simp: find_references_def rbind_Inr_iff)
    have ok: "index_ok (index s)" using assms(1) by (simp add: index_inv_def)
    have "same_content (index s) ix1"
      using FindProc_content [OF ok _ ps] FindNamespace_valid [of "index s" "call_ns call" i] ok f Some
      by (simp add: index_ok_def)
    then have "\<forall>r \<in> set (references (procs ix1)). files s (sourceFile (ref_location r)) = None"
      using assms(1) by (simp add: index_inv_def same_content_def)
    then show ?thesis
      using True assms(2) f Some ps reference_locations_gone [of ix1 "files s" only]
      by (auto simp: find_references_def rbind_Inr_iff split: option.splits)
  qed
qed (use assms(2) in \<open>auto simp: find_references_def\<close>)

lemma no_locations_sent:
  assumes "index_inv s"
  shows "sends_only no_locations s"
proof -
  have "no_locations r" if "snd (lookup_finish s m only cu) = Sends r l" for m only cu r l
    using that
    by (auto simp: lookup_finish_def handler_of_def rbind_def split: option.splits sum.splits
        dest!: find_references_gone [OF assms])
  then show ?thesis using dispatch_no_locations by (simp add: sends_only_def)
qed

lemma server_inv_index: "server_inv T c \<Longrightarrow> index_inv (server c)"
  by (simp add: server_inv_def inv_def)

interpretation silence: preserved "step T dump" "\<lambda>c. server_inv T c \<and> output_ok no_locations dump c" for T dump
  by unfold_locales (auto intro: step_inv step_output no_locations_sent server_inv_index)

lemma reachable_silent:
  "reachable T dump messages c \<Longrightarrow> list_all (message_safe T) messages \<Longrightarrow> output_ok no_locations dump c"
  using reachable_induct [OF silence.preserved_axioms] server_inv_initial initial_output by blast


section \<open>The namespaces of calls are absolute\<close>

text \<open>What the assertion of \<open>FindNamespace\<close> asks of the namespace of a call.\<close>

definition absolute_ns :: "string \<Rightarrow> bool" where
  "absolute_ns n \<longleftrightarrow> n = [] \<or> sep_at n 0"

lemma sep_at_longer: "sep_at n 0 \<Longrightarrow> sep_at (n @ x) 0"
  using sep_at_bound [of n 0] by (simp add: sep_at_def)

lemma absolute_ns_intros [simp]:
  "absolute_ns []" "absolute_ns (CHR '':'' # CHR '':'' # s)"
  "absolute_ns n \<Longrightarrow> n \<noteq> [] \<Longrightarrow> absolute_ns (n @ s)" "sep_at s 0 \<Longrightarrow> absolute_ns s"
  using sep_at_longer by (simp_all add: absolute_ns_def)

lemma absolute_ns_Path:
  assumes "absolute_ns n"
  shows "absolute_ns (Path (AbsPath (spec_split s) n))"
proof (cases "s = []")
  case True
  then show ?thesis
    by (simp add: spec_split_def SplitName_cases AbsPath_def Path_def)
next
  case False
  show ?thesis
    using assms by (simp add: AbsPath_Path [OF SplitName_spec False])
qed

lemma absolute_ns_Namespace:
  assumes "absolute_ns n" "plain s"
  shows "absolute_ns (Namespace_str (AbsPath (spec_split s) n))"
proof (cases "rfind_sep s")
  case None
  then have "\<not> sep_at s 0" by (simp add: rfind_sep_None sep_free_def)
  with None assms(1) show ?thesis
    by (cases "s = []")
      (auto simp: spec_split_def SplitName_cases AbsPath_def Namespace_str_def)
next
  case (Some i)
  then have split: "spec_split s = \<lparr>ns = Some (take i s), qname = drop (i + 2) s, absolute = sep_at s 0\<rparr>"
    by (simp add: spec_split_def SplitName_cases)
  have "absolute_ns (take i s)" if "sep_at s 0"
  proof -
    have "i \<noteq> 1" using assms(2) Some that by (auto simp: plain_def)
    then show ?thesis
      using that sep_at_bound [OF that] by (cases "i = 0") (auto simp: absolute_ns_def sep_at_def min_def)
  qed
  then show ?thesis
    using assms(1) by (simp add: split AbsPath_def Namespace_str_def)
qed

lemma body_ns_absolute:
  assumes "call_ok (Call ty ws m)" "absolute_ns n"
  shows "absolute_ns (body_ns ty ws n)"
  using assms absolute_ns_Path [OF assms(2)] absolute_ns_Namespace [OF assms(2)]
  by (auto simp: body_ns_def call_ok_def split: call_type.split)


text \<open>The calls of a script have absolute namespaces.\<close>

definition names_absolute :: "Script \<Rightarrow> bool" where
  "names_absolute s \<longleftrightarrow> list_all (\<lambda>c. absolute_ns (call_ns c)) (calls_in_script s)"

lemma parse_names_absolute:
  assumes "parse_file T (file_context u t a) = Inr (s, ctx)" "list_all call_ok (calls_in_script s)"
  shows "names_absolute s"
proof -
  have "list_all (\<lambda>(n, c). absolute_ns n) (scoped_script body_ns s [])"
    by (rule scoped_keeps [where K = call_ok and I = absolute_ns, OF body_ns_absolute _ assms(2)]) simp_all
  moreover have "list_all tag_ok (scoped_script body_ns s [])"
    using parse_file_tags [OF assms(1)] by (simp add: tagged_script_def file_context_def)
  ultimately have "list_all (\<lambda>c. absolute_ns (call_ns c)) (map snd (scoped_script body_ns s []))"
    by (auto simp: list_all_iff tag_ok_def)
  then show ?thesis by (simp add: names_absolute_def scoped_calls)
qed

lemma empty_names_absolute [simp]: "names_absolute (Script loc [])"
  by (simp add: names_absolute_def)

lemma reparse_names_absolute:
  assumes "reparse_start T u s = Inr (j, s')" "documents s u = Some d" "doc_ok T s u d"
  shows "names_absolute (job_script j) \<and> documents s' = documents s"
proof -
  obtain ctx sc ix where r: "reparse_result T (doc_item d) (next_addr s) = Inr (ctx, sc, ix)"
    "job_script j = sc" "documents s' = documents s"
    using assms(1,2) by (auto simp: reparse_start_def find_document_def rbind_Inr_iff)
  then have parse: "parse_file T (file_context u (item_text (doc_item d)) (next_addr s)) = Inr (sc, ctx)"
    using assms(3) by (auto simp: reparse_result_def rbind_Inr_iff Let_def file_context_def doc_ok_def)
  then have "list_all call_ok (calls_in_script sc)"
    using assms(3) by (auto simp: doc_ok_def safe_text_def)
  with parse_names_absolute [OF parse] r show ?thesis by simp
qed

section \<open>Which failures a lookup has\<close>

lemma FindNamespace_fails:
  assumes "tree_ok ix" "absolute_ns n" "FindNamespace ix n = Inl e"
  shows "is_exception e"
proof -
  obtain qn where qn: "SplitName n = Inr qn" by (rule SplitName_total)
  have abs: "absolute qn" using SplitName_absolute [OF qn] assms(2) by (auto simp: absolute_ns_def)
  have "FindNamespace_loop ix parts (global_namespace_id ix) \<noteq> Inl e" for parts
    using FindNamespace_loop_eq [OF assms(1)] tree_okD(2) [OF assms(1)] by simp
  then have "Parts qn = Inl e"
    using assms(3) qn abs by (cases "Parts qn") (auto simp: FindNamespace_def)
  then have "NamespaceParts qn = Inl e"
    by (auto simp: Parts_def rbind_def split: sum.splits if_splits)
  then show ?thesis
    by (auto simp: NamespaceParts_def substr_from_def rbind_def split: option.splits if_splits sum.splits)
qed


lemma FindProc_fails:
  assumes "index_ok ix" "ns_valid ix i" "FindProc ix i cmd = Inl e"
  shows "is_exception e"
proof (cases "plain cmd")
  case True
  with FindProc_returns [OF assms(1,2) True] assms(3) show ?thesis by simp
next
  case False
  then have "absolute (spec_split cmd)" "NamespaceParts (spec_split cmd) = Inl OutOfRange"
    using NamespaceParts_absolute_short [OF SplitName_spec [of cmd]] by (simp_all add: plain_def)
  with assms(3) show ?thesis by (simp add: FindProc_def SplitName_spec ResolveNamespace_def)
qed

lemma reference_locations_fails: "reference_locations mem only ix kvs = Inl e \<Longrightarrow> e = Undefined"
  by (induction kvs)
    (auto simp: rbind_def nth_r_def location_of_def Let_def split: sum.splits if_splits option.splits)

lemma find_references_fails:
  assumes "index_ok ix" "absolute_ns (call_ns call)" "find_references mem live only ix call arg w = Inl e"
  shows "is_exception e \<or> e = Undefined"
proof -
  have tree: "tree_ok ix" using assms(1) by (simp add: index_ok_def)
  have guard: "word_type w = TEXT \<and> arg = 0" using assms(3) by (auto simp: find_references_def split: if_splits)
  show ?thesis
  proof (cases "FindNamespace ix (call_ns call)")
    case (Inl e')
    with assms(3) guard FindNamespace_fails [OF tree assms(2) Inl] show ?thesis by (simp add: find_references_def)
  next
    case (Inr found)
    with assms(3) guard obtain i where found: "found = Some i" by (cases found) (auto simp: find_references_def)
    have valid: "ns_valid ix i" using FindNamespace_valid [OF tree] Inr found by simp
    show ?thesis
    proof (cases "FindProc ix i (word_str w)")
      case (Inl e')
      with assms(3) guard Inr found FindProc_fails [OF assms(1) valid Inl] show ?thesis
        by (auto simp: find_references_def check_def split: if_splits)
    next
      case Inr': (Inr r)
      obtain ps ix1 where "r = (ps, ix1)" by (cases r)
      with assms(3) guard Inr found Inr' show ?thesis
        by (auto simp: find_references_def check_def rbind_def split: option.splits sum.splits if_splits
            dest: reference_locations_fails)
    qed
  qed
qed

section \<open>Proper requests\<close>

text \<open>A request has an identifier, and its position does not cast a double that is out of range.\<close>

definition request_ok :: "json \<Rightarrow> bool" where
  "request_ok m \<longleftrightarrow> (is_request m \<longrightarrow> json_contains ''id'' m) \<and>
     (case rbind (json_at ''params'' m) ReferencesParams_from_json of Inl e \<Rightarrow> is_exception e | Inr _ \<Rightarrow> True) \<and>
     (case rbind (json_at ''params'' m) TextDocumentPositionParams_from_json of Inl e \<Rightarrow> is_exception e | Inr _ \<Rightarrow> True)"

text \<open>A handler that throws only exceptions, and whose cursor can be used.\<close>

definition handler_ok :: "handler \<Rightarrow> bool" where
  "handler_ok h =
     (case h of
        Throws e \<Rightarrow> is_exception e
      | HasCursor m only cu u \<Rightarrow> json_contains ''id'' m \<and>
          (\<exists>call w. cursor_call cu = Some call \<and> cursor_word cu = Some w \<and> absolute_ns (call_ns call))
      | _ \<Rightarrow> True)"

lemma handler_ok_simps [simp]:
  "handler_ok Finished" "handler_ok (Throws e) = is_exception e" "handler_ok (Reparses u)" "handler_ok (Sends m l)"
  "handler_ok (HasCursor m only cu u) \<longleftrightarrow> json_contains ''id'' m \<and>
     (\<exists>call w. cursor_call cu = Some call \<and> cursor_word cu = Some w \<and> absolute_ns (call_ns call))"
  by (simp_all add: handler_ok_def)

definition docs_absolute :: "Server \<Rightarrow> bool" where
  "docs_absolute s \<longleftrightarrow> (\<forall>u d. documents s u = Some d \<longrightarrow> names_absolute (doc_script d))"

lemma json_contains_index: "json_contains k m \<Longrightarrow> json_index k m \<noteq> Inl e"
  by (auto simp: json_contains_def json_index_def split: json.splits)

lemma FindPosition_fails:
  assumes "inv T s js run" "docs_absolute s" "documents s u = Some d"
  shows "returns (FindPositionInScript (doc_script d) pos)
    (\<lambda>cu. \<forall>call. cursor_call cu = Some call \<longrightarrow> absolute_ns (call_ns call))"
proof -
  have "list_all shaped (words_in_script (doc_script d))" using assms(1,3) by (simp add: inv_def doc_ok_def)
  from FindPositionInScript_ok [OF this, of pos] FindPositionInScript_eq [OF this, of pos]
  have "returns (FindPositionInScript (doc_script d) pos)
      (\<lambda>cu. \<forall>call. cursor_call cu = Some call \<longrightarrow> call \<in> set (calls_in_script (doc_script d)))"
    by (auto simp: cursor_ok_def)
  moreover have "names_absolute (doc_script d)" using assms(2,3) by (simp add: docs_absolute_def)
  ultimately show ?thesis by (auto simp: names_absolute_def list_all_iff elim: returns_mono)
qed

lemma lookup_start_ok:
  assumes "inv T s js run" "docs_absolute s" "json_contains ''id'' m"
  shows "handler_ok (lookup_start s m only u p)"
proof (cases "documents s u")
  case None
  then show ?thesis by (simp add: lookup_start_def GetCursor_def find_document_def handler_of_def)
next
  case (Some d)
  let ?pos = "LinePos (unat (position_line p)) (unat (position_character p))"
  obtain cu where cu: "FindPositionInScript (doc_script d) ?pos = Inr cu"
    "\<forall>call. cursor_call cu = Some call \<longrightarrow> absolute_ns (call_ns call)"
    using FindPosition_fails [OF assms(1,2) Some, of ?pos] by (auto simp: returns_def)
  obtain i where "json_index ''id'' m = Inr i"
    using json_contains_index [OF assms(3)] by (cases "json_index ''id'' m") auto
  with Some cu assms(3) show ?thesis
    by (auto simp: lookup_start_def GetCursor_def find_document_def handler_of_def)
qed


lemma requests_ok:
  assumes "inv T s js run" "docs_absolute s" "request_ok m" "json_contains ''id'' m"
  shows "handler_ok (on_textdocument_references s m)" "handler_ok (on_textdocument_definition s m)"
  using lookup_start_ok [OF assms(1,2,4)] assms(3)
  by (auto simp: on_textdocument_references_def on_textdocument_definition_def request_ok_def split: sum.splits)

lemma map_r_exception: "map_r get_string js = Inl e \<Longrightarrow> is_exception e"
  by (induction js) (auto simp: get_string_def rbind_def split: json.splits sum.splits)

lemma WorkspaceOptions_exception: "WorkspaceOptions_from_json j = Inl e \<Longrightarrow> is_exception e"
  by (auto simp: WorkspaceOptions_from_json_def LSP_FROM_JSON_OPTIONAL_def json_at_def get_array_def rbind_def
      split: if_splits sum.splits json.splits option.splits dest: map_r_exception)

lemma initialize_ok:
  assumes "json_contains ''id'' m" "handle_initialize s m = (s', h)"
  shows "documents s' = documents s \<and> handler_ok h"
  using assms json_contains_index [OF assms(1)]
  by (auto simp: handle_initialize_def handler_of_def rbind_def Let_def json_value_def get_string_def
      split: sum.splits json.splits option.splits dest: WorkspaceOptions_exception)

lemma didopen_absolute: "docs_absolute s \<Longrightarrow> docs_absolute (fst (on_textdocument_didopen s m))"
  by (auto simp: on_textdocument_didopen_def docs_absolute_def emplace_document_def new_Document_def split: sum.splits)

lemma didchange_absolute: "docs_absolute s \<Longrightarrow> docs_absolute (fst (on_textdocument_didchange s m))"
  by (auto simp: on_textdocument_didchange_def docs_absolute_def Let_def split: sum.splits)

lemma dispatch_ok:
  assumes "inv T s js run" "docs_absolute s" "message_safe T m" "request_ok m" "dispatch s m = (s', d)"
  shows "docs_absolute s' \<and> (\<forall>h. d = Spawns h \<longrightarrow> handler_ok h) \<and> (\<forall>e. d = Raises e \<longrightarrow> is_exception e)"
proof (cases "if json_contains ''method'' m then json_index ''method'' m else Inl JsonError")
  case (Inl e)
  with assms(2,5) show ?thesis by (auto simp: dispatch_def)
next
  case (Inr x)
  then have h: "has_method n m \<longleftrightarrow> x = JString n" for n by (auto simp: has_method_def split: if_splits)
  then have id: "json_contains ''id'' m" if "x \<in> JString ` {''initialize'', ''shutdown'',
      ''textDocument/references'', ''textDocument/definition''}"
    using that assms(4) by (auto simp: request_ok_def is_request_def)
  obtain s1 h1 s2 h2 s3 h3 where hs: "handle_initialize s m = (s1, h1)" "on_textdocument_didopen s m = (s2, h2)"
    "on_textdocument_didchange s m = (s3, h3)"
    by (metis surj_pair)
  have "docs_absolute s2" "docs_absolute s3"
    using didopen_absolute [OF assms(2), of m] didchange_absolute [OF assms(2), of m] by (simp_all add: hs)
  moreover have "handler_ok h2" "handler_ok h3"
    using didopen_inv [OF assms(1,3) hs(2)] didchange_inv [OF assms(1,3) hs(3)] by auto
  moreover have "docs_absolute s1 \<and> handler_ok h1" if "json_contains ''id'' m"
    using initialize_ok [OF that hs(1)] assms(2) by (simp add: docs_absolute_def)
  ultimately show ?thesis
    using assms(2,5) id requests_ok [OF assms(1,2,4)] json_contains_index [of "''id''" m] didclose_exception [of m]
    by (auto simp: dispatch_def Inr hs split: if_splits sum.splits)
qed

section \<open>The ways to crash\<close>

definition crash_inv :: "tcl \<Rightarrow> config \<Rightarrow> bool" where
  "crash_inv T c \<longleftrightarrow> server_inv T c \<and> list_all request_ok (inbox c) \<and> docs_absolute (server c) \<and>
     (\<forall>j. running c = Some j \<longrightarrow> names_absolute (job_script j)) \<and>
     (\<forall>m only cu u n. main_state c = AtCursor m only cu u n \<longrightarrow> handler_ok (HasCursor m only cu u))"

lemma crash_inv_initial:
  "list_all (message_safe T) messages \<Longrightarrow> list_all request_ok messages \<Longrightarrow> crash_inv T (initial messages)"
  by (simp add: crash_inv_def server_inv_initial) (simp add: initial_def docs_absolute_def new_Server_def)

text \<open>A step that ends at a handler that is in order crashes only if an answer overlaps another.\<close>

lemma send_crash:
  "main_state (send dump r l b c) = Crashed e \<Longrightarrow> alive c \<Longrightarrow> output_ok Q dump c \<Longrightarrow> e = Undefined \<and> sending c \<noteq> None"
  using output_sending [of Q dump c]
  by (auto simp: send_def start_send_def Let_def split: sum.splits if_splits option.splits)

lemma run_handler_crash:
  "main_state (run_handler dump h c) = Crashed e \<Longrightarrow> alive c \<Longrightarrow> output_ok Q dump c \<Longrightarrow> handler_ok h \<Longrightarrow>
   e = Undefined \<and> sending c \<noteq> None"
  by (cases h) (auto simp: run_handler_def split: if_splits dest: send_crash)


lemma run_handler_state:
  "main_state (run_handler dump h c) = AtCursor m only cu u n \<Longrightarrow>
   h = HasCursor m only cu u \<or> main_state c = AtCursor m only cu u n"
  by (cases h) (auto simp: run_handler_def split: if_splits dest: send_state)

lemma dispatch_turn_state:
  assumes "dispatch (server c) m' = (s, d)" "main_state c = Ready"
    "main_state (dispatch_turn dump m' c) = AtCursor m only cu u n"
  shows "d = Spawns (HasCursor m only cu u)"
  using assms run_handler_state [of dump _ "c\<lparr>server := s\<rparr>" m only cu u n]
  by (cases d) (auto simp: dispatch_turn_def raised_def split: if_splits dest: send_state)

lemma lookup_finish_documents:
  "lookup_finish s m only cu = (s', h) \<Longrightarrow> documents s' = documents s \<and> (\<forall>m' o' cu' u. h \<noteq> HasCursor m' o' cu' u)"
  by (auto simp: lookup_finish_def handler_of_def rbind_def split: option.splits sum.splits)

lemma docs_absolute_cong: "documents s' = documents s \<Longrightarrow> docs_absolute s' = docs_absolute s"
  by (simp add: docs_absolute_def)

lemma close_absolute: "docs_absolute s \<Longrightarrow> didclose_locked s u = Inr s' \<Longrightarrow> docs_absolute s'"
  by (auto simp: didclose_locked_def rbind_Inr_iff docs_absolute_def split: if_splits)

lemma commit_absolute: "docs_absolute s \<Longrightarrow> names_absolute (job_script j) \<Longrightarrow> docs_absolute (reparse_commit j s)"
  by (auto simp: reparse_commit_def docs_absolute_def move_result_def split: option.splits)

lemma step_crash_inv: "step T dump c c' \<Longrightarrow> crash_inv T c \<Longrightarrow> crash_inv T c'"
proof -
  assume s: "step T dump c c'" and inv: "crash_inv T c"
  then have inv': "server_inv T c'" using step_inv by (simp add: crash_inv_def)
  from s show ?thesis
  proof cases
    case (receive m ms)
    obtain sv d where d: "dispatch (server (c\<lparr>inbox := ms\<rparr>)) m = (sv, d)" by (metis surj_pair)
    have "inv T (server c) (jobs c) (running c)" "docs_absolute (server c)" "message_safe T m" "request_ok m"
      using inv receive by (simp_all add: crash_inv_def server_inv_def)
    from dispatch_ok [OF this, of sv d] d
    have ok: "docs_absolute sv" "\<And>h. d = Spawns h \<Longrightarrow> handler_ok h" by simp_all
    have "handler_ok (HasCursor m' only cu u)" if "main_state c' = AtCursor m' only cu u n" for m' only cu u n
      using that receive ok(2) dispatch_turn_state [OF d] by auto
    with inv inv' receive ok(1) show ?thesis
      by (simp add: crash_inv_def dispatch_turn_fields [OF d] del: handler_ok_simps)
  next
    case (resume_lookup m only cursor u n)
    obtain sv h where h: "lookup_finish (server c) m only cursor = (sv, h)" by (metis surj_pair)
    have "docs_absolute sv"
      using inv lookup_finish_documents [OF h] docs_absolute_cong [of sv "server c"] by (simp add: crash_inv_def)
    have "main_state c' \<noteq> AtCursor m' o' cu' u' n'" for m' o' cu' u' n'
      using resume_lookup(1) lookup_finish_documents [OF h]
        run_handler_state [of dump h "c\<lparr>server := sv, main_state := Ready\<rparr>" m' o' cu' u' n']
      by (auto simp: lookup_turn_def h)
    moreover have "docs_absolute (server c') \<and> running c' = running c \<and> inbox c' = inbox c"
      using resume_lookup(1) inv \<open>docs_absolute sv\<close> by (simp add: lookup_turn_def h crash_inv_def)
    ultimately show ?thesis using inv inv' by (simp add: crash_inv_def)
  next
    case (take_lock u)
    with inv inv' close_absolute [of "server c" u] show ?thesis
      by (auto simp: crash_inv_def close_turn_def raised_def split: sum.splits)
  next
    case (start_job u us)
    then have i: "inv T (server c) (u # us) None" using inv by (simp add: crash_inv_def server_inv_def)
    obtain d where d: "documents (server c) u = Some d" "doc_ok T (server c) u d" using i by (auto simp: inv_def)
    obtain j sv where j: "reparse_start T u (server c) = Inr (j, sv)" using i by (rule inv_start)
    with reparse_names_absolute [OF j d] start_job inv inv' docs_absolute_cong [of sv "server c"] show ?thesis
      by (simp add: crash_inv_def start_turn_def)
  next
    case (commit_job j)
    with inv inv' commit_absolute show ?thesis by (simp add: crash_inv_def commit_turn_def)
  qed (use inv inv' in \<open>auto simp: crash_inv_def written_turn_def failed_turn_def\<close>)
qed

interpretation crash_freedom: preserved "step T dump" "crash_inv T" for T dump
  by unfold_locales (rule step_crash_inv)

lemma lookup_crash:
  assumes "crash_inv T c" "output_ok Q dump c" "main_state c = AtCursor m only cu u n"
    and "main_state (lookup_turn dump m only cu u n c) = Crashed e"
  shows "e = Undefined \<and> (sending c \<noteq> None \<or>
    (case documents (server c) u of Some d \<Rightarrow> doc_parses d | None \<Rightarrow> 0) \<noteq> n \<or>
    (\<exists>call w. cursor_call cu = Some call \<and> cursor_word cu = Some w \<and>
       find_references (files (server c)) (text_alive (server c)) only (index (server c)) call (cursor_argument cu) w = Inl Undefined))"
proof (cases "(case documents (server c) u of Some d \<Rightarrow> doc_parses d | None \<Rightarrow> 0) = n")
  case True
  obtain call w where cu: "cursor_call cu = Some call" "cursor_word cu = Some w" "absolute_ns (call_ns call)"
    "json_contains ''id'' m"
    using assms(1,3) by (auto simp: crash_inv_def)
  obtain i where i: "json_index ''id'' m = Inr i"
    using json_contains_index [OF cu(4)] by (cases "json_index ''id'' m") auto
  have ix: "index_ok (index (server c))" using assms(1) by (simp add: crash_inv_def server_inv_def inv_def index_inv_def)
  show ?thesis
  proof (cases "find_references (files (server c)) (text_alive (server c)) only (index (server c)) call (cursor_argument cu) w")
    case (Inl e')
    with True assms(4) cu find_references_fails [OF ix cu(3) Inl] show ?thesis
      by (auto simp: lookup_turn_def lookup_finish_def run_handler_def split: if_splits)
  next
    case (Inr r)
    obtain ls ix' where r: "r = (ls, ix')" by (cases r)
    let ?c = "c\<lparr>server := (server c)\<lparr>index := ix'\<rparr>, main_state := Ready\<rparr>"
    have "main_state (run_handler dump (Sends (reply_message i (JArray (map Location_to_json ls))) True) ?c) = Crashed e"
      using assms(4) True cu i Inr r by (simp add: lookup_turn_def lookup_finish_def handler_of_def)
    from run_handler_crash [OF this _ _ handler_ok_simps(4)] assms(2) show ?thesis by simp
  qed
next
  case False
  with assms(4) show ?thesis by (simp add: lookup_turn_def)
qed

lemma step_crash:
  assumes "step T dump c c'" "crash_inv T c" "output_ok Q dump c" "main_state c' = Crashed e"
  shows "e = Undefined \<and> (sending c \<noteq> None \<or>
    (\<exists>m only cu u n. main_state c = AtCursor m only cu u n \<and>
      ((case documents (server c) u of Some d \<Rightarrow> doc_parses d | None \<Rightarrow> 0) \<noteq> n \<or>
       (\<exists>call w. cursor_call cu = Some call \<and> cursor_word cu = Some w \<and>
          find_references (files (server c)) (text_alive (server c)) only (index (server c)) call (cursor_argument cu) w = Inl Undefined))))"
  using assms(1)
proof cases
  case (receive m ms)
  obtain sv d where d: "dispatch (server c) m = (sv, d)" by (metis surj_pair)
  have "inv T (server c) (jobs c) (running c)" "docs_absolute (server c)" "message_safe T m" "request_ok m"
    using assms(2) receive by (simp_all add: crash_inv_def server_inv_def)
  note ok = dispatch_ok [OF this d]
  let ?c = "c\<lparr>inbox := ms, server := sv\<rparr>"
  have "output_ok Q dump ?c" "alive ?c" using assms(3) receive by simp_all
  with ok receive assms(4) send_crash [of dump _ _ _ ?c e Q] run_handler_crash [of dump _ ?c e Q] show ?thesis
    by (cases d) (auto simp: dispatch_turn_def d raised_def split: if_splits)
next
  case (resume_lookup m only cursor u n)
  with lookup_crash [OF assms(2,3) resume_lookup(2)] assms(4) show ?thesis by blast
next
  case (take_lock u)
  with assms(4) show ?thesis
    by (auto simp: close_turn_def raised_def didclose_locked_def find_document_def rbind_def
        split: sum.splits option.splits if_splits)
next
  case (start_job u us)
  then have "inv T (server c) (u # us) None" using assms(2) by (simp add: crash_inv_def server_inv_def)
  then obtain j s where "reparse_start T u (server c) = Inr (j, s)" by (rule inv_start)
  with assms(4) start_job show ?thesis by (simp add: start_turn_def)
qed (use assms(4) in \<open>auto simp: written_turn_def failed_turn_def commit_turn_def split: if_splits\<close>)

end
