(* ===== verification/ServerAnswers.thy ===== *)
theory ServerAnswers
  imports ServerCrash ProtocolProperties
begin

text \<open>
  Which messages the server has answered: the requests that were received, each at most once and in
  their order.
\<close>

text \<open>The message that is being handled: received, but not done with.\<close>

definition pending :: "config \<Rightarrow> json list" where
  "pending c = (case main_state c of AtCursor m only cu u n \<Rightarrow> [m] | _ \<Rightarrow> [])"

definition answered :: "json list \<Rightarrow> json list \<Rightarrow> bool" where
  "answered ms sent \<longleftrightarrow> (\<exists>qs. subseq qs ms \<and> list_all2 answers qs sent)"

lemma answered_more: "answered ms sent \<Longrightarrow> answered (ms @ ms') sent"
  unfolding answered_def by (meson list_emb_prefix)

lemma answered_reply:
  assumes "answered ms sent" "answers m r"
  shows "answered (ms @ [m]) (sent @ [r])"
proof -
  obtain qs where qs: "subseq qs ms" "list_all2 answers qs sent" using assms(1) by (auto simp: answered_def)
  have "subseq (qs @ [m]) (ms @ [m])" by (rule list_emb_append_mono [OF qs(1)]) simp
  moreover have "list_all2 answers (qs @ [m]) (sent @ [r])" using qs(2) assms(2) by (simp add: list_all2_appendI)
  ultimately show ?thesis unfolding answered_def by blast
qed

definition answers_inv :: "json list \<Rightarrow> (json \<Rightarrow> string) \<Rightarrow> config \<Rightarrow> bool" where
  "answers_inv messages dump c \<longleftrightarrow>
     (\<exists>ms sent. messages = ms @ pending c @ inbox c \<and> logged dump c sent \<and> answered ms sent)"

lemma lookup_start_cursor: "lookup_start s m only u p = HasCursor m' o' cu v \<Longrightarrow> m' = m"
  by (auto simp: lookup_start_def handler_of_def rbind_def split: sum.splits if_splits)

lemma dispatch_cursor: "dispatch s m = (s', Spawns (HasCursor m' only cu u)) \<Longrightarrow> m' = m"
  by (auto simp: dispatch_def handle_initialize_def on_textdocument_didopen_def on_textdocument_didchange_def
      on_textdocument_references_def on_textdocument_definition_def handler_of_def rbind_def Let_def
      split: if_splits sum.splits dest!: lookup_start_cursor)

lemma pending_simps [simp]:
  "main_state c = Ready \<Longrightarrow> pending c = []" "main_state c = AwaitsReply \<Longrightarrow> pending c = []"
  "main_state c = Stopped \<Longrightarrow> pending c = []" "main_state c = Crashed e \<Longrightarrow> pending c = []"
  "main_state c = Locking u \<Longrightarrow> pending c = []" "main_state c = AtCursor m only cu u n \<Longrightarrow> pending c = [m]"
  by (simp_all add: pending_def)

lemma pending_cong: "main_state c' = main_state c \<Longrightarrow> pending c' = pending c"
  by (simp add: pending_def)

lemma no_pending: "\<forall>m only cu u n. main_state c \<noteq> AtCursor m only cu u n \<Longrightarrow> pending c = []"
  by (simp add: pending_def split: main_state.split)

text \<open>What a step does with the messages.\<close>

lemma receive_messages:
  assumes "main_state c = Ready" "inbox c = m # ms" "c' = dispatch_turn dump m (c\<lparr>inbox := ms\<rparr>)"
  shows "\<exists>ds. pending c @ inbox c = ds @ pending c' @ inbox c'"
proof -
  obtain s d where d: "dispatch (server (c\<lparr>inbox := ms\<rparr>)) m = (s, d)" by (metis surj_pair)
  have inbox: "inbox c' = ms" using dispatch_turn_fields(4) [OF d] by (simp add: assms(3))
  show ?thesis
  proof (cases "main_state c'")
    case (AtCursor m1 only cu u n)
    then have "d = Spawns (HasCursor m1 only cu u)"
      using dispatch_turn_state [OF d, of dump m1 only cu u n] assms(1,3) by simp
    with dispatch_cursor d have "m1 = m" by simp
    with AtCursor inbox assms(1,2) show ?thesis by simp
  qed (use inbox assms(1,2) in simp_all)
qed

lemma resume_messages:
  assumes "main_state c = AtCursor m only cu u n" "c' = lookup_turn dump m only cu u n c"
  shows "\<exists>ds. pending c @ inbox c = ds @ pending c' @ inbox c'"
proof -
  obtain s h where h: "lookup_finish (server c) m only cu = (s, h)" by (metis surj_pair)
  have "pending c' = []"
  proof (rule no_pending, intro allI notI)
    fix m1 o1 cu1 u1 n1
    assume "main_state c' = AtCursor m1 o1 cu1 u1 n1"
    then show False
      using lookup_finish_documents [OF h] run_handler_state [of dump h "c\<lparr>server := s, main_state := Ready\<rparr>" m1 o1 cu1 u1 n1]
      by (auto simp: assms(2) lookup_turn_def h split: if_splits)
  qed
  moreover have "inbox c' = inbox c" by (simp add: assms(2) lookup_turn_def h)
  ultimately show ?thesis using assms(1) by simp
qed

lemma step_messages: "step T dump c c' \<Longrightarrow> \<exists>ds. pending c @ inbox c = ds @ pending c' @ inbox c'"
proof (induction rule: step.induct)
  case (receive c m ms)
  then show ?case using receive_messages by blast
next
  case (resume_lookup c m only cu u n)
  then show ?case using resume_messages by blast
next
  case (take_lock c u)
  then show ?case by (auto simp: close_turn_def raised_def split: sum.split)
next
  case (message_written c)
  then have "pending (written_turn c) = []" "pending c = []" "inbox (written_turn c) = inbox c"
    by (auto simp: written_turn_def)
  then show ?case by simp
next
  case (write_fails c k)
  then have "pending (failed_turn k c) = []" "pending c = []" "inbox (failed_turn k c) = inbox c"
    by (auto simp: failed_turn_def)
  then show ?case by simp
next
  case (start_job c u us)
  have "pending (start_turn T u us c) = pending c \<or> pending (start_turn T u us c) = []"
    "inbox (start_turn T u us c) = inbox c"
    by (auto simp: start_turn_def intro: pending_cong split: sum.split)
  then show ?case by auto
next
  case (commit_job c j)
  have "pending (commit_turn j c) = pending c" "inbox (commit_turn j c) = inbox c"
    by (simp_all add: commit_turn_def pending_def)
  then show ?case by simp
qed simp

lemma step_sends_messages:
  "step_sends c m r c' \<Longrightarrow> pending c @ inbox c = m # pending c' @ inbox c'"
  by (auto simp: step_sends_def may_send_def no_pending split: if_splits)

lemma step_answers:
  assumes "step T dump c c'" "answers_inv messages dump c" "list_all json_ok messages"
  shows "answers_inv messages dump c'"
proof -
  obtain ms sent where ms: "messages = ms @ pending c @ inbox c" and sent: "logged dump c sent" "answered ms sent"
    using assms(2) by (auto simp: answers_inv_def)
  from step_logged [OF assms(1) sent(1)]
  consider (silent) "logged dump c' sent" | (sends) m r where "step_sends c m r c'" "logged dump c' (sent @ [r])"
    by blast
  then show ?thesis
  proof cases
    case silent
    obtain ds where "pending c @ inbox c = ds @ pending c' @ inbox c'" using step_messages [OF assms(1)] by blast
    with ms silent answered_more [OF sent(2), of ds] show ?thesis
      unfolding answers_inv_def by (intro exI [of _ "ms @ ds"] exI [of _ sent]) simp
  next
    case (sends m r)
    note m = step_sends_messages [OF sends(1)]
    then have "json_ok m" using assms(3) ms by simp
    then have "answers m r" using sends(1) sent_answers unfolding step_sends_def may_send_def by blast
    with ms m sends(2) answered_reply [OF sent(2)] show ?thesis
      unfolding answers_inv_def by (intro exI [of _ "ms @ [m]"] exI [of _ "sent @ [r]"]) simp
  qed
qed

interpretation answering: preserved "step T dump" "\<lambda>c. list_all json_ok messages \<and> answers_inv messages dump c"
  for T dump messages
  by unfold_locales (auto intro: step_answers)

lemma reachable_answers:
  assumes "reachable T dump messages c" "list_all json_ok messages"
  shows "answers_inv messages dump c"
proof -
  have "answers_inv messages dump (initial messages)"
    unfolding answers_inv_def
    by (intro exI [of _ "[]"]) (auto simp: initial_logged answered_def, simp_all add: initial_def)
  then show ?thesis
    using reachable_induct [OF answering.preserved_axioms assms(1), of messages] assms(2) by simp
qed

end
