(* ===== verification/LookupCorrect.thy ===== *)
theory LookupCorrect
  imports ServerCorrect
begin

text \<open>
  What a lookup of references or definitions finds, in terms of the view of the index.
\<close>

definition file_location :: "SourceFile \<Rightarrow> SourceLocation \<Rightarrow> Location" where
  "file_location f loc =
     (let p = \<lparr>position_line = of_nat (loc_line loc), position_character = of_nat (loc_column loc)\<rparr>
      in \<lparr>location_uri = fileName f, location_range = \<lparr>range_start = p, range_end = p\<rparr>\<rparr>)"

text \<open>The references among those at the given places that are wanted.\<close>

definition wanted :: "bool \<Rightarrow> Index \<Rightarrow> (nat \<times> nat) list \<Rightarrow> Reference list" where
  "wanted only ix ks = filter (\<lambda>r. only \<longrightarrow> ref_type r = DEFINITION) (map (\<lambda>k. references (procs ix) ! snd k) ks)"

lemma reference_locations_alive:
  assumes "\<forall>r \<in> set (references (procs ix)). mem (sourceFile (ref_location r)) = Some f"
  shows "(\<forall>k \<in> set ks. snd k < length (references (procs ix))) \<Longrightarrow>
    reference_locations mem only ix ks = Inr (map (\<lambda>r. file_location f (ref_location r)) (wanted only ix ks))"
proof (induction ks)
  case (Cons k ks)
  then have "references (procs ix) ! snd k \<in> set (references (procs ix))" by simp
  with assms have "mem (sourceFile (ref_location (references (procs ix) ! snd k))) = Some f" by blast
  with Cons show ?case by (auto simp: wanted_def location_of_def file_location_def Let_def)
qed (simp add: wanted_def)

lemma reference_locations_dead:
  assumes "\<forall>r \<in> set (references (procs ix)). mem (sourceFile (ref_location r)) = None"
  shows "(\<forall>k \<in> set ks. snd k < length (references (procs ix))) \<Longrightarrow>
    reference_locations mem only ix ks = (if wanted only ix ks = [] then Inr [] else Inl Undefined)"
proof (induction ks)
  case (Cons k ks)
  then have "references (procs ix) ! snd k \<in> set (references (procs ix))" by simp
  with assms have "mem (sourceFile (ref_location (references (procs ix) ! snd k))) = None" by blast
  with Cons show ?case by (auto simp: wanted_def location_of_def)
qed (simp add: wanted_def)

text \<open>
  The procedure that a call from the namespace \<open>path\<close> of \<open>name\<close> with \<open>n\<close> arguments stands for.
\<close>

definition spec_target :: "string list \<Rightarrow> string \<Rightarrow> nat \<Rightarrow> IndexView \<Rightarrow> ProcView option" where
  "spec_target path name n v =
     (if path \<in> view_paths v
      then spec_best n (first_nonempty
        (map (\<lambda>d. procs_at d (qname (spec_split name)) v) (search_paths (spec_split name) path)))
      else None)"

definition spec_lookup :: "SourceFile \<Rightarrow> bool \<Rightarrow> string list \<Rightarrow> string \<Rightarrow> nat \<Rightarrow> IndexView \<Rightarrow> Location list" where
  "spec_lookup f only path name n v =
     (case spec_target path name n v of
        None \<Rightarrow> []
      | Some p \<Rightarrow> map (\<lambda>r. file_location f (ref_location r))
          (filter (\<lambda>r. ref_id r = pv_id p \<and> (only \<longrightarrow> ref_type r = DEFINITION)) (view_refs v)))"

lemma find_references_found:
  assumes "word_type w = TEXT" "live w" "FindNamespace ix (call_ns call) = Inr (Some i)" "FindProc ix i (word_str w) = Inr (ps, ix1)"
  shows "find_references mem live only ix call 0 w =
    (case map_option (proc_view ix1) (BestFitProcToCall ps call) of
       None \<Rightarrow> Inr ([], ix1)
     | Some p \<Rightarrow> rbind (reference_locations mem only ix1 (mm_equal_range (pv_id p) (refsByID (procs ix1))))
         (\<lambda>ls. Inr (ls, ix1)))"
  using assms by (simp add: find_references_def check_def proc_view_def split: option.split)

lemma find_references_eq:
  assumes "index_ok ix" "call_ns call = (if path = [] then [] else abs_name path)" "simple_names path"
    and "word_type w = TEXT" "plain (word_str w)" "call_words call \<noteq> []" "live w"
  obtains ix1 where "index_ok ix1" and "same_content ix ix1"
    and "find_references mem live only ix call 0 w =
      (case spec_target path (word_str w) (length (call_words call) - 1) (view_of ix) of
         None \<Rightarrow> Inr ([], ix1)
       | Some p \<Rightarrow> rbind (reference_locations mem only ix1 (mm_equal_range (pv_id p) (refsByID (procs ix1))))
           (\<lambda>ls. Inr (ls, ix1)))"
proof -
  have tree: "tree_ok ix" using assms(1) by simp
  have found: "FindNamespace ix (call_ns call) = Inr (ns_lookup ix path)"
    unfolding assms(2) by (rule FindNamespace_abs_name [OF tree assms(3)])
  show thesis
  proof (cases "ns_lookup ix path")
    case None
    then have "path \<notin> view_paths (view_of ix)" by (simp add: ns_lookup_None view_of_def)
    with None found assms(1,4) show ?thesis
      by (intro that [of ix]) (simp_all add: find_references_def spec_target_def same_content_def)
  next
    case (Some i)
    then have i: "ns_valid ix i" "ns_path ix i = path" by (simp_all add: ns_lookup_Some [OF tree])
    then have here: "path \<in> view_paths (view_of ix)" using view_paths_mem by (auto simp: view_of_def)
    obtain ps ix1 where p: "FindProc ix i (word_str w) = Inr (ps, ix1)" and ps: "index_ok ix1" "procs ix1 = procs ix"
      "set ps \<subseteq> set (table (procs ix))"
      "(map (proc_view ix1) ps, view_of ix1) = spec_find (spec_split (word_str w)) path (view_of ix)"
      using FindProc_returns [OF assms(1) i(1) assms(5)] by (auto simp: returns_def i(2))
    have content: "same_content ix ix1" using FindProc_content [OF assms(1) i(1) p] by simp
    have "list_all (\<lambda>p. \<not> is_variadic p) ps"
      using ps(1-3) by (auto simp: list_all_iff index_ok_def proc_ok_def)
    from BestFit_eq [OF this assms(6), of ix1]
    have best: "spec_target path (word_str w) (length (call_words call) - 1) (view_of ix)
        = map_option (proc_view ix1) (BestFitProcToCall ps call)"
      using ps(4) here spec_find_found [of "spec_split (word_str w)" path "view_of ix"]
      by (simp add: spec_target_def flip: ps(4))
    show ?thesis
      by (rule that [OF ps(1) content])
        (simp only: best find_references_found [where live = live and w = w, OF assms(4,7) found [unfolded Some] p])
  qed
qed

text \<open>A word whose text is gone can only be used as long as nothing is looked up for it.\<close>

lemma find_references_unreadable:
  assumes "index_ok ix" "call_ns call = (if path = [] then [] else abs_name path)" "simple_names path"
    and "word_type w = TEXT" "word_str w \<noteq> []" "\<not> live w"
  shows "find_references mem live only ix call 0 w
    = (if path \<in> view_paths (view_of ix) then Inl Undefined else Inr ([], ix))"
proof -
  have tree: "tree_ok ix" using assms(1) by simp
  have found: "FindNamespace ix (call_ns call) = Inr (ns_lookup ix path)"
    unfolding assms(2) by (rule FindNamespace_abs_name [OF tree assms(3)])
  show ?thesis
  proof (cases "ns_lookup ix path")
    case None
    then have "path \<notin> view_paths (view_of ix)" by (simp add: ns_lookup_None view_of_def)
    then show ?thesis using found assms(4) None by (simp add: find_references_def)
  next
    case (Some i)
    then have "path \<in> view_paths (view_of ix)"
      using view_paths_mem ns_lookup_Some [OF tree] by (auto simp: view_of_def)
    then show ?thesis using found assms(4-6) Some by (simp add: find_references_def check_def)
  qed
qed

lemma wanted_range:
  assumes "index_ok ix1" "same_content ix ix1"
  shows "wanted only ix1 (mm_equal_range i (refsByID (procs ix1)))
      = filter (\<lambda>r. ref_id r = i \<and> (only \<longrightarrow> ref_type r = DEFINITION)) (view_refs (view_of ix))"
    and "\<forall>k \<in> set (mm_equal_range i (refsByID (procs ix1))). snd k < length (references (procs ix1))"
proof -
  have tab: "proc_db.table_ok (procs ix1)" using assms(1) by (simp add: index_ok_def)
  show "wanted only ix1 (mm_equal_range i (refsByID (procs ix1)))
      = filter (\<lambda>r. ref_id r = i \<and> (only \<longrightarrow> ref_type r = DEFINITION)) (view_refs (view_of ix))"
    using assms(2) unfolding wanted_def proc_db.refs_range [OF tab]
    by (simp add: view_of_def same_content_def conj_commute)
  show "\<forall>k \<in> set (mm_equal_range i (refsByID (procs ix1))). snd k < length (references (procs ix1))"
    using proc_db.refs_range_bound [OF tab] by blast
qed

lemma find_references_alive:
  assumes "index_ok ix" "\<forall>r \<in> set (references (procs ix)). mem (sourceFile (ref_location r)) = Some f"
    and "call_ns call = (if path = [] then [] else abs_name path)" "simple_names path"
    and "word_type w = TEXT" "plain (word_str w)" "call_words call \<noteq> []" "live w"
  shows "returns (find_references mem live only ix call 0 w) (\<lambda>(ls, ix'). index_ok ix' \<and> same_content ix ix' \<and>
    ls = spec_lookup f only path (word_str w) (length (call_words call) - 1) (view_of ix))"
proof -
  obtain ix1 where ix1: "index_ok ix1" "same_content ix ix1"
    and eq: "find_references mem live only ix call 0 w =
      (case spec_target path (word_str w) (length (call_words call) - 1) (view_of ix) of
         None \<Rightarrow> Inr ([], ix1)
       | Some p \<Rightarrow> rbind (reference_locations mem only ix1 (mm_equal_range (pv_id p) (refsByID (procs ix1))))
           (\<lambda>ls. Inr (ls, ix1)))"
    by (rule find_references_eq [where live = live and w = w, OF assms(1,3-8)])
  have "\<forall>r \<in> set (references (procs ix1)). mem (sourceFile (ref_location r)) = Some f"
    using assms(2) ix1(2) by (simp add: same_content_def)
  from reference_locations_alive [OF this] ix1 wanted_range [OF ix1] show ?thesis
    unfolding eq
    by (cases "spec_target path (word_str w) (length (call_words call) - 1) (view_of ix)")
      (simp_all add: spec_lookup_def)
qed

lemma find_references_dead:
  assumes "index_ok ix" "\<forall>r \<in> set (references (procs ix)). mem (sourceFile (ref_location r)) = None"
    and "call_ns call = (if path = [] then [] else abs_name path)" "simple_names path"
    and "word_type w = TEXT" "plain (word_str w)" "call_words call \<noteq> []" "live w"
  shows "if spec_lookup f only path (word_str w) (length (call_words call) - 1) (view_of ix) = []
    then returns (find_references mem live only ix call 0 w) (\<lambda>(ls, ix'). ls = [])
    else find_references mem live only ix call 0 w = Inl Undefined"
proof -
  obtain ix1 where ix1: "index_ok ix1" "same_content ix ix1"
    and eq: "find_references mem live only ix call 0 w =
      (case spec_target path (word_str w) (length (call_words call) - 1) (view_of ix) of
         None \<Rightarrow> Inr ([], ix1)
       | Some p \<Rightarrow> rbind (reference_locations mem only ix1 (mm_equal_range (pv_id p) (refsByID (procs ix1))))
           (\<lambda>ls. Inr (ls, ix1)))"
    by (rule find_references_eq [where live = live and w = w, OF assms(1,3-8)])
  have "\<forall>r \<in> set (references (procs ix1)). mem (sourceFile (ref_location r)) = None"
    using assms(2) ix1(2) by (simp add: same_content_def)
  from reference_locations_dead [OF this] wanted_range [OF ix1] show ?thesis
    unfolding eq
    by (cases "spec_target path (word_str w) (length (call_words call) - 1) (view_of ix)")
      (simp_all add: spec_lookup_def)
qed

end
