(* ===== verification/ServerProperties.thy ===== *)
theory ServerProperties
  imports ServerAnswers LookupCorrect Examples
begin

text \<open>
  The properties of the running server.
\<close>

section \<open>Example messages\<close>

definition notification :: "string \<Rightarrow> json \<Rightarrow> json" where
  "notification meth params = object_of [(''method'', JString meth), (''params'', params)]"

definition open_message :: json where
  "open_message = notification ''textDocument/didOpen'' (object_of
     [(''textDocument'', TextDocumentItem_to_json
        \<lparr>item_uri = ''d'', item_languageId = ''tcl'', item_version = 1, item_text = example_text\<rparr>)])"

definition close_message :: json where
  "close_message = notification ''textDocument/didClose'' (object_of
     [(''textDocument'', TextDocumentIdentifier_to_json \<lparr>uri = ''d''\<rparr>)])"

text \<open>A request for the definition of what is at the start of the document.\<close>

definition definition_message :: json where
  "definition_message = object_of [(''id'', JInt 1), (''method'', JString ''textDocument/definition''),
     (''params'', TextDocumentPositionParams_to_json
        \<lparr>textDocument = \<lparr>uri = ''d''\<rparr>, position = \<lparr>position_line = 0, position_character = 0\<rparr>\<rparr>)]"

lemma example_text_safe: "safe_text example_tcl u example_text"
proof -
  have parse: "case parse_file example_tcl (file_context u example_text a) of
      Inl _ \<Rightarrow> True | Inr (s, _) \<Rightarrow> list_all call_ok (calls_in_script s)" for a
    by code_simp
  have "list_all call_ok (calls_in_script s)" if "parse_file example_tcl (file_context u example_text a) = Inr (s, ctx)" for a s ctx
    using parse [of a] that by simp
  then show ?thesis using example_documented by (simp add: safe_text_def)
qed

definition example_dump :: "json \<Rightarrow> string" where
  "example_dump j = ''json''"

lemma open_message_safe: "message_safe example_tcl open_message"
proof -
  have "rbind (json_at ''params'' open_message) DidOpenTextDocumentParams_from_json = Inr
      \<lparr>item_uri = ''d'', item_languageId = ''tcl'', item_version = 1, item_text = example_text\<rparr>"
    by code_simp
  moreover have "case rbind (json_at ''params'' open_message) DidChangeTextDocumentParams_from_json of
      Inl e \<Rightarrow> is_exception e | Inr p \<Rightarrow> False"
    by code_simp
  ultimately show ?thesis
    using example_text_safe by (auto simp: message_safe_def split: sum.splits)
qed


text \<open>The document is opened, parsed and its results are moved to the server.\<close>

definition opened :: "json list \<Rightarrow> config" where
  "opened ms = dispatch_turn example_dump open_message (initial ms)"

definition job_of :: "config \<Rightarrow> job" where
  "job_of c = the (running c)"

definition started :: "json list \<Rightarrow> config" where
  "started ms = start_turn example_tcl ''d'' [] (opened ms)"

definition committed :: "json list \<Rightarrow> config" where
  "committed ms = commit_turn (job_of (started ms)) (started ms)"

lemma opened_facts: "main_state (opened ms) = Ready" "running (opened ms) = None" "jobs (opened ms) = [''d'']"
  by code_simp+

lemma started_facts: "main_state (started ms) = Ready" "running (started ms) = Some (job_of (started ms))" "\<not> lock_held (started ms)"
  by code_simp+

lemma committed_reachable: "reachable example_tcl example_dump (open_message # ms) (committed ms)"
proof -
  have init: "initial (open_message # ms)\<lparr>inbox := ms\<rparr> = initial ms" by (simp add: initial_def)
  have "step example_tcl example_dump (initial (open_message # ms)) (opened ms)"
    using receive [of "initial (open_message # ms)" open_message ms example_tcl example_dump]
    unfolding opened_def init by (simp add: initial_def)
  moreover have "step example_tcl example_dump (opened ms) (started ms)"
    unfolding started_def by (rule start_job) (simp_all add: opened_facts)
  moreover have "step example_tcl example_dump (started ms) (committed ms)"
    unfolding committed_def by (rule commit_job [OF _ started_facts(2,3)]) (simp add: started_facts)
  ultimately show ?thesis unfolding reachable_def by (blast intro: exec.intros)
qed

section \<open>Documents\<close>

text \<open>C5: at every moment of every run the versions and texts of the documents are what the messages
  received so far make of an empty store, whatever the background threads do: the first opening of
  a name creates a document, a change with a higher version and exactly one text replaces the text,
  everything else leaves the documents alone. In particular opening a name again, after it was
  closed, has no effect on its text.\<close>

theorem documents_refine_store:
  assumes "reachable T dump messages c"
  shows "\<exists>ms. messages = ms @ inbox c \<and>
    store_of (server c) = fold (\<lambda>m. apply_event (event_of m)) ms Map.empty"
  using reachable_received [OF assms] by (simp add: received_def)

theorem documents_refine_store_witness:
  "\<exists>ms. [open_message, close_message] = ms @ inbox (committed [close_message]) \<and>
     store_of (server (committed [close_message])) = fold (\<lambda>m. apply_event (event_of m)) ms Map.empty"
  by (rule documents_refine_store [OF committed_reachable])




section \<open>Runs\<close>



text \<open>C27: which messages end the loop of the dispatcher: \<open>exit\<close>, and a \<open>didClose\<close> without proper
  parameters or (once it has the lock) with the name of an unknown document. The exceptions of the
  handlers, which run in coroutines of their own, never do.\<close>

theorem stopping_messages:
  assumes "main_state c = Ready" "json_contains ''method'' m"
  shows "(main_state (dispatch_turn dump m c) = Stopped \<longleftrightarrow>
      has_method ''exit'' m \<or> has_method ''textDocument/didClose'' m \<and> (\<exists>e. didclose_document m = Inl e)) \<and>
    (main_state (close_turn u c) = Stopped \<longleftrightarrow> documents (server c) u = None)"
proof -
  obtain s d where d: "dispatch (server c) m = (s, d)" by (metis surj_pair)
  have run: "main_state (run_handler dump h (c\<lparr>server := s\<rparr>)) \<noteq> Stopped" for h
    using assms(1) by (cases h) (auto simp: run_handler_def send_def split: sum.split)
  have send: "main_state (send dump r l b (c\<lparr>server := s\<rparr>)) \<noteq> Stopped" for r l b
    using assms(1) by (auto simp: send_def split: sum.split)
  have "main_state (dispatch_turn dump m c) = Stopped \<longleftrightarrow> d = Breaks \<or> (\<exists>e. d = Raises e \<and> is_exception e)"
    using assms(1) run send by (cases d) (simp_all add: dispatch_turn_def d raised_def)
  also have "\<dots> \<longleftrightarrow> has_method ''exit'' m \<or> has_method ''textDocument/didClose'' m \<and> (\<exists>e. didclose_document m = Inl e)"
    by (rule dispatch_ends [OF assms(2) d])
  finally show ?thesis
    using assms(1)
    by (auto simp: close_turn_def didclose_locked_def find_document_def raised_def split: option.splits)
qed

theorem stopping_messages_witness:
  "main_state (dispatch_turn example_dump (notification ''textDocument/didClose'' JNull) (initial [])) = Stopped"
proof -
  have m: "json_contains ''method'' (notification ''textDocument/didClose'' JNull)" by code_simp
  have c: "has_method ''textDocument/didClose'' (notification ''textDocument/didClose'' JNull)"
    "\<exists>e. didclose_document (notification ''textDocument/didClose'' JNull) = Inl e"
    by code_simp (rule exI [of _ JsonError], code_simp)
  show ?thesis using stopping_messages [of "initial []", OF _ m] c by (simp add: initial_def)
qed

section \<open>Lookups\<close>









text \<open>C15: in the running server the file that the references of the index are in is always gone: it was
  a local variable of the coroutine that parsed the document. When the text of a document is so short
  that it is stored inside of the string object, the texts of its words are gone too. A lookup at a
  word of a document therefore either finds nothing (its namespace is not in the index, or the text
  is long and there are no references to the procedure) or follows a dangling pointer.\<close>

theorem lookup_dangles:
  assumes "reachable T dump messages c" "list_all (message_safe T) messages"
    and "documents (server c) u = Some d" "w \<in> set (words_in_script (doc_script d))"
    and "word_type w = TEXT" "plain (word_str w)" "word_str w \<noteq> []" "call_words call \<noteq> []"
    and "call_ns call = (if path = [] then [] else abs_name path)" "simple_names path"
  shows "if path \<notin> view_paths (view_of (index (server c))) \<or>
      inline_capacity < length (contents (ctx_file (doc_context d))) \<and>
      spec_lookup f only path (word_str w) (length (call_words call) - 1) (view_of (index (server c))) = []
    then returns (find_references (files (server c)) (text_alive (server c)) only (index (server c)) call 0 w)
      (\<lambda>(ls, ix). ls = [])
    else find_references (files (server c)) (text_alive (server c)) only (index (server c)) call 0 w = Inl Undefined"
proof -
  let ?s = "server c"
  have inv: "index_inv ?s" "doc_ok T ?s u d"
    using reachable_inv [OF assms(1,2)] assms(3) by (simp_all add: server_inv_def inv_def)
  then have ix: "index_ok (index ?s)" "\<forall>r \<in> set (references (procs (index ?s))). files ?s (sourceFile (ref_location r)) = None"
    by (simp_all add: index_inv_def)
  have alive: "text_alive ?s w \<longleftrightarrow> inline_capacity < length (contents (ctx_file (doc_context d)))"
    using inv(2) assms(4) by (auto simp: doc_ok_def list_all_iff text_alive_def moved_word_def Let_def)
  show ?thesis
  proof (cases "text_alive ?s w")
    case True
    from find_references_dead [where live = "text_alive ?s" and w = w, OF ix assms(9,10,5,6,8) True, of f only]
    show ?thesis using True alive by (auto simp: spec_lookup_def spec_target_def split: if_splits)
  next
    case False
    with find_references_unreadable [where live = "text_alive ?s" and w = w, OF ix(1) assms(9,10,5,7) False] alive
    show ?thesis by simp
  qed
qed

definition committed_document :: Document where
  "committed_document = the (documents (server (committed [])) ''d'')"

definition committed_call :: Call where
  "committed_call = last (commands (doc_script committed_document))"

theorem lookup_dangles_witness:
  "find_references (files (server (committed []))) (text_alive (server (committed []))) False
     (index (server (committed []))) committed_call 0 (hd (call_words committed_call)) = Inl Undefined"
proof -
  let ?s = "server (committed [])" and ?w = "hd (call_words committed_call)"
  have safe: "list_all (message_safe example_tcl) [open_message]" using open_message_safe by simp
  have "case documents ?s ''d'' of None \<Rightarrow> False | Some _ \<Rightarrow> True" by code_simp
  then have d: "documents ?s ''d'' = Some committed_document"
    by (auto simp: committed_document_def split: option.splits)
  have w: "?w \<in> set (words_in_script (doc_script committed_document))" by code_simp
  have call: "word_type ?w = TEXT" "plain (word_str ?w)" "word_str ?w \<noteq> []" "call_words committed_call \<noteq> []"
    "call_ns committed_call = (if [] = [] then [] else abs_name [])" "simple_names []"
    by code_simp+
  have "case find_references (files ?s) (text_alive ?s) False (index ?s) committed_call 0 ?w of
      Inl _ \<Rightarrow> True | Inr _ \<Rightarrow> False" by code_simp
  then show ?thesis
    using lookup_dangles [OF committed_reachable safe d w call, of no_file False]
    by (auto simp: returns_def split: if_splits sum.splits)
qed

text \<open>C23: the index of the running server is well-formed and has the procedures and references of
  a single document, or none: parsing a document replaces what was known of all the others.\<close>

theorem index_of_one_document:
  assumes "reachable T dump messages c" "list_all (message_safe T) messages"
  shows "index_ok (index (server c)) \<and>
    (view_procs (view_of (index (server c))) = [] \<and> view_refs (view_of (index (server c))) = [] \<or>
     (\<exists>u d. documents (server c) u = Some d \<and> index_of (doc_script d) (index (server c))))"
proof -
  have "view_procs (spec_build [] (Script no_location []) (view_of make_index)) = []"
    "view_refs (spec_build [] (Script no_location []) (view_of make_index)) = []"
    by (simp_all add: spec_build_def view_of_def make_index_eqs empty_record_def)
  moreover have "index_inv (server c)" using reachable_inv [OF assms] by (simp add: server_inv_def inv_def)
  ultimately show ?thesis by (auto simp: index_inv_def index_of_def)
qed

theorem index_of_one_document_witness:
  "index_ok (index (server (committed []))) \<and>
   (\<exists>u d. documents (server (committed [])) u = Some d \<and> index_of (doc_script d) (index (server (committed []))))"
proof -
  have safe: "list_all (message_safe example_tcl) [open_message]" using open_message_safe by simp
  have "references (procs (index (server (committed [])))) \<noteq> []" by code_simp
  then show ?thesis
    using index_of_one_document [OF committed_reachable safe] by (auto simp: view_of_def)
qed

section \<open>Output\<close>


text \<open>A first request, whose answer is being written.\<close>

definition initialize_message :: json where
  "initialize_message = object_of [(''id'', JInt 1), (''method'', JString ''initialize'')]"

definition asked :: "json list \<Rightarrow> config" where
  "asked ms = dispatch_turn example_dump initialize_message (initial ms)"

lemma asked_reachable: "reachable example_tcl example_dump (initialize_message # ms) (asked ms)"
proof -
  have init: "initial (initialize_message # ms)\<lparr>inbox := ms\<rparr> = initial ms" by (simp add: initial_def)
  have "step example_tcl example_dump (initial (initialize_message # ms)) (asked ms)"
    using receive [of "initial (initialize_message # ms)" initialize_message ms example_tcl example_dump]
    unfolding asked_def init by (simp add: initial_def)
  then show ?thesis unfolding reachable_def by (blast intro: exec.intros)
qed

lemma asked_facts: "main_state (asked ms) = Ready" "sending (asked ms) = Some (False, False)" "inbox (asked ms) = ms"
  by code_simp+


text \<open>C21: whatever is sent answers a request: the messages sent are, in this order, answers to some of the
  messages that the server is done with, in the order in which they were received and at most one for
  each; every answer is well-formed and has the identifier of its request.\<close>

theorem answers_in_order:
  assumes "reachable T dump messages c" "list_all json_ok messages"
  shows "\<exists>ms sent qs. messages = ms @ pending c @ inbox c \<and>
    written (out c) @ stream_buf (out c) = concat (map (\<lambda>m. frame (dump m)) sent) \<and>
    subseq qs ms \<and> list_all2 answers qs sent"
  using reachable_answers [OF assms] unfolding answers_inv_def answered_def logged_def by blast

theorem answers_in_order_witness:
  "\<exists>ms sent qs. [initialize_message] = ms @ pending (asked []) @ inbox (asked []) \<and>
    written (out (asked [])) @ stream_buf (out (asked [])) = concat (map (\<lambda>m. frame (example_dump m)) sent) \<and>
    subseq qs ms \<and> list_all2 answers qs sent"
proof -
  have "list_all json_ok [initialize_message]" by code_simp
  from answers_in_order [OF asked_reachable this] show ?thesis .
qed

text \<open>C25: a request that is answered while another answer is still being written is undefined behaviour:
  the static buffer is changed under the outstanding write.\<close>

theorem overlapping_answers:
  assumes "reachable T dump messages c" "main_state c = Ready" "sending c \<noteq> None"
    and "inbox c = m # ms" "message_sent (snd (dispatch (server c) m)) = Some r"
  shows "\<exists>c'. step T dump c c' \<and> main_state c' = Crashed Undefined"
proof (intro exI conjI)
  show "step T dump c (dispatch_turn dump m (c\<lparr>inbox := ms\<rparr>))"
    by (rule receive [OF assms(2,4)])
  have "in_flight (out c) \<noteq> None"
    using output_sending [OF reachable_output [OF assms(1)]] assms(3) by simp
  then have send: "main_state (send dump r l b (c\<lparr>inbox := ms, server := s\<rparr>)) = Crashed Undefined" for l b s
    by (simp add: send_def start_send_def)
  from assms(5) show "main_state (dispatch_turn dump m (c\<lparr>inbox := ms\<rparr>)) = Crashed Undefined"
    using send by (cases "dispatch (server c) m") (auto simp: message_sent_Some dispatch_turn_def run_handler_def)
qed

theorem overlapping_answers_witness:
  "\<exists>c'. step example_tcl example_dump (asked [initialize_message]) c' \<and> main_state c' = Crashed Undefined"
proof (rule overlapping_answers [OF asked_reachable asked_facts(1) _ asked_facts(3)])
  show "sending (asked [initialize_message]) \<noteq> None" by (simp add: asked_facts)
  show "message_sent (snd (dispatch (server (asked [initialize_message])) initialize_message))
      = Some (reply_message (JInt 1) capabilities)"
    by code_simp
qed

section \<open>Deadlock\<close>

text \<open>C24: when \<open>didClose\<close> waits for the lock while an answer that was computed under it is still being
  written, nothing that a client can see ever happens again: the write can only be completed by the
  thread that waits. Such configurations are reachable.\<close>

theorem deadlock_is_forever:
  assumes "main_state c = Locking u" "sending c = Some (True, b)" "steps T dump n c c'" "alive c'"
  shows "main_state c' = Locking u \<and> sending c' = Some (True, b) \<and> inbox c' = inbox c \<and> out c' = out c \<and>
    documents (server c') = documents (server c) \<and> index (server c') = index (server c)"
proof -
  have "deadlocked c" using assms(1,2) by (simp add: deadlocked_def lock_held_def)
  with steps_deadlocked [OF assms(3) this assms(4)] assms(1,2) show ?thesis by (simp add: stuck_like_def)
qed

text \<open>A document is opened and parsed, a definition is asked for, the document is closed.\<close>

definition deadlock_messages :: "json list" where
  "deadlock_messages = [definition_message, close_message]"

definition looked_up :: config where
  "looked_up = dispatch_turn example_dump definition_message ((committed deadlock_messages)\<lparr>inbox := [close_message]\<rparr>)"

definition answering :: config where
  "answering = (case main_state looked_up of
     AtCursor m only cursor u n \<Rightarrow> lookup_turn example_dump m only cursor u n looked_up
   | _ \<Rightarrow> looked_up)"

definition closing :: config where
  "closing = dispatch_turn example_dump close_message (answering\<lparr>inbox := []\<rparr>)"

lemma closing_reachable: "reachable example_tcl example_dump (open_message # deadlock_messages) closing"
proof -
  have 1: "step example_tcl example_dump (committed deadlock_messages) looked_up"
    unfolding looked_up_def by (rule receive) code_simp+
  have "case main_state looked_up of AtCursor m only cursor u n \<Rightarrow> True | _ \<Rightarrow> False" by code_simp
  then have 2: "step example_tcl example_dump looked_up answering"
    by (auto simp: answering_def intro: resume_lookup split: main_state.splits)
  have "case main_state answering of Ready \<Rightarrow> True | _ \<Rightarrow> False"
    "inbox answering = [close_message]"
    by code_simp+
  then have 3: "step example_tcl example_dump answering closing"
    unfolding closing_def by (intro receive) (auto split: main_state.splits)
  obtain n where "steps example_tcl example_dump n (initial (open_message # deadlock_messages)) (committed deadlock_messages)"
    using committed_reachable [of deadlock_messages] by (auto simp: reachable_def)
  then have "steps example_tcl example_dump (Suc (Suc (Suc n))) (initial (open_message # deadlock_messages)) closing"
    using 1 2 3 by (blast intro: run_step)
  then show ?thesis by (auto simp: reachable_def)
qed

lemma closing_facts: "main_state closing = Locking ''d''" "sending closing = Some (True, False)"
  "jobs closing = []" "running closing = None"
  by code_simp+

lemma closing_stuck: "\<not> step T dump closing c"
  by (auto elim!: stepE simp: closing_facts lock_held_def)

theorem deadlock_is_forever_witness:
  "reachable example_tcl example_dump (open_message # deadlock_messages) closing \<and>
   (\<exists>n c'. steps example_tcl example_dump n closing c' \<and> main_state c' = Locking ''d'' \<and>
      (\<nexists>c''. step example_tcl example_dump c' c''))"
proof -
  have alive: "alive closing" by (simp add: closing_facts)
  have "main_state closing = Locking ''d''"
    using deadlock_is_forever [OF closing_facts(1,2) run_refl alive] by blast
  with closing_reachable closing_stuck show ?thesis by (blast intro: run_refl)
qed

end
