(* ===== verification/ServerHazards.thy ===== *)
theory ServerHazards
  imports ServerProperties
begin

text \<open>
  The properties of the server about what can go wrong: what it never sends, all ways in which it
  can crash, the race between the threads, and answers that are cut off.
\<close>

section \<open>What is never sent\<close>



section \<open>Crashes\<close>




section \<open>The data race\<close>

text \<open>
  A race: the next thing that the strand does is to read the text of a document, the next thing that
  the main thread does is to write it, and no lock orders the two.
\<close>

definition racing :: "config \<Rightarrow> string \<Rightarrow> bool" where
  "racing c u \<longleftrightarrow> main_state c = Ready \<and> running c = None \<and> (\<exists>us. jobs c = u # us) \<and>
     (\<exists>m ms. inbox c = m # ms \<and> store_of (fst (dispatch (server c) m)) u \<noteq> store_of (server c) u)"

lemma opened_reachable:
  assumes "event_of m = Opened u v t"
  shows "\<exists>c d. reachable T dump (m # ms) c \<and> main_state c = Ready \<and> running c = None \<and> jobs c = [u] \<and>
    inbox c = ms \<and> sending c = None \<and> documents (server c) u = Some d \<and>
    sint (item_version (doc_item d)) = v \<and> item_text (doc_item d) = t"
proof -
  have meth: "has_method ''textDocument/didOpen'' m" using assms by (auto simp: event_of_def split: if_splits sum.splits list.splits)
  obtain item where item: "rbind (json_at ''params'' m) DidOpenTextDocumentParams_from_json = Inr item"
    "item_uri item = u" "sint (item_version item) = v" "item_text item = t"
    using assms by (auto simp: event_of_def split: if_splits sum.splits list.splits)
  let ?s = "emplace_document u item new_Server"
  let ?c = "(initial ms)\<lparr>server := ?s, jobs := [u]\<rparr>"
  have "dispatch new_Server m = (?s, Spawns (Reparses u))"
    using meth item by (simp add: has_method_def dispatch_def on_textdocument_didopen_def)
  then have "dispatch_turn dump m ((initial (m # ms))\<lparr>inbox := ms\<rparr>) = ?c"
    by (simp add: dispatch_turn_def initial_def run_handler_def)
  then have "step T dump (initial (m # ms)) ?c"
    using receive [of "initial (m # ms)" m ms T dump] by (simp add: initial_def)
  then have "reachable T dump (m # ms) ?c" unfolding reachable_def by (blast intro: exec.intros)
  then show ?thesis
    using item by (intro exI [of _ ?c] exI [of _ "new_Document item 1"])
      (simp add: initial_def emplace_document_def new_Server_def new_Document_def)
qed

lemma change_event:
  assumes "event_of m = Changed u v t" "documents s u = Some d" "sint (item_version (doc_item d)) < v"
  obtains w where "dispatch s m = (update_document u (\<lambda>d. d\<lparr>doc_item := (doc_item d)\<lparr>item_text := t, item_version := w\<rparr>\<rparr>) s,
    Spawns (Reparses u))" "sint w = v"
proof -
  have meth: "has_method ''textDocument/didChange'' m" using assms(1) by (auto simp: event_of_def split: if_splits sum.splits list.splits)
  obtain p e where p: "rbind (json_at ''params'' m) DidChangeTextDocumentParams_from_json = Inr p"
    "contentChanges p = [e]" "uri (change_document p) = u" "sint (version (change_document p)) = v" "change_text e = t"
    using assms(1) by (auto simp: event_of_def split: if_splits sum.splits list.splits)
  show thesis
    using meth p assms(2,3)
    by (intro that [of "version (change_document p)"])
      (simp_all add: has_method_def dispatch_def on_textdocument_didchange_def find_document_def word_sless_alt)
qed

text \<open>What a job reads when it begins.\<close>

lemma start_reads:
  assumes "server_inv T c" "main_state c = Ready" "running c = None" "jobs c = u # us"
    and "documents (server c) u = Some d"
  shows "\<exists>c' j. step T dump c c' \<and> running c' = Some j \<and> contents (ctx_file (job_context j)) = item_text (doc_item d)"
proof -
  have "doc_ok T (server c) u d" using assms(1,5) by (simp add: server_inv_def inv_def)
  then have "safe_text T u (item_text (doc_item d))" "item_uri (doc_item d) = u" by (simp_all add: doc_ok_def)
  then obtain sc ix where r: "reparse_result T (doc_item d) (next_addr (server c)) =
      Inr (file_context u (item_text (doc_item d)) (next_addr (server c)), sc, ix)"
    by (rule reparse_returns)
  show ?thesis
    using start_job [of c u us T dump] assms(2-5) r
    by (intro exI [of _ "start_turn T u us c"])
      (simp add: start_turn_def reparse_start_def find_document_def file_context_def)
qed

text \<open>C17: a client that opens a document and changes it at once makes the two threads race for its text:
  a job that begins before the change is received parses the old text, one that begins after it the
  new one, and both orders are possible.\<close>

theorem change_races:
  assumes "list_all (message_safe T) (m1 # m2 # ms)"
    and "event_of m1 = Opened u v1 t1" "event_of m2 = Changed u v2 t2" "v1 < v2"
  shows "\<exists>c. reachable T dump (m1 # m2 # ms) c \<and> racing c u \<and>
    (\<exists>c' j. step T dump c c' \<and> running c' = Some j \<and> contents (ctx_file (job_context j)) = t1) \<and>
    (\<exists>c' c'' j. step T dump c c' \<and> step T dump c' c'' \<and> running c'' = Some j \<and>
       contents (ctx_file (job_context j)) = t2)"
proof -
  obtain c d where c: "reachable T dump (m1 # m2 # ms) c" "main_state c = Ready" "running c = None" "jobs c = [u]"
    "inbox c = m2 # ms" "documents (server c) u = Some d" "sint (item_version (doc_item d)) = v1" "item_text (doc_item d) = t1"
    using opened_reachable [OF assms(2), of T dump "m2 # ms"] by blast
  have inv: "server_inv T c" by (rule reachable_inv [OF c(1) assms(1)])
  obtain w where w: "dispatch (server c) m2 = (update_document u (\<lambda>d. d\<lparr>doc_item := (doc_item d)\<lparr>item_text := t2, item_version := w\<rparr>\<rparr>) (server c),
      Spawns (Reparses u))" "sint w = v2"
    using change_event [OF assms(3) c(6)] c(7) assms(4) by blast
  have "racing c u"
    unfolding racing_def using c w assms(4) by (auto simp: store_of_def)
  let ?c = "dispatch_turn dump m2 (c\<lparr>inbox := ms\<rparr>)"
  have received: "step T dump c ?c" by (rule receive [OF c(2,5)])
  have fields: "main_state ?c = Ready" "running ?c = None" "jobs ?c = [u, u]"
    "documents (server ?c) u = Some (d\<lparr>doc_item := (doc_item d)\<lparr>item_text := t2, item_version := w\<rparr>\<rparr>)"
    using c w(1) by (simp_all add: dispatch_turn_def run_handler_def)
  from start_reads [OF step_inv [OF received inv] fields] have
    "\<exists>c'' j. step T dump ?c c'' \<and> running c'' = Some j \<and> contents (ctx_file (job_context j)) = t2" by simp
  with start_reads [OF inv c(2,3,4,6)] c(1,8) \<open>racing c u\<close> received show ?thesis by blast
qed

definition change_message :: json where
  "change_message = notification ''textDocument/didChange'' (object_of
     [(''textDocument'', VersionedTextDocumentIdentifier_to_json \<lparr>uri = ''d'', version = 2\<rparr>),
      (''contentChanges'', JArray [object_of [(''text'', JString '''')]])])"

lemma empty_text_safe: "safe_text example_tcl u ''''"
proof -
  have parse: "case parse_file example_tcl (file_context u '''' a) of
      Inl _ \<Rightarrow> True | Inr (s, _) \<Rightarrow> list_all call_ok (calls_in_script s)" for a
    by code_simp
  have "list_all call_ok (calls_in_script s)" if "parse_file example_tcl (file_context u '''' a) = Inr (s, ctx)" for a s ctx
    using parse [of a] that by simp
  then show ?thesis by (auto simp: safe_text_def tcl_documented_def example_tcl_def)
qed

lemma change_message_safe: "message_safe example_tcl change_message"
proof -
  have "case rbind (json_at ''params'' change_message) DidOpenTextDocumentParams_from_json of
      Inl e \<Rightarrow> is_exception e | Inr p \<Rightarrow> False"
    "case rbind (json_at ''params'' change_message) DidChangeTextDocumentParams_from_json of
      Inl e \<Rightarrow> False | Inr p \<Rightarrow> list_all (\<lambda>e. change_text e = '''') (contentChanges p)"
    by code_simp+
  then show ?thesis
    using empty_text_safe by (auto simp: message_safe_def list_all_iff split: sum.splits)
qed

lemma example_events: "event_of open_message = Opened ''d'' 1 example_text" "event_of change_message = Changed ''d'' 2 ''''"
  by code_simp+

theorem change_races_witness:
  "\<exists>c. reachable example_tcl example_dump [open_message, change_message] c \<and> racing c ''d'' \<and>
    (\<exists>c' j. step example_tcl example_dump c c' \<and> running c' = Some j \<and>
       contents (ctx_file (job_context j)) = example_text) \<and>
    (\<exists>c' c'' j. step example_tcl example_dump c c' \<and> step example_tcl example_dump c' c'' \<and> running c'' = Some j \<and>
       contents (ctx_file (job_context j)) = '''')"
  by (rule change_races [OF _ example_events]) (simp_all add: open_message_safe change_message_safe)

section \<open>Stale cursors\<close>










section \<open>Answers that are cut off\<close>

lemma stopped_output:
  "steps T dump n c c' \<Longrightarrow> main_state c = Stopped \<Longrightarrow> sending c = None \<Longrightarrow> out c' = out c \<and> (main_state c' = Stopped \<or> \<not> alive c') \<and> sending c' = None"
proof (induction rule: exec.induct)
  case (run_step n c c' c'')
  then show ?case
    by (auto elim!: stepE simp: start_turn_def commit_turn_def split: sum.splits if_splits)
qed simp

text \<open>C26: \<open>exit\<close> does not wait for the answer of a handler that is being written: the answer may be cut
  off after any number of bytes, and then nothing is ever written again.\<close>

theorem exit_cuts_answer:
  assumes "reachable T dump messages c" "main_state c = Ready" "sending c = Some b"
    and "inbox c = m # ms" "json_contains ''method'' m" "has_method ''exit'' m" "k < length (stream_buf (out c))"
  shows "\<exists>c1 c2. step T dump c c1 \<and> step T dump c1 c2 \<and> main_state c2 = Stopped \<and>
    written (out c2) = written (out c) @ take k (stream_buf (out c)) \<and> stream_buf (out c2) \<noteq> [] \<and>
    (\<forall>n c3. steps T dump n c2 c3 \<longrightarrow> out c3 = out c2)"
proof -
  let ?c1 = "c\<lparr>inbox := ms, main_state := Stopped\<rparr>"
  have "dispatch (server c) m = (server c, Breaks)"
    using assms(5,6) by (simp add: has_method_def dispatch_def)
  then have "dispatch_turn dump m (c\<lparr>inbox := ms\<rparr>) = ?c1" by (simp add: dispatch_turn_def)
  then have 1: "step T dump c ?c1" using receive [OF assms(2,4), of T dump] by simp
  have 2: "step T dump ?c1 (failed_turn k ?c1)" by (rule write_fails) (use assms in simp_all)
  have "written (out (failed_turn k ?c1)) = written (out c) @ take k (stream_buf (out c))"
    "stream_buf (out (failed_turn k ?c1)) = drop k (stream_buf (out c))"
    "main_state (failed_turn k ?c1) = Stopped" "sending (failed_turn k ?c1) = None"
    by (simp_all add: failed_turn_def fail_send_def)
  with 1 2 assms(7) stopped_output [of T dump _ "failed_turn k ?c1"] show ?thesis
    by (intro exI [of _ ?c1] exI [of _ "failed_turn k ?c1"]) auto
qed

definition exit_message :: json where
  "exit_message = object_of [(''method'', JString ''exit'')]"

theorem exit_cuts_answer_witness:
  "\<exists>c1 c2. step example_tcl example_dump (asked [exit_message]) c1 \<and> step example_tcl example_dump c1 c2 \<and>
     main_state c2 = Stopped \<and> written (out c2) = ''Content''"
proof -
  have m: "json_contains ''method'' exit_message" "has_method ''exit'' exit_message" by code_simp+
  have k: "7 < length (stream_buf (out (asked [exit_message])))"
    "written (out (asked [exit_message])) @ take 7 (stream_buf (out (asked [exit_message]))) = ''Content''"
    by code_simp+
  from exit_cuts_answer [OF asked_reachable asked_facts m k(1)] k(2) show ?thesis by auto
qed

end
